(* ===== verification/Prelude.thy ===== *)
theory Prelude
  imports Main "HOL-Library.Sublist"
begin

text \<open>
  Shared vocabulary of the development. A Rust \<open>str\<close> is a UTF-8 byte sequence, and its
  lengths, slices and searches count bytes, so it is modelled as \<^typ>\<open>string\<close>, whose
  characters are bytes. Where the code iterates over Unicode scalar values (\<open>trim\<close>,
  \<open>chars\<close>) the model cuts the bytes into encoded characters with \<open>utf8_chars\<close>.
  A \<open>usize\<close> that counts lines, bytes or list elements is a \<^typ>\<open>nat\<close>; where the code
  subtracts, the model carries the guard or the panic explicitly.
  A \<open>Result<T, E>\<close> is a sum with the error on the left.
\<close>

type_synonym rust_str = string
type_synonym ('e, 'a) result = "'e + 'a"

abbreviation Err :: "'e \<Rightarrow> ('e, 'a) result" where "Err \<equiv> Inl"
abbreviation Ok :: "'a \<Rightarrow> ('e, 'a) result" where "Ok \<equiv> Inr"

named_theorems str_simps \<open>unfolding rules for the Rust string operations\<close>
named_theorems result_splits \<open>case splits of the sum, option and list eliminators\<close>

declare sum.splits [result_splits] option.splits [result_splits] if_splits [result_splits]

section \<open>Results\<close>

text \<open>Rust's \<open>?\<close>: continue with the value, or return the error.\<close>

definition bind_result :: "('e, 'a) result \<Rightarrow> ('a \<Rightarrow> ('e, 'b) result) \<Rightarrow> ('e, 'b) result" where
  "bind_result r f = (case r of Inl e \<Rightarrow> Inl e | Inr a \<Rightarrow> f a)"

lemma bind_result_simps [simp]:
  "bind_result (Inl e) f = Inl e" "bind_result (Inr a) f = f a"
  by (simp_all add: bind_result_def)

lemma bind_result_eq_Inr:
  "bind_result r f = Inr b \<longleftrightarrow> (\<exists>a. r = Inr a \<and> f a = Inr b)"
  by (cases r) auto

section \<open>Strings\<close>

subsection \<open>UTF-8 characters of a string\<close>

abbreviation byte_of :: "char \<Rightarrow> nat" where "byte_of c \<equiv> of_char c"

definition utf8_len :: "char \<Rightarrow> nat" where
  "utf8_len c = (if byte_of c < 192 then 1 else if byte_of c < 224 then 2
                 else if byte_of c < 240 then 3 else 4)"

lemma utf8_len_pos [simp]: "0 < utf8_len c"
  by (simp add: utf8_len_def)

fun utf8_chars :: "rust_str \<Rightarrow> rust_str list" where
  "utf8_chars [] = []"
| "utf8_chars (c # cs) =
     (c # take (utf8_len c - 1) cs) # utf8_chars (drop (utf8_len c - 1) cs)"

lemma concat_utf8_chars [simp]: "concat (utf8_chars s) = s"
  by (induction s rule: utf8_chars.induct) simp_all

text \<open>
  A string ends at a character boundary when its last encoded character is complete. Every
  Rust \<open>str\<close> does; concatenation then commutes with cutting into characters.
\<close>

fun utf8_closed :: "rust_str \<Rightarrow> bool" where
  "utf8_closed [] = True"
| "utf8_closed (c # cs) =
     (utf8_len c - 1 \<le> length cs \<and> utf8_closed (drop (utf8_len c - 1) cs))"

lemma utf8_chars_append: "utf8_closed s \<Longrightarrow> utf8_chars (s @ t) = utf8_chars s @ utf8_chars t"
proof (induction s rule: utf8_closed.induct)
  case (2 c cs)
  then have "utf8_len c - Suc (length cs) = 0" by auto
  with 2 show ?case by simp
qed simp

lemma utf8_closed_append: "utf8_closed s \<Longrightarrow> utf8_closed t \<Longrightarrow> utf8_closed (s @ t)"
  by (induction s rule: utf8_closed.induct) auto

definition ascii :: "rust_str \<Rightarrow> bool" where
  "ascii s \<longleftrightarrow> list_all (\<lambda>c. byte_of c < 128) s"

lemma ascii_simps [simp]: "ascii []" "ascii (c # s) \<longleftrightarrow> byte_of c < 128 \<and> ascii s"
  by (simp_all add: ascii_def)

lemma ascii_append [simp]: "ascii (a @ b) \<longleftrightarrow> ascii a \<and> ascii b"
  by (simp add: ascii_def)

lemma utf8_closed_ascii: "ascii s \<Longrightarrow> utf8_closed s"
  by (induction s) (simp_all add: utf8_len_def)

lemma utf8_chars_ascii: "ascii s \<Longrightarrow> utf8_chars s = map (\<lambda>c. [c]) s"
  by (induction s) (simp_all add: utf8_len_def)

lemma utf8_chars_ne: "u \<in> set (utf8_chars s) \<Longrightarrow> u \<noteq> []"
  by (induction s rule: utf8_chars.induct) auto

text \<open>The code points with the Unicode property \<open>White_Space\<close> (Rust \<open>char::is_whitespace\<close>).\<close>

definition is_whitespace :: "rust_str \<Rightarrow> bool" where
  "is_whitespace u =
     (case u of
        [a] \<Rightarrow> byte_of a = 32 \<or> (9 \<le> byte_of a \<and> byte_of a \<le> 13)
      | [a, b] \<Rightarrow> byte_of a = 194 \<and> (byte_of b = 133 \<or> byte_of b = 160)
      | [a, b, c] \<Rightarrow>
          (byte_of a = 225 \<and> byte_of b = 154 \<and> byte_of c = 128) \<or>
          (byte_of a = 226 \<and> byte_of b = 128 \<and>
             ((128 \<le> byte_of c \<and> byte_of c \<le> 138) \<or> byte_of c = 168 \<or> byte_of c = 169
              \<or> byte_of c = 175)) \<or>
          (byte_of a = 226 \<and> byte_of b = 129 \<and> byte_of c = 159) \<or>
          (byte_of a = 227 \<and> byte_of b = 128 \<and> byte_of c = 128)
      | _ \<Rightarrow> False)"

definition trim_start :: "rust_str \<Rightarrow> rust_str" where
  "trim_start s = concat (dropWhile is_whitespace (utf8_chars s))"

definition trim_end :: "rust_str \<Rightarrow> rust_str" where
  "trim_end s = concat (rev (dropWhile is_whitespace (rev (utf8_chars s))))"

definition trim :: "rust_str \<Rightarrow> rust_str" where
  "trim s = trim_end (trim_start s)"

declare trim_start_def [str_simps] trim_end_def [str_simps] trim_def [str_simps]
  is_whitespace_def [str_simps] utf8_len_def [str_simps]

lemma trim_start_Nil [simp]: "trim_start [] = []"
  and trim_end_Nil [simp]: "trim_end [] = []"
  and trim_Nil [simp]: "trim [] = []"
  by (simp_all add: str_simps)

lemma trim_end_prefix: "prefix (trim_end s) s"
proof -
  have "utf8_chars s = rev (takeWhile is_whitespace (rev (utf8_chars s)) @
                            dropWhile is_whitespace (rev (utf8_chars s)))"
    by simp
  then have "utf8_chars s = rev (dropWhile is_whitespace (rev (utf8_chars s))) @
                            rev (takeWhile is_whitespace (rev (utf8_chars s)))"
    by (simp only: rev_append)
  then have "concat (utf8_chars s) = trim_end s @
                concat (rev (takeWhile is_whitespace (rev (utf8_chars s))))"
    unfolding trim_end_def by (metis concat_append)
  then show ?thesis by (simp add: prefix_def) blast
qed

lemma trim_start_suffix: "suffix (trim_start s) s"
proof -
  have "concat (utf8_chars s) = concat (takeWhile is_whitespace (utf8_chars s)) @ trim_start s"
    unfolding trim_start_def by (metis concat_append takeWhile_dropWhile_id)
  then show ?thesis by (simp add: suffix_def) blast
qed

lemma set_trim_end: "set (trim_end s) \<subseteq> set s"
  using trim_end_prefix set_mono_prefix by blast

lemma set_trim: "set (trim s) \<subseteq> set s"
  unfolding trim_def
  using set_trim_end[of "trim_start s"] set_mono_suffix[OF trim_start_suffix[of s]] by blast

lemma trim_start_keep:
  assumes "ascii [c]" "\<not> is_whitespace [c]"
  shows "trim_start (c # s) = c # s"
proof -
  have "utf8_len c - 1 = 0" using assms(1) by (simp add: utf8_len_def)
  with assms(2) show ?thesis by (simp add: trim_start_def)
qed

lemma trim_end_keep_last:
  assumes "utf8_chars s \<noteq> []" "\<not> is_whitespace (last (utf8_chars s))"
  shows "trim_end s = s"
  using assms by (cases "utf8_chars s" rule: rev_cases)
    (simp_all add: trim_end_def, metis concat.simps concat_append concat_utf8_chars append_Nil2)

lemma trim_end_fixed_last:
  assumes "trim_end s = s" "s \<noteq> []"
  shows "\<not> is_whitespace (last (utf8_chars s))"
proof
  assume ws: "is_whitespace (last (utf8_chars s))"
  have ne: "utf8_chars s \<noteq> []" using assms(2) by (cases s) simp_all
  then obtain us u where us: "utf8_chars s = us @ [u]" by (cases "utf8_chars s" rule: rev_cases) auto
  have len: "length (concat (rev (dropWhile P (rev vs)))) \<le> length (concat vs)" for P and vs :: "rust_str list"
    by (induction vs rule: rev_induct) auto
  have "length (trim_end s) \<le> length (concat us)"
    using ws us len[of is_whitespace us] by (simp add: trim_end_def)
  moreover have "length s = length (concat us) + length u"
    using us by (metis concat.simps concat_append concat_utf8_chars append_Nil2 length_append)
  moreover have "u \<noteq> []" using us utf8_chars_ne[of u s] by simp
  ultimately show False using assms(1) by simp
qed

lemma trim_end_append:
  assumes "utf8_closed m" "trim_end s = s" "s \<noteq> []"
  shows "trim_end (m @ s) = m @ s"
proof -
  have "utf8_chars s \<noteq> []" using assms(3) by (cases s) simp_all
  then show ?thesis
    using trim_end_fixed_last[OF assms(2,3)]
    by (intro trim_end_keep_last) (simp_all add: utf8_chars_append[OF assms(1)])
qed

subsection \<open>The characters of a trimmed string\<close>

lemma utf8_chars_cons_append:
  "length u = utf8_len c - 1 \<Longrightarrow> utf8_chars (c # u @ t) = (c # u) # utf8_chars t"
  by simp

lemma utf8_chars_take: "utf8_chars (concat (take n (utf8_chars s))) = take n (utf8_chars s)"
proof (induction s arbitrary: n rule: utf8_chars.induct)
  case (2 c cs)
  show ?case
  proof (cases n)
    case (Suc m)
    let ?k = "utf8_len c - 1"
    show ?thesis
    proof (cases "?k \<le> length cs")
      case True
      then have "utf8_chars (c # take ?k cs @ t) = (c # take ?k cs) # utf8_chars t" for t
        by (intro utf8_chars_cons_append) simp
      moreover have "concat (take n (utf8_chars (c # cs))) =
          c # take ?k cs @ concat (take m (utf8_chars (drop ?k cs)))" using Suc by simp
      ultimately have "utf8_chars (concat (take n (utf8_chars (c # cs)))) =
          (c # take ?k cs) # utf8_chars (concat (take m (utf8_chars (drop ?k cs))))" by metis
      with Suc 2[of m] show ?thesis by simp
    next
      case False
      then have "drop ?k cs = []" by simp
      with Suc show ?thesis by simp
    qed
  qed simp
qed simp

lemma utf8_chars_drop: "utf8_chars (concat (drop n (utf8_chars s))) = drop n (utf8_chars s)"
proof (induction s arbitrary: n rule: utf8_chars.induct)
  case (2 c cs)
  then show ?case by (cases n) (simp_all del: concat.simps(2), simp)
qed simp

lemma utf8_chars_trim_end: "utf8_chars (trim_end s) = rev (dropWhile is_whitespace (rev (utf8_chars s)))"
proof -
  have "rev (dropWhile is_whitespace (rev (utf8_chars s))) =
      take (length (utf8_chars s) - length (takeWhile is_whitespace (rev (utf8_chars s)))) (utf8_chars s)"
    by (simp add: dropWhile_eq_drop rev_drop)
  then show ?thesis unfolding trim_end_def by (metis utf8_chars_take)
qed

lemma utf8_chars_trim_start: "utf8_chars (trim_start s) = dropWhile is_whitespace (utf8_chars s)"
  unfolding trim_start_def by (metis dropWhile_eq_drop utf8_chars_drop)

lemma dropWhile_both_ends:
  "rev (dropWhile P (rev (dropWhile P xs))) = dropWhile P (rev (dropWhile P (rev xs)))"
proof (induction xs)
  case (Cons x xs)
  show ?case
  proof (cases "P x")
    case True
    have "dropWhile P (rev (dropWhile P (rev xs @ [x]))) = dropWhile P (rev (dropWhile P (rev xs)))"
    proof (cases "\<forall>y \<in> set xs. P y")
      case all: True
      then have "dropWhile P (rev xs @ [x]) = []" "dropWhile P (rev xs) = []"
        using True by (auto simp: dropWhile_eq_Nil_conv)
      then show ?thesis by (simp only: rev.simps)
    next
      case False
      then obtain y where y: "y \<in> set (rev xs)" "\<not> P y" by auto
      then have "dropWhile P (rev xs @ [x]) = dropWhile P (rev xs) @ [x]" by (rule dropWhile_append1)
      with True show ?thesis by simp
    qed
    with True Cons show ?thesis by simp
  next
    case False
    then have "rev (dropWhile P (rev xs @ [x])) = x # rev (dropWhile P (rev xs))"
      by (simp add: dropWhile_append3)
    with False show ?thesis by simp
  qed
qed simp

lemma trim_swap: "trim s = trim_start (trim_end s)"
proof -
  have "utf8_chars (trim s) = utf8_chars (trim_start (trim_end s))"
    by (simp add: trim_def utf8_chars_trim_start utf8_chars_trim_end dropWhile_both_ends)
  then show ?thesis by (metis concat_utf8_chars)
qed

lemma trim_start_idem [simp]: "trim_start (trim_start s) = trim_start s"
proof -
  have "dropWhile P (dropWhile P xs) = dropWhile P xs" for P and xs :: "rust_str list" by (induction xs) simp_all
  then show ?thesis unfolding trim_start_def[of "trim_start s"] utf8_chars_trim_start by (simp add: trim_start_def)
qed

lemma trim_end_idem [simp]: "trim_end (trim_end s) = trim_end s"
proof -
  have "dropWhile P (dropWhile P xs) = dropWhile P xs" for P and xs :: "rust_str list" by (induction xs) simp_all
  then show ?thesis unfolding trim_end_def[of "trim_end s"] utf8_chars_trim_end by (simp add: trim_end_def)
qed

lemma trim_idem [simp]: "trim (trim s) = trim s"
proof -
  have "trim (trim s) = trim_end (trim_start (trim_start (trim_end s)))" unfolding trim_def[of "trim s"] by (simp only: trim_swap)
  also have "\<dots> = trim_start (trim_end (trim_end s))" by (metis trim_start_idem trim_def trim_swap)
  finally show ?thesis by (simp add: trim_swap)
qed

subsection \<open>Prefixes, suffixes, lines\<close>

definition strip_prefix :: "rust_str \<Rightarrow> rust_str \<Rightarrow> rust_str option" where
  "strip_prefix p s = (if prefix p s then Some (drop (length p) s) else None)"

definition strip_suffix :: "rust_str \<Rightarrow> rust_str \<Rightarrow> rust_str option" where
  "strip_suffix p s =
     (if suffix p s then Some (take (length s - length p) s) else None)"

lemma strip_prefix_append [simp]: "strip_prefix p (p @ s) = Some s"
  by (simp add: strip_prefix_def)

lemma strip_prefix_Some: "strip_prefix p s = Some r \<longleftrightarrow> s = p @ r"
  by (auto simp: strip_prefix_def prefix_def)

lemma strip_suffix_Some: "strip_suffix p s = Some r \<longleftrightarrow> s = r @ p"
  by (auto simp: strip_suffix_def suffix_def)

abbreviation newline :: char where "newline \<equiv> CHR 10"
abbreviation carriage_return :: char where "carriage_return \<equiv> CHR 13"

text \<open>\<open>s.split('\n')\<close>: always at least one piece.\<close>

fun split_on :: "char \<Rightarrow> rust_str \<Rightarrow> rust_str list" where
  "split_on d [] = [[]]"
| "split_on d (c # cs) =
     (if c = d then [] # split_on d cs
      else (case split_on d cs of [] \<Rightarrow> [[c]] | l # ls \<Rightarrow> (c # l) # ls))"

fun join_with :: "rust_str \<Rightarrow> rust_str list \<Rightarrow> rust_str" where
  "join_with sep [] = []"
| "join_with sep [x] = x"
| "join_with sep (x # y # ys) = x @ sep @ join_with sep (y # ys)"

lemma split_on_ne [simp]: "split_on d s \<noteq> []"
  by (induction s) (auto split: list.splits)

lemma join_split_on [simp]: "join_with [d] (split_on d s) = s"
proof (induction s)
  case (Cons c cs)
  then show ?case
    by (cases "split_on d cs") (auto split: list.splits, (case_tac list; simp)+)
qed simp

lemma split_on_no_sep: "l \<in> set (split_on d s) \<Longrightarrow> d \<notin> set l"
  by (induction s arbitrary: l) (auto split: list.splits if_splits)

lemma split_on_append_sep: "d \<notin> set x \<Longrightarrow> split_on d (x @ d # s) = x # split_on d s"
  by (induction x) auto

lemma split_on_single: "d \<notin> set x \<Longrightarrow> split_on d x = [x]"
  by (induction x) auto

lemma split_on_join:
  "ls \<noteq> [] \<Longrightarrow> \<forall>l \<in> set ls. d \<notin> set l \<Longrightarrow> split_on d (join_with [d] ls) = ls"
proof (induction "[d]" ls rule: join_with.induct)
  case (3 x y ys)
  then show ?case by (simp add: split_on_append_sep)
qed (simp_all add: split_on_single)

text \<open>
  \<open>s.lines()\<close>: the pieces ended by \<open>\n\<close>, without it and without a \<open>\r\<close> just before it; a
  last piece without \<open>\n\<close> is kept as it is, an empty one is dropped.
\<close>

definition strip_cr :: "rust_str \<Rightarrow> rust_str" where
  "strip_cr l = (case strip_suffix [carriage_return] l of Some l' \<Rightarrow> l' | None \<Rightarrow> l)"

definition str_lines :: "rust_str \<Rightarrow> rust_str list" where
  "str_lines s =
     (let ps = split_on newline s
      in map strip_cr (butlast ps) @ (if last ps = [] then [] else [last ps]))"

lemma strip_cr_prefix: "prefix (strip_cr l) l"
  by (auto simp: strip_cr_def strip_suffix_Some prefix_def split: option.splits)

lemma str_lines_no_newline: "l \<in> set (str_lines s) \<Longrightarrow> newline \<notin> set l"
  using split_on_no_sep[of _ newline s] set_mono_prefix[OF strip_cr_prefix]
  by (auto simp: str_lines_def Let_def split: if_splits dest: in_set_butlastD)

lemma suffix_single: "suffix [c] l \<longleftrightarrow> l \<noteq> [] \<and> last l = c"
  by (auto simp: suffix_def) (metis append_butlast_last_id)

lemma strip_cr_id: "\<not> suffix [carriage_return] l \<Longrightarrow> strip_cr l = l"
  by (simp add: strip_cr_def strip_suffix_def)

lemma str_lines_join:
  assumes "ls \<noteq> []" "\<forall>l \<in> set ls. newline \<notin> set l \<and> \<not> suffix [carriage_return] l" "last ls \<noteq> []"
  shows "str_lines (join_with [newline] ls) = ls"
proof -
  have "split_on newline (join_with [newline] ls) = ls"
    using assms by (intro split_on_join) auto
  moreover have "map strip_cr (butlast ls) = butlast ls"
    using assms by (intro map_idI) (auto intro: strip_cr_id dest: in_set_butlastD)
  ultimately show ?thesis using assms by (simp add: str_lines_def)
qed

text \<open>\<open>s.split_once(sep)\<close> with a string.\<close>

fun split_once_str :: "rust_str \<Rightarrow> rust_str \<Rightarrow> (rust_str \<times> rust_str) option" where
  "split_once_str sep [] = (if sep = [] then Some ([], []) else None)"
| "split_once_str sep (c # cs) =
     (if prefix sep (c # cs) then Some ([], drop (length sep) (c # cs))
      else map_option (\<lambda>(before, after). (c # before, after)) (split_once_str sep cs))"

lemma split_once_str_single: "d \<notin> set k \<Longrightarrow> split_once_str [d] (k @ d # s) = Some (k, s)"
  by (induction k) auto

lemma split_once_str_two: "d \<notin> set k \<Longrightarrow> split_once_str [d, e] (k @ d # e # s) = Some (k, s)"
  by (induction k) auto

definition ends_with :: "rust_str \<Rightarrow> rust_str \<Rightarrow> bool" where
  "ends_with s p = suffix p s"

definition ascii_lower :: "char \<Rightarrow> char" where
  "ascii_lower c = (if 65 \<le> byte_of c \<and> byte_of c \<le> 90 then char_of (byte_of c + 32) else c)"

abbreviation to_ascii_lowercase :: "rust_str \<Rightarrow> rust_str" where
  "to_ascii_lowercase s \<equiv> map ascii_lower s"

definition eq_ignore_ascii_case :: "rust_str \<Rightarrow> rust_str \<Rightarrow> bool" where
  "eq_ignore_ascii_case a b = (to_ascii_lowercase a = to_ascii_lowercase b)"

section \<open>Machine integers\<close>

text \<open>
  \<open>usize\<close> and \<open>u64\<close> on a 64-bit target, as natural numbers with the saturating operations of the
  standard library, and their decimal rendering.
\<close>

definition usize_max :: nat where "usize_max = 2 ^ 64 - 1"

definition sat_add :: "nat \<Rightarrow> nat \<Rightarrow> nat" where "sat_add a b = min (a + b) usize_max"
definition sat_mul :: "nat \<Rightarrow> nat \<Rightarrow> nat" where "sat_mul a b = min (a * b) usize_max"

lemma sat_add_le: "sat_add a b \<le> usize_max"
  by (simp add: sat_add_def)

lemma sat_add_exact: "a + b \<le> usize_max \<Longrightarrow> sat_add a b = a + b"
  by (simp add: sat_add_def)

lemma sat_add_min [simp]: "sat_add (min a usize_max) b = min (a + b) usize_max"
  "sat_add b (min a usize_max) = min (b + a) usize_max"
  by (simp_all add: sat_add_def min_def)

fun show_digits :: "nat \<Rightarrow> nat \<Rightarrow> rust_str" where
  "show_digits 0 n = []"
| "show_digits (Suc k) n = (if n < 10 then [] else show_digits k (n div 10)) @ [char_of (48 + n mod 10)]"

definition show_usize :: "nat \<Rightarrow> rust_str" where
  "show_usize n = show_digits 20 n"  \<comment> \<open>a \<open>u64\<close> has at most 20 decimal digits\<close>

section \<open>Lists\<close>

text \<open>\<open>Vec::last\<close> / \<open>Vec::last_mut\<close>.\<close>

definition last_opt :: "'a list \<Rightarrow> 'a option" where
  "last_opt xs = (if xs = [] then None else Some (last xs))"

lemma last_opt_simps [simp]:
  "last_opt [] = None" "last_opt (xs @ [x]) = Some x"
  by (simp_all add: last_opt_def)

lemma last_opt_Some: "last_opt xs = Some x \<longleftrightarrow> (\<exists>ys. xs = ys @ [x])"
  by (auto simp: last_opt_def) (metis append_butlast_last_id)

lemma last_opt_None [simp]: "last_opt xs = None \<longleftrightarrow> xs = []"
  by (simp add: last_opt_def)

definition map_last :: "('a \<Rightarrow> 'a) \<Rightarrow> 'a list \<Rightarrow> 'a list" where
  "map_last f xs = (if xs = [] then [] else butlast xs @ [f (last xs)])"

lemma map_last_simps [simp]:
  "map_last f [] = []" "map_last f (xs @ [x]) = xs @ [f x]"
  by (simp_all add: map_last_def)

lemma length_map_last [simp]: "length (map_last f xs) = length xs"
  by (simp add: map_last_def)

text \<open>The last elements of a list.\<close>

definition last_n :: "nat \<Rightarrow> 'a list \<Rightarrow> 'a list" where
  "last_n n xs = drop (length xs - n) xs"

lemma length_last_n [simp]: "length (last_n n xs) = min n (length xs)"
  by (simp add: last_n_def)

lemma last_n_append: "last_n n (last_n n xs @ ys) = last_n n (xs @ ys)"
proof (cases "n \<le> length xs")
  case True
  define a where "a = take (length xs - n) xs"
  define z where "z = last_n n xs"
  have "xs = a @ z" "length z = n" using True by (simp_all add: a_def z_def last_n_def)
  then show ?thesis unfolding z_def[symmetric] by (simp add: last_n_def)
qed (simp add: last_n_def)

lemma last_n_all: "length xs \<le> n \<Longrightarrow> last_n n xs = xs"
  by (simp add: last_n_def)

lemma last_n_long: "n \<le> length ys \<Longrightarrow> last_n n (xs @ ys) = last_n n ys"
  by (simp add: last_n_def)

end
