(* ===== verification/Patch_Parser.thy ===== *)
theory Patch_Parser
  imports Prelude
begin

text \<open>
  The apply-patch language: \<open>apply-patch/src/parser.rs\<close> (data types, boundary checks,
  \<open>parse_patch\<close>) and \<open>apply-patch/src/streaming_parser.rs\<close> (the incremental line parser).
  The parser state is a record with the source's fields; \<open>process_line\<close> is translated
  branch by branch. A step that fails leaves the Rust parser's \<open>state\<close> unchanged (every
  error is returned before the first mutation), so the line operations return either the
  error or the next parser, and \<open>push_delta\<close> returns the result together with the parser
  that a caller still holds after an error.
\<close>

section \<open>Data types and markers\<close>

definition BEGIN_PATCH_MARKER :: rust_str where "BEGIN_PATCH_MARKER = ''*** Begin Patch''"
definition END_PATCH_MARKER :: rust_str where "END_PATCH_MARKER = ''*** End Patch''"
definition ADD_FILE_MARKER :: rust_str where "ADD_FILE_MARKER = ''*** Add File: ''"
definition DELETE_FILE_MARKER :: rust_str where "DELETE_FILE_MARKER = ''*** Delete File: ''"
definition UPDATE_FILE_MARKER :: rust_str where "UPDATE_FILE_MARKER = ''*** Update File: ''"
definition MOVE_TO_MARKER :: rust_str where "MOVE_TO_MARKER = ''*** Move to: ''"
definition EOF_MARKER :: rust_str where "EOF_MARKER = ''*** End of File''"
definition CHANGE_CONTEXT_MARKER :: rust_str where "CHANGE_CONTEXT_MARKER = ''@@ ''"
definition EMPTY_CHANGE_CONTEXT_MARKER :: rust_str where "EMPTY_CHANGE_CONTEXT_MARKER = ''@@''"
definition ENVIRONMENT_ID_MARKER :: rust_str where
  "ENVIRONMENT_ID_MARKER = ''*** Environment ID:''"

lemmas marker_defs = BEGIN_PATCH_MARKER_def END_PATCH_MARKER_def ADD_FILE_MARKER_def
  DELETE_FILE_MARKER_def UPDATE_FILE_MARKER_def MOVE_TO_MARKER_def EOF_MARKER_def
  CHANGE_CONTEXT_MARKER_def EMPTY_CHANGE_CONTEXT_MARKER_def ENVIRONMENT_ID_MARKER_def

datatype parse_error =
    InvalidPatchError rust_str
  | InvalidHunkError rust_str nat  \<comment> \<open>message, line number\<close>

record update_file_chunk =
  change_context :: "rust_str option"
  old_lines :: "rust_str list"
  new_lines :: "rust_str list"
  context_line_indices :: "(nat \<times> nat) list"
  is_end_of_file :: bool

definition default_chunk :: update_file_chunk where
  "default_chunk = \<lparr>change_context = None, old_lines = [], new_lines = [],
                    context_line_indices = [], is_end_of_file = False\<rparr>"

datatype hunk =
    AddFile rust_str rust_str                                  \<comment> \<open>path, contents\<close>
  | DeleteFile rust_str
  | UpdateFile rust_str "rust_str option" "update_file_chunk list"  \<comment> \<open>path, move\_path, chunks\<close>

text \<open>\<open>Hunk::path\<close>: the destination of a rename, otherwise the path itself.\<close>

fun hunk_path :: "hunk \<Rightarrow> rust_str" where
  "hunk_path (AddFile path _) = path"
| "hunk_path (DeleteFile path) = path"
| "hunk_path (UpdateFile _ (Some path) _) = path"
| "hunk_path (UpdateFile path None _) = path"

text \<open>The path that \<open>Hunk::resolve_path\<close> joins to the working directory: the origin.\<close>

fun hunk_source_path :: "hunk \<Rightarrow> rust_str" where
  "hunk_source_path (UpdateFile path _ _) = path"
| "hunk_source_path h = hunk_path h"

definition push_context_line :: "rust_str \<Rightarrow> update_file_chunk \<Rightarrow> update_file_chunk" where
  "push_context_line line c =
     c\<lparr>context_line_indices := context_line_indices c @
            [(length (old_lines c), length (new_lines c))],
       old_lines := old_lines c @ [line],
       new_lines := new_lines c @ [line]\<rparr>"

datatype streaming_parser_mode =
    NotStarted | StartedPatch | AddFileMode | DeleteFileMode
  | UpdateFileMode nat  \<comment> \<open>hunk\_line\_number\<close>
  | EndedPatch

record streaming_parser_state =
  mode :: streaming_parser_mode
  hunks :: "hunk list"
  environment_id :: "rust_str option"

record streaming_patch_parser =
  line_buffer :: rust_str
  state :: streaming_parser_state
  line_number :: nat

definition default_parser :: streaming_patch_parser where
  "default_parser = \<lparr>line_buffer = [],
     state = \<lparr>mode = NotStarted, hunks = [], environment_id = None\<rparr>, line_number = 0\<rparr>"

section \<open>Error messages\<close>

abbreviation quoted :: "rust_str \<Rightarrow> rust_str" where
  "quoted s \<equiv> [CHR 39] @ s @ [CHR 39]"

definition msg_first_line :: rust_str where
  "msg_first_line = ''The first line of the patch must be '' @ quoted ''*** Begin Patch''"
definition msg_last_line :: rust_str where
  "msg_last_line = ''The last line of the patch must be '' @ quoted ''*** End Patch''"
definition msg_unexpected_line :: "rust_str \<Rightarrow> rust_str" where
  "msg_unexpected_line line = ''Unexpected line found in update hunk: '' @ quoted line @
     ''. Every line should start with '' @ quoted '' '' @ '' (context line), '' @ quoted ''+'' @
     '' (added line), or '' @ quoted ''-'' @ '' (removed line)''"
definition msg_invalid_header :: "rust_str \<Rightarrow> rust_str" where
  "msg_invalid_header trimmed = quoted trimmed @
     '' is not a valid hunk header. Valid hunk headers: '' @ quoted ''*** Add File: {path}'' @
     '', '' @ quoted ''*** Delete File: {path}'' @ '', '' @ quoted ''*** Update File: {path}''"
definition msg_expected_context :: "rust_str \<Rightarrow> rust_str" where
  "msg_expected_context line =
     ''Expected update hunk to start with a @@ context marker, got: '' @ quoted line"
definition msg_empty_update :: "rust_str \<Rightarrow> rust_str" where
  "msg_empty_update path = ''Update file hunk for path '' @ quoted path @ '' is empty''"
definition msg_no_lines :: rust_str where
  "msg_no_lines = ''Update hunk does not contain any lines''"

section \<open>The streaming parser\<close>

abbreviation chunk_is_empty :: "update_file_chunk \<Rightarrow> bool" where
  "chunk_is_empty c \<equiv> old_lines c = [] \<and> new_lines c = []"

definition last_chunk_sat :: "(update_file_chunk \<Rightarrow> bool) \<Rightarrow> update_file_chunk list \<Rightarrow> bool" where
  "last_chunk_sat P chunks = (case last_opt chunks of Some c \<Rightarrow> P c | None \<Rightarrow> False)"

lemma last_chunk_sat_simps [simp]:
  "\<not> last_chunk_sat P []" "last_chunk_sat P (cs @ [c]) = P c"
  by (simp_all add: last_chunk_sat_def)

definition ensure_update_hunk_is_not_empty ::
    "streaming_patch_parser \<Rightarrow> rust_str \<Rightarrow> (parse_error, unit) result" where
  "ensure_update_hunk_is_not_empty p line =
     (case last_opt (hunks (state p)) of
        Some (UpdateFile path _ chunks) \<Rightarrow>
          (case (chunks, mode (state p)) of
             ([], UpdateFileMode n) \<Rightarrow> Err (InvalidHunkError (msg_empty_update path) n)
           | _ \<Rightarrow>
             if last_chunk_sat chunk_is_empty chunks
             then if line = END_PATCH_MARKER
                  then Err (InvalidHunkError msg_no_lines (line_number p))
                  else Err (InvalidHunkError (msg_unexpected_line line) (line_number p))
             else Ok ())
      | _ \<Rightarrow> Ok ())"

definition set_mode :: "streaming_parser_mode \<Rightarrow> streaming_patch_parser \<Rightarrow> streaming_patch_parser" where
  "set_mode m p = p\<lparr>state := (state p)\<lparr>mode := m\<rparr>\<rparr>"

definition push_hunk ::
    "hunk \<Rightarrow> streaming_parser_mode \<Rightarrow> streaming_patch_parser \<Rightarrow> streaming_patch_parser" where
  "push_hunk h m p = p\<lparr>state := (state p)\<lparr>hunks := hunks (state p) @ [h], mode := m\<rparr>\<rparr>"

text \<open>Assigning through \<open>hunks.last_mut()\<close>, with the mode assignment that follows it.\<close>

definition put_last_hunk ::
    "hunk \<Rightarrow> streaming_parser_mode \<Rightarrow> streaming_patch_parser \<Rightarrow> streaming_patch_parser" where
  "put_last_hunk h m p =
     p\<lparr>state := (state p)\<lparr>hunks := map_last (\<lambda>_. h) (hunks (state p)), mode := m\<rparr>\<rparr>"

definition handle_hunk_headers_and_end_patch ::
    "streaming_patch_parser \<Rightarrow> rust_str \<Rightarrow> (parse_error, bool \<times> streaming_patch_parser) result" where
  "handle_hunk_headers_and_end_patch p trimmed =
     (if mode (state p) = StartedPatch \<and> prefix ENVIRONMENT_ID_MARKER trimmed
      then if environment_id (state p) \<noteq> None
           then Err (InvalidPatchError
                  ''apply_patch environment_id cannot be specified more than once'')
           else let env = trim (drop (length ENVIRONMENT_ID_MARKER) trimmed)
                in if env = []
                   then Err (InvalidPatchError ''apply_patch environment_id cannot be empty'')
                   else Ok (True, p\<lparr>state := (state p)\<lparr>environment_id := Some env\<rparr>\<rparr>)
      else if trimmed = END_PATCH_MARKER
      then bind_result (ensure_update_hunk_is_not_empty p trimmed)
             (\<lambda>_. Ok (True, set_mode EndedPatch p))
      else case strip_prefix ADD_FILE_MARKER trimmed of
        Some path \<Rightarrow> bind_result (ensure_update_hunk_is_not_empty p trimmed)
             (\<lambda>_. Ok (True, push_hunk (AddFile path []) AddFileMode p))
      | None \<Rightarrow> (case strip_prefix DELETE_FILE_MARKER trimmed of
        Some path \<Rightarrow> bind_result (ensure_update_hunk_is_not_empty p trimmed)
             (\<lambda>_. Ok (True, push_hunk (DeleteFile path) DeleteFileMode p))
      | None \<Rightarrow> (case strip_prefix UPDATE_FILE_MARKER trimmed of
        Some path \<Rightarrow> bind_result (ensure_update_hunk_is_not_empty p trimmed)
             (\<lambda>_. Ok (True, push_hunk (UpdateFile path None [])
                               (UpdateFileMode (line_number p)) p))
      | None \<Rightarrow> Ok (False, p))))"

text \<open>\<open>if chunks.is_empty() \{push(default)\}; chunks.last\_mut().map(f)\<close>.\<close>

definition touch_chunk ::
    "(update_file_chunk \<Rightarrow> update_file_chunk) \<Rightarrow> update_file_chunk list \<Rightarrow> update_file_chunk list" where
  "touch_chunk f chunks = map_last f (if chunks = [] then [default_chunk] else chunks)"

definition is_context_marker :: "rust_str \<Rightarrow> bool" where
  "is_context_marker u \<longleftrightarrow> u = EMPTY_CHANGE_CONTEXT_MARKER \<or> prefix CHANGE_CONTEXT_MARKER u"

definition process_update_body ::
    "streaming_patch_parser \<Rightarrow> nat \<Rightarrow> rust_str \<Rightarrow> rust_str option \<Rightarrow> update_file_chunk list \<Rightarrow>
     rust_str \<Rightarrow> (parse_error, streaming_patch_parser) result" where
  "process_update_body p n path mv chunks line =
     (let update_line = trim_end line;
          put = (\<lambda>mv' cs'. Ok (put_last_hunk (UpdateFile path mv' cs') (UpdateFileMode n) p))
      in if last_chunk_sat is_end_of_file chunks \<and> update_line = [] then Ok p
         else if last_chunk_sat is_end_of_file chunks \<and> \<not> is_context_marker update_line
         then Err (InvalidHunkError (msg_expected_context line) (line_number p))
         else if chunks = [] \<and> mv = None \<and> prefix MOVE_TO_MARKER update_line
         then put (Some (drop (length MOVE_TO_MARKER) update_line)) chunks
         else if is_context_marker update_line \<and> last_chunk_sat chunk_is_empty chunks
         then Err (InvalidHunkError (msg_unexpected_line line) (line_number p))
         else if update_line = EMPTY_CHANGE_CONTEXT_MARKER
         then put mv (chunks @ [default_chunk])
         else if prefix CHANGE_CONTEXT_MARKER update_line
         then put mv (chunks @ [default_chunk\<lparr>change_context :=
                Some (drop (length CHANGE_CONTEXT_MARKER) update_line)\<rparr>])
         else if update_line = EOF_MARKER
         then if last_chunk_sat chunk_is_empty chunks
              then Err (InvalidHunkError msg_no_lines (line_number p))
              else put mv (map_last (\<lambda>c. c\<lparr>is_end_of_file := True\<rparr>) chunks)
         else case line of
             [] \<Rightarrow> put mv (touch_chunk (push_context_line []) chunks)
           | c # rest \<Rightarrow>
             if c = CHR '' '' then put mv (touch_chunk (push_context_line rest) chunks)
             else if c = CHR ''+''
             then put mv (touch_chunk (\<lambda>k. k\<lparr>new_lines := new_lines k @ [rest]\<rparr>) chunks)
             else if c = CHR ''-''
             then put mv (touch_chunk (\<lambda>k. k\<lparr>old_lines := old_lines k @ [rest]\<rparr>) chunks)
             else if last_chunk_sat (\<lambda>k. \<not> chunk_is_empty k) chunks
             then Err (InvalidHunkError (msg_expected_context line) (line_number p))
             else Err (InvalidHunkError (msg_unexpected_line line) (line_number p)))"

text \<open>The tail shared by the modes that expect a header: consumed, or try the given branch.\<close>

definition header_or ::
    "streaming_patch_parser \<Rightarrow> rust_str \<Rightarrow> (parse_error, streaming_patch_parser) result \<Rightarrow>
     (parse_error, streaming_patch_parser) result" where
  "header_or p trimmed otherwise =
     (case handle_hunk_headers_and_end_patch p trimmed of
        Inl e \<Rightarrow> Err e
      | Inr (True, p') \<Rightarrow> Ok p'
      | Inr (False, _) \<Rightarrow> otherwise)"

definition process_line ::
    "streaming_patch_parser \<Rightarrow> rust_str \<Rightarrow> (parse_error, streaming_patch_parser) result" where
  "process_line p line =
     (let trimmed = trim line;
          invalid_header = Err (InvalidHunkError (msg_invalid_header trimmed) (line_number p))
      in case mode (state p) of
        NotStarted \<Rightarrow>
          if trimmed = BEGIN_PATCH_MARKER then Ok (set_mode StartedPatch p)
          else Err (InvalidPatchError msg_first_line)
      | StartedPatch \<Rightarrow> header_or p trimmed invalid_header
      | AddFileMode \<Rightarrow>
          header_or p trimmed
            (case (strip_prefix ''+'' line, last_opt (hunks (state p))) of
               (Some line_to_add, Some (AddFile path contents)) \<Rightarrow>
                  Ok (put_last_hunk (AddFile path (contents @ line_to_add @ [newline]))
                        AddFileMode p)
             | _ \<Rightarrow> invalid_header)
      | DeleteFileMode \<Rightarrow> header_or p trimmed invalid_header
      | UpdateFileMode n \<Rightarrow>
          header_or p (trim_end line)
            (case last_opt (hunks (state p)) of
               Some (UpdateFile path mv chunks) \<Rightarrow> process_update_body p n path mv chunks line
             | _ \<Rightarrow> Err (InvalidHunkError (msg_unexpected_line line) (line_number p)))
      | EndedPatch \<Rightarrow>
          if trimmed = [] then Ok p else Err (InvalidPatchError msg_last_line))"

fun push_chars ::
    "streaming_patch_parser \<Rightarrow> rust_str \<Rightarrow> (parse_error, unit) result \<times> streaming_patch_parser" where
  "push_chars p [] = (Ok (), p)"
| "push_chars p (ch # delta) =
     (if ch = newline
      then let line = strip_cr (line_buffer p);
               p1 = p\<lparr>line_buffer := [], line_number := line_number p + 1\<rparr>
           in (case process_line p1 line of
                 Inl e \<Rightarrow> (Err e, p1)
               | Inr p2 \<Rightarrow> push_chars p2 delta)
      else push_chars (p\<lparr>line_buffer := line_buffer p @ [ch]\<rparr>) delta)"

definition push_delta ::
    "streaming_patch_parser \<Rightarrow> rust_str \<Rightarrow>
     (parse_error, hunk list) result \<times> streaming_patch_parser" where
  "push_delta p delta =
     (case push_chars p delta of
        (Inl e, p') \<Rightarrow> (Err e, p')
      | (Inr _, p') \<Rightarrow> (Ok (hunks (state p')), p'))"

definition finish_line ::
    "streaming_patch_parser \<Rightarrow> (parse_error, streaming_patch_parser) result" where
  "finish_line p =
     (if line_buffer p = [] then Ok p
      else let line = line_buffer p;
               p1 = p\<lparr>line_buffer := [], line_number := line_number p + 1\<rparr>
           in if trim line = END_PATCH_MARKER
              then bind_result (ensure_update_hunk_is_not_empty p1 (trim line))
                     (\<lambda>_. Ok (set_mode EndedPatch p1))
              else process_line p1 line)"

definition finish ::
    "streaming_patch_parser \<Rightarrow> (parse_error, hunk list \<times> streaming_patch_parser) result" where
  "finish p =
     bind_result (finish_line p) (\<lambda>p'.
       if mode (state p') \<noteq> EndedPatch then Err (InvalidPatchError msg_last_line)
       else Ok (hunks (state p'), p'))"

section \<open>Boundary checks and \<open>parse_patch\<close>\<close>

datatype parse_mode = Strict | Lenient

record apply_patch_args =
  patch :: rust_str
  arg_hunks :: "hunk list"
  workdir :: "rust_str option"
  arg_environment_id :: "rust_str option"

definition check_start_and_end_lines_strict ::
    "rust_str option \<Rightarrow> rust_str option \<Rightarrow> (parse_error, unit) result" where
  "check_start_and_end_lines_strict first_line last_line =
     (case (map_option trim first_line, map_option trim last_line) of
        (Some f, Some l) \<Rightarrow>
          if f = BEGIN_PATCH_MARKER \<and> l = END_PATCH_MARKER then Ok ()
          else if f \<noteq> BEGIN_PATCH_MARKER then Err (InvalidPatchError msg_first_line)
          else Err (InvalidPatchError msg_last_line)
      | (Some f, None) \<Rightarrow>
          if f \<noteq> BEGIN_PATCH_MARKER then Err (InvalidPatchError msg_first_line)
          else Err (InvalidPatchError msg_last_line)
      | (None, _) \<Rightarrow> Err (InvalidPatchError msg_last_line))"

definition check_patch_boundaries_strict ::
    "rust_str list \<Rightarrow> (parse_error, rust_str list) result" where
  "check_patch_boundaries_strict lines =
     bind_result
       (case lines of
          [] \<Rightarrow> check_start_and_end_lines_strict None None
        | first # _ \<Rightarrow> check_start_and_end_lines_strict (Some first) (Some (last lines)))
       (\<lambda>_. Ok lines)"

definition heredoc_openers :: "rust_str list" where
  "heredoc_openers = [''<<EOF'', ''<<'' @ quoted ''EOF'', ''<<'' @ [CHR 34] @ ''EOF'' @ [CHR 34]]"

definition check_patch_boundaries_lenient ::
    "rust_str list \<Rightarrow> (parse_error, rust_str list) result" where
  "check_patch_boundaries_lenient original_lines =
     (case check_patch_boundaries_strict original_lines of
        Inr lines \<Rightarrow> Ok lines
      | Inl original_parse_error \<Rightarrow>
          if 2 \<le> length original_lines
             \<and> List.member heredoc_openers (hd original_lines)
             \<and> ends_with (last original_lines) ''EOF''
             \<and> 4 \<le> length original_lines
          then check_patch_boundaries_strict (butlast (tl original_lines))
          else Err original_parse_error)"

definition parse_patch_text ::
    "rust_str \<Rightarrow> parse_mode \<Rightarrow> (parse_error, apply_patch_args) result" where
  "parse_patch_text text m =
     (let lines = str_lines (trim text)
      in bind_result
           (case m of Strict \<Rightarrow> check_patch_boundaries_strict lines
                    | Lenient \<Rightarrow> check_patch_boundaries_lenient lines)
           (\<lambda>patch_lines.
             let pt = join_with [newline] patch_lines;
                 (r, p) = push_delta default_parser pt
             in bind_result r (\<lambda>_. bind_result (finish p) (\<lambda>(hs, p').
                  Ok \<lparr>patch = pt, arg_hunks = hs, workdir = None,
                      arg_environment_id = environment_id (state p')\<rparr>))))"

definition PARSE_IN_STRICT_MODE :: bool where "PARSE_IN_STRICT_MODE = False"

definition parse_patch :: "rust_str \<Rightarrow> (parse_error, apply_patch_args) result" where
  "parse_patch text = parse_patch_text text (if PARSE_IN_STRICT_MODE then Strict else Lenient)"

end
