(* ===== verification/Patch_Parser_Props.thy ===== *)
theory Patch_Parser_Props
  imports Patch_Parser
begin

text \<open>
  Properties of the patch parser: independence of the chunking of the input, the
  well-formedness invariant kept by every line, and what a successful parse guarantees to
  the code that applies the hunks.
\<close>

section \<open>Streaming\<close>

lemma push_chars_append:
  "push_chars p (a @ b) =
     (case push_chars p a of (Inl e, p') \<Rightarrow> (Inl e, p') | (Inr _, p') \<Rightarrow> push_chars p' b)"
  by (induction p a rule: push_chars.induct) (auto simp: Let_def split: sum.splits prod.splits)

section \<open>The well-formedness invariant\<close>

text \<open>
  The recorded context lines of a chunk are pairs of indices that increase strictly on both
  sides, lie inside the old and new lines, and point at equal lines.
\<close>

definition indices_increasing :: "(nat \<times> nat) list \<Rightarrow> bool" where
  "indices_increasing = sorted_wrt (\<lambda>(i, j) (i', j'). i < i' \<and> j < j')"

definition chunk_wf :: "update_file_chunk \<Rightarrow> bool" where
  "chunk_wf c \<longleftrightarrow> indices_increasing (context_line_indices c) \<and>
     (\<forall>(i, j) \<in> set (context_line_indices c).
        i < length (old_lines c) \<and> j < length (new_lines c) \<and> old_lines c ! i = new_lines c ! j)"

fun hunk_chunks :: "hunk \<Rightarrow> update_file_chunk list" where
  "hunk_chunks (UpdateFile _ _ cs) = cs"
| "hunk_chunks _ = []"

definition hunk_wf :: "hunk \<Rightarrow> bool" where
  "hunk_wf h \<longleftrightarrow> (\<forall>c \<in> set (hunk_chunks h). chunk_wf c) \<and>
     (\<forall>c \<in> set (butlast (hunk_chunks h)). \<not> chunk_is_empty c)"

fun hunk_complete :: "hunk \<Rightarrow> bool" where
  "hunk_complete (UpdateFile _ _ cs) \<longleftrightarrow> cs \<noteq> [] \<and> (\<forall>c \<in> set cs. \<not> chunk_is_empty c)"
| "hunk_complete _ \<longleftrightarrow> True"

fun is_update :: "hunk \<Rightarrow> bool" where
  "is_update (UpdateFile _ _ _) = True"
| "is_update _ = False"

fun mode_agrees :: "streaming_parser_mode \<Rightarrow> hunk list \<Rightarrow> bool" where
  "mode_agrees (UpdateFileMode _) hs \<longleftrightarrow> hs \<noteq> [] \<and> is_update (last hs)"
| "mode_agrees EndedPatch hs \<longleftrightarrow> (\<forall>h \<in> set hs. hunk_complete h)"
| "mode_agrees AddFileMode hs \<longleftrightarrow> hs \<noteq> [] \<and> (\<exists>p c. last hs = AddFile p c)"
| "mode_agrees DeleteFileMode hs \<longleftrightarrow> hs \<noteq> [] \<and> (\<exists>p. last hs = DeleteFile p)"
| "mode_agrees _ hs \<longleftrightarrow> hs = []"

definition parser_inv :: "streaming_patch_parser \<Rightarrow> bool" where
  "parser_inv p \<longleftrightarrow>
     (\<forall>h \<in> set (hunks (state p)). hunk_wf h) \<and>
     (\<forall>h \<in> set (butlast (hunks (state p))). hunk_complete h) \<and>
     mode_agrees (mode (state p)) (hunks (state p))"

lemma parser_inv_cong:
  "state p' = state p \<Longrightarrow> parser_inv p' = parser_inv p"
  by (simp add: parser_inv_def)

lemma parser_inv_default: "parser_inv default_parser"
  by (simp add: parser_inv_def default_parser_def)

lemma chunk_wf_default [simp]: "chunk_wf default_chunk" "chunk_wf (default_chunk\<lparr>change_context := x\<rparr>)"
  by (simp_all add: chunk_wf_def default_chunk_def indices_increasing_def)

lemma chunk_wf_push_context [simp]: "chunk_wf c \<Longrightarrow> chunk_wf (push_context_line l c)"
  by (auto simp: chunk_wf_def push_context_line_def indices_increasing_def sorted_wrt_append
      nth_append split: prod.splits)

lemma chunk_wf_grow [simp]:
  "chunk_wf c \<Longrightarrow> chunk_wf (c\<lparr>new_lines := new_lines c @ [l]\<rparr>)"
  "chunk_wf c \<Longrightarrow> chunk_wf (c\<lparr>old_lines := old_lines c @ [l]\<rparr>)"
  "chunk_wf c \<Longrightarrow> chunk_wf (c\<lparr>is_end_of_file := b\<rparr>)"
  by (auto simp: chunk_wf_def nth_append split: prod.splits)

lemma hunk_wf_simple [simp]: "hunk_wf (AddFile p c)" "hunk_wf (DeleteFile p)"
  "hunk_wf (UpdateFile p m [])"
  by (simp_all add: hunk_wf_def)

lemma hunk_wf_snoc:
  "hunk_wf (UpdateFile p m (cs @ [c])) \<longleftrightarrow>
     chunk_wf c \<and> (\<forall>c \<in> set cs. chunk_wf c \<and> \<not> chunk_is_empty c)"
  by (auto simp: hunk_wf_def)

lemma hunk_complete_snoc:
  "hunk_complete (UpdateFile p m (cs @ [c])) \<longleftrightarrow>
     \<not> chunk_is_empty c \<and> (\<forall>c \<in> set cs. \<not> chunk_is_empty c)"
  by auto

subsection \<open>Headers\<close>

lemma ensure_complete:
  assumes "parser_inv p" "ensure_update_hunk_is_not_empty p line = Inr u" "mode (state p) \<noteq> EndedPatch"
  shows "\<forall>h \<in> set (hunks (state p)). hunk_complete h"
proof (cases "hunks (state p)" rule: rev_cases)
  case (snoc hs h)
  then have before: "\<forall>h \<in> set hs. hunk_complete h" and wf: "hunk_wf h"
    using assms(1) by (auto simp: parser_inv_def)
  have "hunk_complete h"
  proof (cases h)
    case (UpdateFile path mv cs)
    from assms(1,3) snoc UpdateFile obtain n where "mode (state p) = UpdateFileMode n"
      by (cases "mode (state p)") (auto simp: parser_inv_def)
    with assms(2) snoc UpdateFile wf show ?thesis
      by (cases cs rule: rev_cases)
         (auto simp: ensure_update_hunk_is_not_empty_def hunk_wf_snoc split: if_splits list.splits)
  qed simp_all
  with before snoc show ?thesis by simp
qed simp

lemma push_hunk_inv:
  assumes "parser_inv p" "ensure_update_hunk_is_not_empty p line = Inr u" "mode (state p) \<noteq> EndedPatch"
    and "hunk_wf h" "mode_agrees m [h]" "m \<noteq> StartedPatch" "m \<noteq> NotStarted" "m \<noteq> EndedPatch"
  shows "parser_inv (push_hunk h m p)"
  using assms ensure_complete[OF assms(1-3)]
  by (cases m) (auto simp: parser_inv_def push_hunk_def)

fun header_hunk :: "streaming_parser_mode \<Rightarrow> hunk \<Rightarrow> bool" where
  "header_hunk AddFileMode h \<longleftrightarrow> (\<exists>path. h = AddFile path [])"
| "header_hunk DeleteFileMode h \<longleftrightarrow> (\<exists>path. h = DeleteFile path)"
| "header_hunk (UpdateFileMode _) h \<longleftrightarrow> (\<exists>path. h = UpdateFile path None [])"
| "header_hunk _ _ \<longleftrightarrow> False"

lemma handle_headers_cases:
  assumes "handle_hunk_headers_and_end_patch p t = Inr (b, p')"
  obtains (none) "p' = p"
  | (env) e where "p' = p\<lparr>state := (state p)\<lparr>environment_id := Some e\<rparr>\<rparr>"
  | (ended) "ensure_update_hunk_is_not_empty p t = Inr ()" "p' = set_mode EndedPatch p"
  | (header) h m where "ensure_update_hunk_is_not_empty p t = Inr ()"
      "p' = push_hunk h m p" "header_hunk m h"
proof -
  note def = assms[unfolded handle_hunk_headers_and_end_patch_def Let_def]
  consider (e) "mode (state p) = StartedPatch \<and> prefix ENVIRONMENT_ID_MARKER t"
    | (rest) "\<not> (mode (state p) = StartedPatch \<and> prefix ENVIRONMENT_ID_MARKER t)" by blast
  then show thesis
  proof cases
    case e
    with def show ?thesis by (auto split: if_splits intro: env)
  next
    case rest
    note def2 = def[unfolded if_not_P[OF rest]]
    show ?thesis
    proof (cases "t = END_PATCH_MARKER")
      case True
      with def2 show ?thesis by (auto simp: bind_result_eq_Inr intro: ended)
    next
      case False
      note def3 = def2[unfolded if_not_P[OF False]]
      have hdr: "header_hunk m h \<Longrightarrow> bind_result (ensure_update_hunk_is_not_empty p t)
          (\<lambda>_. Ok (True, push_hunk h m p)) = Inr (b, p') \<Longrightarrow> thesis" for m h
        by (auto simp: bind_result_eq_Inr intro: header)
      show ?thesis
      proof (cases "strip_prefix ADD_FILE_MARKER t")
        case (Some path)
        with def3 show ?thesis by (auto intro: hdr[of AddFileMode "AddFile path []"])
      next
        case noadd: None
        show ?thesis
        proof (cases "strip_prefix DELETE_FILE_MARKER t")
          case (Some path)
          with def3 noadd show ?thesis by (auto intro: hdr[of DeleteFileMode "DeleteFile path"])
        next
          case None
          with def3 noadd show ?thesis
            by (cases "strip_prefix UPDATE_FILE_MARKER t")
               (auto intro: none hdr[of "UpdateFileMode (line_number p)" "UpdateFile path None []" for path])
        qed
      qed
    qed
  qed
qed

lemma handle_headers_inv:
  assumes inv: "parser_inv p" and mode: "mode (state p) \<noteq> EndedPatch"
    and res: "handle_hunk_headers_and_end_patch p t = Inr (b, p')"
  shows "parser_inv p'"
  using res
proof (cases rule: handle_headers_cases)
  case none
  with inv show ?thesis by simp
next
  case (env e)
  with inv show ?thesis by (simp add: parser_inv_def)
next
  case ended
  with inv ensure_complete[OF inv ended(1) mode] show ?thesis
    by (simp add: parser_inv_def set_mode_def)
next
  case (header h m)
  then have "hunk_wf h" "mode_agrees m [h]" "m \<noteq> StartedPatch" "m \<noteq> NotStarted" "m \<noteq> EndedPatch"
    by (cases m; auto)+
  then show ?thesis
    unfolding header(2) by (rule push_hunk_inv[OF inv header(1) mode])
qed

lemma header_or_inv:
  assumes "parser_inv p" "mode (state p) \<noteq> EndedPatch" "header_or p t r = Inr p'"
    and "\<And>q. r = Inr q \<Longrightarrow> parser_inv q"
  shows "parser_inv p'"
proof (cases "handle_hunk_headers_and_end_patch p t")
  case (Inl e)
  with assms(3) show ?thesis by (simp add: header_or_def)
next
  case (Inr bp)
  obtain b q where bp: "bp = (b, q)" by (cases bp)
  with Inr assms(3,4) handle_headers_inv[OF assms(1,2)] show ?thesis
    by (cases b) (auto simp: header_or_def)
qed

subsection \<open>Update lines\<close>

lemma put_last_hunk_inv:
  assumes "parser_inv p" "hunks (state p) = hs @ [h]" "hunk_wf h'" "mode_agrees m [h']"
    "m \<noteq> EndedPatch" "m \<noteq> NotStarted" "m \<noteq> StartedPatch"
  shows "parser_inv (put_last_hunk h' m p)"
  using assms by (cases m) (auto simp: parser_inv_def put_last_hunk_def)

lemma touch_chunk_wf:
  assumes "hunk_wf (UpdateFile p m cs)" "\<And>c. chunk_wf c \<Longrightarrow> chunk_wf (f c)"
  shows "hunk_wf (UpdateFile p m (touch_chunk f cs))"
proof (cases cs rule: rev_cases)
  case Nil
  then show ?thesis
    using assms(2)[of default_chunk] by (simp add: touch_chunk_def map_last_def hunk_wf_def)
next
  case (snoc ds d)
  with assms show ?thesis by (simp add: touch_chunk_def hunk_wf_snoc)
qed

lemma append_chunk_wf:
  assumes "hunk_wf (UpdateFile p m cs)" "chunk_wf c" "\<not> last_chunk_sat chunk_is_empty cs"
  shows "hunk_wf (UpdateFile p m (cs @ [c]))"
  using assms unfolding hunk_wf_snoc by (cases cs rule: rev_cases) (auto simp: hunk_wf_snoc)

lemma mark_eof_wf:
  assumes "hunk_wf (UpdateFile p m cs)"
  shows "hunk_wf (UpdateFile p m (map_last (\<lambda>c. c\<lparr>is_end_of_file := True\<rparr>) cs))"
  using assms by (cases cs rule: rev_cases) (auto simp: hunk_wf_snoc hunk_wf_def)

lemma hunk_wf_move: "hunk_wf (UpdateFile p m cs) \<Longrightarrow> hunk_wf (UpdateFile p' m' cs)"
  by (simp add: hunk_wf_def)

lemma process_update_body_cases:
  assumes "process_update_body p n path mv cs line = Inr p'"
  obtains "p' = p"
  | mv' where "p' = put_last_hunk (UpdateFile path mv' cs) (UpdateFileMode n) p"
  | c where "p' = put_last_hunk (UpdateFile path mv (cs @ [c])) (UpdateFileMode n) p"
      "chunk_wf c" "\<not> last_chunk_sat chunk_is_empty cs"
  | "p' = put_last_hunk (UpdateFile path mv (map_last (\<lambda>c. c\<lparr>is_end_of_file := True\<rparr>) cs))
            (UpdateFileMode n) p"
  | f where "p' = put_last_hunk (UpdateFile path mv (touch_chunk f cs)) (UpdateFileMode n) p"
      "\<And>c. chunk_wf c \<Longrightarrow> chunk_wf (f c)"
proof (cases "is_context_marker (trim_end line)")
  case True
  then show thesis
    using assms that
    by (auto simp: process_update_body_def Let_def is_context_marker_def split: if_splits)
next
  case False
  then have "trim_end line \<noteq> EMPTY_CHANGE_CONTEXT_MARKER" "\<not> prefix CHANGE_CONTEXT_MARKER (trim_end line)"
    by (auto simp: is_context_marker_def)
  with False assms show thesis
    unfolding process_update_body_def Let_def
    by (simp split: if_splits list.splits)
       (auto intro: that)
qed

lemma process_update_body_inv:
  assumes inv: "parser_inv p" and last: "hunks (state p) = hs @ [UpdateFile path mv cs]"
    and res: "process_update_body p n path mv cs line = Inr p'"
  shows "parser_inv p'"
proof -
  have wf: "hunk_wf (UpdateFile path mv cs)" using inv last by (simp add: parser_inv_def)
  have put: "hunk_wf (UpdateFile path mv' cs') \<Longrightarrow>
      parser_inv (put_last_hunk (UpdateFile path mv' cs') (UpdateFileMode n) p)" for mv' cs'
    using put_last_hunk_inv[OF inv last] by simp
  from res show ?thesis
    using wf by (cases rule: process_update_body_cases)
      (auto intro!: put intro: inv touch_chunk_wf append_chunk_wf mark_eof_wf hunk_wf_move)
qed

subsection \<open>Every line keeps the invariant\<close>

lemma add_line_inv:
  assumes inv: "parser_inv p"
    and res: "(case (strip_prefix ''+'' line, last_opt (hunks (state p))) of
          (Some l, Some (AddFile path contents)) \<Rightarrow>
             Ok (put_last_hunk (AddFile path (contents @ l @ [newline])) AddFileMode p)
        | _ \<Rightarrow> Err e) = Inr q"
  shows "parser_inv q"
proof -
  from res obtain path contents l where last: "last_opt (hunks (state p)) = Some (AddFile path contents)"
    and q: "q = put_last_hunk (AddFile path (contents @ l @ [newline])) AddFileMode p"
    by (auto split: option.splits hunk.splits)
  from last obtain hs where "hunks (state p) = hs @ [AddFile path contents]"
    by (auto simp: last_opt_Some)
  from put_last_hunk_inv[OF inv this, of "AddFile path (contents @ l @ [newline])" AddFileMode]
  show ?thesis by (simp add: q)
qed

lemma update_line_inv:
  assumes inv: "parser_inv p"
    and res: "(case last_opt (hunks (state p)) of
           Some (UpdateFile path mv chunks) \<Rightarrow> process_update_body p n path mv chunks line
         | _ \<Rightarrow> Err e) = Inr q"
  shows "parser_inv q"
proof -
  from res obtain path mv cs where last: "last_opt (hunks (state p)) = Some (UpdateFile path mv cs)"
    and q: "process_update_body p n path mv cs line = Inr q"
    by (auto split: option.splits hunk.splits)
  from last obtain hs where "hunks (state p) = hs @ [UpdateFile path mv cs]"
    by (auto simp: last_opt_Some)
  then show ?thesis using process_update_body_inv[OF inv _ q] by blast
qed

lemma process_line_inv:
  assumes inv: "parser_inv p" and res: "process_line p line = Inr p'"
  shows "parser_inv p'"
proof (cases "mode (state p)")
  case NotStarted
  with assms show ?thesis
    by (auto simp: process_line_def Let_def parser_inv_def set_mode_def split: if_splits)
next
  case StartedPatch
  with res have "header_or p (trim line)
      (Err (InvalidHunkError (msg_invalid_header (trim line)) (line_number p))) = Inr p'"
    by (simp add: process_line_def Let_def)
  from header_or_inv[OF inv _ this] show ?thesis by (simp add: StartedPatch)
next
  case AddFileMode
  show ?thesis
    by (rule header_or_inv[OF inv _ res[unfolded process_line_def AddFileMode Let_def
            streaming_parser_mode.case]])
       (use AddFileMode in simp, rule add_line_inv[OF inv])
next
  case DeleteFileMode
  with res have "header_or p (trim line)
      (Err (InvalidHunkError (msg_invalid_header (trim line)) (line_number p))) = Inr p'"
    by (simp add: process_line_def Let_def)
  from header_or_inv[OF inv _ this] show ?thesis by (simp add: DeleteFileMode)
next
  case (UpdateFileMode n)
  show ?thesis
    by (rule header_or_inv[OF inv _ res[unfolded process_line_def UpdateFileMode Let_def
            streaming_parser_mode.case]])
       (use UpdateFileMode in simp, rule update_line_inv[OF inv])
next
  case EndedPatch
  with assms show ?thesis by (auto simp: process_line_def Let_def split: if_splits)
qed

lemma push_chars_inv: "parser_inv p \<Longrightarrow> push_chars p delta = (r, p') \<Longrightarrow> parser_inv p'"
proof (induction p delta rule: push_chars.induct)
  case (2 p ch delta)
  let ?p1 = "p\<lparr>line_buffer := [], line_number := line_number p + 1\<rparr>"
  have p1: "parser_inv ?p1" "parser_inv (p\<lparr>line_buffer := line_buffer p @ [ch]\<rparr>)"
    using 2 by (simp_all cong: parser_inv_cong add: parser_inv_def)
  show ?case
  proof (cases "ch = newline")
    case True
    show ?thesis
    proof (cases "process_line ?p1 (strip_cr (line_buffer p))")
      case (Inl e)
      with True "2.prems" p1 show ?thesis by (simp add: Let_def)
    next
      case (Inr q)
      with True "2.prems" have "push_chars q delta = (r, p')" by (simp add: Let_def)
      then show ?thesis
        using "2.IH"(1)[OF True refl refl Inr] process_line_inv[OF p1(1) Inr] by simp
    qed
  next
    case False
    with 2 p1 show ?thesis by simp
  qed
qed simp

lemma finish_inv:
  assumes inv: "parser_inv p" and fin: "finish p = Inr (hs, p')"
  shows "parser_inv p' \<and> mode (state p') = EndedPatch \<and> hs = hunks (state p')"
proof -
  let ?p1 = "p\<lparr>line_buffer := [], line_number := line_number p + 1\<rparr>"
  from fin have line: "finish_line p = Inr p'" and
    ended: "mode (state p') = EndedPatch" "hs = hunks (state p')"
    by (auto simp: finish_def bind_result_eq_Inr split: if_splits)
  have p1: "parser_inv ?p1" using inv by (simp add: parser_inv_def)
  have "p' = p \<or> process_line ?p1 (line_buffer p) = Inr p' \<or>
      (ensure_update_hunk_is_not_empty ?p1 (trim (line_buffer p)) = Inr () \<and>
       p' = set_mode EndedPatch ?p1)"
    using line by (simp add: finish_line_def Let_def bind_result_eq_Inr split: if_splits)
  then consider (nothing) "p' = p" | (line) "process_line ?p1 (line_buffer p) = Inr p'"
    | (ended) "ensure_update_hunk_is_not_empty ?p1 (trim (line_buffer p)) = Inr ()"
        "p' = set_mode EndedPatch ?p1"
    by blast
  then have "parser_inv p'"
  proof cases
    case nothing
    with inv show ?thesis by simp
  next
    case line
    with p1 show ?thesis by (rule process_line_inv)
  next
    case ended
    have "\<forall>h \<in> set (hunks (state p)). hunk_complete h"
      using ensure_complete[OF p1 ended(1)] inv by (cases "mode (state p)") (auto simp: parser_inv_def)
    with ended(2) inv show ?thesis by (simp add: parser_inv_def set_mode_def)
  qed
  with ended show ?thesis by simp
qed

lemma parsed_hunks_wf:
  assumes "parse_patch text = Inr args"
  shows "\<forall>h \<in> set (arg_hunks args). hunk_complete h \<and> hunk_wf h"
proof -
  from assms obtain ls where ls: "(case push_delta default_parser (join_with [newline] ls) of (r, p) \<Rightarrow>
      bind_result r (\<lambda>_. bind_result (finish p) (\<lambda>(hs, p').
        Ok \<lparr>patch = join_with [newline] ls, arg_hunks = hs, workdir = None,
            arg_environment_id = environment_id (state p')\<rparr>))) = Inr args"
    unfolding parse_patch_def parse_patch_text_def Let_def bind_result_eq_Inr by blast
  obtain r p where push: "push_delta default_parser (join_with [newline] ls) = (r, p)"
    by (cases "push_delta default_parser (join_with [newline] ls)")
  from ls push obtain hs p' where fin: "finish p = Inr (hs, p')" and args: "arg_hunks args = hs"
    by (auto simp: bind_result_eq_Inr)
  from push obtain u where "push_chars default_parser (join_with [newline] ls) = (u, p)"
    by (auto simp: push_delta_def split: prod.splits sum.splits)
  from push_chars_inv[OF parser_inv_default this] have "parser_inv p" .
  from finish_inv[OF this fin] args show ?thesis by (auto simp: parser_inv_def)
qed

lemma parsed_chunks_wf:
  "parse_patch text = Inr args \<Longrightarrow> UpdateFile path mv chunks \<in> set (arg_hunks args) \<Longrightarrow>
     \<forall>c \<in> set chunks. chunk_wf c"
  using parsed_hunks_wf by (fastforce simp: hunk_wf_def)

section \<open>Properties\<close>


text \<open>
  A successful parse hands only well-formed hunks to the code that applies them: every
  update hunk has at least one chunk, no chunk is empty, and the context indices of every chunk
  increase strictly on both sides, stay in range and point at equal lines.
\<close>

theorem parse_patch_hunks_wf:
  assumes "parse_patch text = Inr args"
  shows "\<forall>h \<in> set (arg_hunks args). hunk_complete h \<and> hunk_wf h"
  using assms by (rule parsed_hunks_wf)

text \<open>A concrete patch for the witness: one update with a context line, a removal and an addition.\<close>

definition sample_patch :: rust_str where
  "sample_patch = join_with [newline]
     [''*** Begin Patch'', ''*** Update File: a'', ''@@'', '' x'', ''-y'', ''+z'', ''*** End Patch'']"

definition sample_args :: apply_patch_args where
  "sample_args = \<lparr>patch = sample_patch,
     arg_hunks = [UpdateFile ''a'' None [\<lparr>change_context = None, old_lines = [''x'', ''y''],
        new_lines = [''x'', ''z''], context_line_indices = [(0, 0)], is_end_of_file = False\<rparr>]],
     workdir = None, arg_environment_id = None\<rparr>"

lemma parse_sample_patch: "parse_patch sample_patch = Inr sample_args"
  by code_simp

theorem parse_patch_hunks_wf_witness:
  "parse_patch sample_patch = Inr sample_args \<and>
   Ball (set (arg_hunks sample_args)) (\<lambda>h. hunk_complete h \<and> hunk_wf h) = True"
  using parse_patch_hunks_wf[OF parse_sample_patch] parse_sample_patch by simp

end
