(* ===== verification/Patch_Roundtrip.thy ===== *)
theory Patch_Roundtrip
  imports Patch_Parser_Props
begin

text \<open>
  Completeness of the patch parser for the grammar in the header of \<open>parser.rs\<close>: a patch
  written in that grammar (abstract syntax \<open>hunk_src\<close>, concrete syntax \<open>render_patch\<close>) is
  accepted and parsed into the hunks it denotes.
\<close>

section \<open>The patch grammar\<close>

datatype patch_line = Context rust_str | Added rust_str | Removed rust_str

record chunk_src =
  src_context :: "rust_str option"
  src_lines :: "patch_line list"
  src_eof :: bool

datatype hunk_src =
    AddSrc rust_str "rust_str list"
  | DeleteSrc rust_str
  | UpdateSrc rust_str "rust_str option" "chunk_src list"

fun render_line :: "patch_line \<Rightarrow> rust_str" where
  "render_line (Context s) = CHR '' '' # s"
| "render_line (Added s) = CHR ''+'' # s"
| "render_line (Removed s) = CHR ''-'' # s"

definition render_context :: "rust_str option \<Rightarrow> rust_str" where
  "render_context c = (case c of None \<Rightarrow> ''@@'' | Some t \<Rightarrow> ''@@ '' @ t)"

definition render_chunk :: "chunk_src \<Rightarrow> rust_str list" where
  "render_chunk c = render_context (src_context c) # map render_line (src_lines c) @
     (if src_eof c then [EOF_MARKER] else [])"

fun render_hunk :: "hunk_src \<Rightarrow> rust_str list" where
  "render_hunk (AddSrc path ls) = (ADD_FILE_MARKER @ path) # map ((#) (CHR ''+'')) ls"
| "render_hunk (DeleteSrc path) = [DELETE_FILE_MARKER @ path]"
| "render_hunk (UpdateSrc path mv cs) = (UPDATE_FILE_MARKER @ path) #
     (case mv of None \<Rightarrow> [] | Some d \<Rightarrow> [MOVE_TO_MARKER @ d]) @ concat (map render_chunk cs)"

definition render_env :: "rust_str option \<Rightarrow> rust_str list" where
  "render_env e = (case e of None \<Rightarrow> [] | Some i \<Rightarrow> [ENVIRONMENT_ID_MARKER @ '' '' @ i])"

definition patch_lines :: "rust_str option \<Rightarrow> hunk_src list \<Rightarrow> rust_str list" where
  "patch_lines env hs =
     BEGIN_PATCH_MARKER # render_env env @ concat (map render_hunk hs) @ [END_PATCH_MARKER]"

definition render_patch :: "rust_str option \<Rightarrow> hunk_src list \<Rightarrow> rust_str" where
  "render_patch env hs = join_with [newline] (patch_lines env hs)"

section \<open>What a patch denotes\<close>

fun add_line :: "update_file_chunk \<Rightarrow> patch_line \<Rightarrow> update_file_chunk" where
  "add_line c (Context s) = push_context_line s c"
| "add_line c (Added s) = c\<lparr>new_lines := new_lines c @ [s]\<rparr>"
| "add_line c (Removed s) = c\<lparr>old_lines := old_lines c @ [s]\<rparr>"

definition chunk_of :: "chunk_src \<Rightarrow> update_file_chunk" where
  "chunk_of c = (foldl add_line (default_chunk\<lparr>change_context := src_context c\<rparr>) (src_lines c))
                  \<lparr>is_end_of_file := src_eof c\<rparr>"

fun hunk_of :: "hunk_src \<Rightarrow> hunk" where
  "hunk_of (AddSrc path ls) = AddFile path (concat (map (\<lambda>l. l @ [newline]) ls))"
| "hunk_of (DeleteSrc path) = DeleteFile path"
| "hunk_of (UpdateSrc path mv cs) = UpdateFile path mv (map chunk_of cs)"

text \<open>Which abstract patches the grammar can write: one-line strings, trimmed names.\<close>

definition line_ok :: "rust_str \<Rightarrow> bool" where
  "line_ok s \<longleftrightarrow> newline \<notin> set s \<and> \<not> suffix [carriage_return] s \<and> utf8_closed s"

definition name_ok :: "rust_str \<Rightarrow> bool" where
  "name_ok s \<longleftrightarrow> line_ok s \<and> s \<noteq> [] \<and> trim_end s = s"

fun patch_line_text :: "patch_line \<Rightarrow> rust_str" where
  "patch_line_text (Context s) = s" | "patch_line_text (Added s) = s" | "patch_line_text (Removed s) = s"

definition chunk_src_ok :: "chunk_src \<Rightarrow> bool" where
  "chunk_src_ok c \<longleftrightarrow> pred_option name_ok (src_context c) \<and> src_lines c \<noteq> [] \<and>
     list_all (\<lambda>l. line_ok (patch_line_text l)) (src_lines c)"

fun hunk_src_ok :: "hunk_src \<Rightarrow> bool" where
  "hunk_src_ok (AddSrc path ls) \<longleftrightarrow> name_ok path \<and> list_all line_ok ls"
| "hunk_src_ok (DeleteSrc path) \<longleftrightarrow> name_ok path"
| "hunk_src_ok (UpdateSrc path mv cs) \<longleftrightarrow>
     name_ok path \<and> pred_option name_ok mv \<and> cs \<noteq> [] \<and> list_all chunk_src_ok cs"

definition env_ok :: "rust_str option \<Rightarrow> bool" where
  "env_ok e = pred_option (\<lambda>i. name_ok i \<and> trim i = i) e"

section \<open>Running the parser line by line\<close>

definition line_step ::
    "streaming_patch_parser \<Rightarrow> rust_str \<Rightarrow> (parse_error, streaming_patch_parser) result" where
  "line_step p line = process_line (p\<lparr>line_number := line_number p + 1\<rparr>) line"

fun run_lines ::
    "streaming_patch_parser \<Rightarrow> rust_str list \<Rightarrow> (parse_error, streaming_patch_parser) result" where
  "run_lines p [] = Ok p"
| "run_lines p (l # ls) = bind_result (line_step p l) (\<lambda>p'. run_lines p' ls)"

lemma run_lines_append:
  "run_lines p (xs @ ys) = bind_result (run_lines p xs) (\<lambda>p'. run_lines p' ys)"
proof (induction xs arbitrary: p)
  case (Cons x xs)
  then show ?case by (cases "line_step p x") simp_all
qed simp

lemma push_chars_buffer:
  "newline \<notin> set l \<Longrightarrow> push_chars p (l @ s) = push_chars (p\<lparr>line_buffer := line_buffer p @ l\<rparr>) s"
  by (induction l arbitrary: p) auto

lemma line_step_buffer:
  assumes "line_step p l = Inr p'" "line_buffer p = []"
  shows "line_buffer p' = []"
proof -
  have h: "handle_hunk_headers_and_end_patch q t = Inr (b, q') \<Longrightarrow> line_buffer q' = line_buffer q" for q t b q'
    by (erule handle_headers_cases) (simp_all add: set_mode_def push_hunk_def)
  have o: "header_or q t r = Inr q' \<Longrightarrow> (\<And>x. r = Inr x \<Longrightarrow> line_buffer x = line_buffer q) \<Longrightarrow>
      line_buffer q' = line_buffer q" for q t r q'
    unfolding header_or_def using h by (auto split: sum.splits prod.splits bool.splits)
  have u: "process_update_body q n path mv cs line = Inr q' \<Longrightarrow> line_buffer q' = line_buffer q"
    for q n path mv cs line q'
    by (erule process_update_body_cases) (simp_all add: put_last_hunk_def)
  show ?thesis
    using assms unfolding line_step_def process_line_def Let_def
    by (auto split: streaming_parser_mode.splits if_splits option.splits hunk.splits
        simp: set_mode_def put_last_hunk_def dest!: o u)
qed

lemma push_chars_lines:
  assumes "run_lines p ls = Inr p'" "line_buffer p = []" "newline \<notin> set l"
    and "\<forall>l \<in> set ls. newline \<notin> set l \<and> \<not> suffix [carriage_return] l"
  shows "push_chars p (join_with [newline] (ls @ [l])) = (Ok (), p'\<lparr>line_buffer := l\<rparr>)"
  using assms
proof (induction ls arbitrary: p)
  case Nil
  then show ?case using push_chars_buffer[of l p "[]"] by simp
next
  case (Cons x xs)
  from Cons.prems(1) obtain q where q: "line_step p x = Inr q" "run_lines q xs = Inr p'"
    by (auto simp: bind_result_eq_Inr)
  have step: "process_line (p\<lparr>line_number := line_number p + 1\<rparr>) x = Inr q"
    using q(1) by (simp add: line_step_def)
  have same: "p\<lparr>line_buffer := [], line_number := Suc (line_number p)\<rparr> =
              p\<lparr>line_number := Suc (line_number p)\<rparr>" using Cons.prems(2) by simp
  obtain y ys where ys: "xs @ [l] = y # ys" by (cases "xs @ [l]") auto
  have "push_chars p (join_with [newline] ((x # xs) @ [l])) =
        push_chars (p\<lparr>line_buffer := x\<rparr>) (newline # join_with [newline] (xs @ [l]))"
    using Cons.prems ys push_chars_buffer[of x p "newline # join_with [newline] (y # ys)"] by simp
  also have "\<dots> = push_chars q (join_with [newline] (xs @ [l]))"
    using step Cons.prems by (simp add: strip_cr_id Let_def same)
  also have "\<dots> = (Ok (), p'\<lparr>line_buffer := l\<rparr>)"
    using Cons.prems q line_step_buffer[OF q(1)] by (intro Cons.IH) simp_all
  finally show ?case .
qed

section \<open>Single lines\<close>

abbreviation pst ::
    "streaming_parser_mode \<Rightarrow> hunk list \<Rightarrow> rust_str option \<Rightarrow> nat \<Rightarrow> streaming_patch_parser" where
  "pst m hs e n \<equiv> \<lparr>line_buffer = [], state = \<lparr>mode = m, hunks = hs, environment_id = e\<rparr>, line_number = n\<rparr>"

fun body_mode :: "streaming_parser_mode \<Rightarrow> bool" where
  "body_mode NotStarted = False" | "body_mode EndedPatch = False" | "body_mode _ = True"

lemma ensure_ok:
  assumes "\<forall>h \<in> set hs. hunk_complete h"
  shows "ensure_update_hunk_is_not_empty (pst m hs e n) t = Inr ()"
proof (cases hs rule: rev_cases)
  case (snoc hs' h)
  with assms show ?thesis
    by (cases h) (auto simp: ensure_update_hunk_is_not_empty_def last_chunk_sat_def last_opt_def
        split: list.splits)
qed (simp add: ensure_update_hunk_is_not_empty_def)

lemma handle_no_header:
  assumes "t = [] \<or> hd t \<noteq> CHR ''*''"
  shows "handle_hunk_headers_and_end_patch p t = Inr (False, p)"
  using assms by (cases t)
    (auto simp: handle_hunk_headers_and_end_patch_def marker_defs strip_prefix_def)

lemma trim_end_hd: "trim_end (c # s) = [] \<or> hd (trim_end (c # s)) = c"
  using trim_end_prefix[of "c # s"] by (auto simp: prefix_Cons)

lemma trim_marker:
  assumes "ascii (CHR ''*'' # m)" "name_ok s"
  shows "trim_end (CHR ''*'' # m @ s) = CHR ''*'' # m @ s" "trim (CHR ''*'' # m @ s) = CHR ''*'' # m @ s"
proof -
  show end_eq: "trim_end (CHR ''*'' # m @ s) = CHR ''*'' # m @ s"
    using trim_end_append[OF utf8_closed_ascii[OF assms(1)], of s] assms(2)
    by (simp add: name_ok_def)
  show "trim (CHR ''*'' # m @ s) = CHR ''*'' # m @ s"
    by (simp add: trim_def end_eq trim_start_keep is_whitespace_def)
qed

lemma trim_file_markers:
  assumes "name_ok s"
  shows "trim_end (ADD_FILE_MARKER @ s) = ADD_FILE_MARKER @ s"
    "trim (ADD_FILE_MARKER @ s) = ADD_FILE_MARKER @ s"
    "trim_end (DELETE_FILE_MARKER @ s) = DELETE_FILE_MARKER @ s"
    "trim (DELETE_FILE_MARKER @ s) = DELETE_FILE_MARKER @ s"
    "trim_end (UPDATE_FILE_MARKER @ s) = UPDATE_FILE_MARKER @ s"
    "trim (UPDATE_FILE_MARKER @ s) = UPDATE_FILE_MARKER @ s"
    "trim_end (MOVE_TO_MARKER @ s) = MOVE_TO_MARKER @ s"
    "trim (ENVIRONMENT_ID_MARKER @ '' '' @ s) = ENVIRONMENT_ID_MARKER @ '' '' @ s"
  using trim_marker[OF _ assms, of "''** Add File: ''"] trim_marker[OF _ assms, of "''** Delete File: ''"]
    trim_marker[OF _ assms, of "''** Update File: ''"] trim_marker[OF _ assms, of "''** Move to: ''"]
    trim_marker[OF _ assms, of "''** Environment ID: ''"]
  by (simp_all add: marker_defs)

lemma trim_fixed_markers:
  "trim END_PATCH_MARKER = END_PATCH_MARKER" "trim_end END_PATCH_MARKER = END_PATCH_MARKER"
  "trim BEGIN_PATCH_MARKER = BEGIN_PATCH_MARKER" "trim_end EOF_MARKER = EOF_MARKER"
  "trim_end ''@@'' = ''@@''"
  by (simp_all add: marker_defs str_simps)

lemma handle_header:
  assumes complete: "\<forall>h \<in> set hs. hunk_complete h"
  shows "handle_hunk_headers_and_end_patch (pst m hs e n) (ADD_FILE_MARKER @ path) =
      Inr (True, pst AddFileMode (hs @ [AddFile path []]) e n)"
    "handle_hunk_headers_and_end_patch (pst m hs e n) (DELETE_FILE_MARKER @ path) =
      Inr (True, pst DeleteFileMode (hs @ [DeleteFile path]) e n)"
    "handle_hunk_headers_and_end_patch (pst m hs e n) (UPDATE_FILE_MARKER @ path) =
      Inr (True, pst (UpdateFileMode n) (hs @ [UpdateFile path None []]) e n)"
  using ensure_ok[OF complete]
  by (simp_all add: handle_hunk_headers_and_end_patch_def push_hunk_def strip_prefix_def marker_defs)

lemma header_line:
  assumes "\<forall>h \<in> set hs. hunk_complete h" "body_mode m" "name_ok path"
  shows "line_step (pst m hs e n) (ADD_FILE_MARKER @ path) =
      Inr (pst AddFileMode (hs @ [AddFile path []]) e (Suc n))"
    "line_step (pst m hs e n) (DELETE_FILE_MARKER @ path) =
      Inr (pst DeleteFileMode (hs @ [DeleteFile path]) e (Suc n))"
    "line_step (pst m hs e n) (UPDATE_FILE_MARKER @ path) =
      Inr (pst (UpdateFileMode (Suc n)) (hs @ [UpdateFile path None []]) e (Suc n))"
  using assms(2) handle_header[OF assms(1)] trim_file_markers[OF assms(3)]
  by (cases m; simp add: line_step_def process_line_def Let_def header_or_def)+

lemma add_line_step:
  "line_step (pst AddFileMode (hs @ [AddFile path c]) e n) (CHR ''+'' # l) =
     Inr (pst AddFileMode (hs @ [AddFile path (c @ l @ [newline])]) e (Suc n))"
proof -
  have "trim (CHR ''+'' # l) = trim_end (CHR ''+'' # l)"
    by (simp add: trim_def trim_start_keep is_whitespace_def)
  then have "handle_hunk_headers_and_end_patch p (trim (CHR ''+'' # l)) = Inr (False, p)" for p
    using trim_end_hd[of "CHR ''+''" l] by (intro handle_no_header) auto
  then show ?thesis
    by (simp add: line_step_def process_line_def Let_def header_or_def strip_prefix_def put_last_hunk_def)
qed

lemma update_step_unfold:
  assumes "handle_hunk_headers_and_end_patch (pst (UpdateFileMode k) (hs @ [UpdateFile path mv cs]) e (Suc n))
      (trim_end line) = Inr (False, p')"
  shows "line_step (pst (UpdateFileMode k) (hs @ [UpdateFile path mv cs]) e n) line =
     process_update_body (pst (UpdateFileMode k) (hs @ [UpdateFile path mv cs]) e (Suc n)) k path mv cs line"
  using assms by (simp add: line_step_def process_line_def Let_def header_or_def)

lemma move_step:
  assumes "name_ok d"
  shows "line_step (pst (UpdateFileMode k) (hs @ [UpdateFile path None []]) e n) (MOVE_TO_MARKER @ d) =
     Inr (pst (UpdateFileMode k) (hs @ [UpdateFile path (Some d) []]) e (Suc n))"
proof -
  let ?p = "pst (UpdateFileMode k) (hs @ [UpdateFile path None []]) e (Suc n)"
  have te: "trim_end (MOVE_TO_MARKER @ d) = MOVE_TO_MARKER @ d" using trim_file_markers[OF assms] by simp
  have "handle_hunk_headers_and_end_patch ?p (MOVE_TO_MARKER @ d) = Inr (False, ?p)"
    by (simp add: handle_hunk_headers_and_end_patch_def strip_prefix_def marker_defs)
  then have "handle_hunk_headers_and_end_patch ?p (trim_end (MOVE_TO_MARKER @ d)) = Inr (False, ?p)"
    by (simp only: te)
  from update_step_unfold[OF this] show ?thesis
    by (simp add: process_update_body_def Let_def te put_last_hunk_def map_last_def)
qed

lemma context_step:
  assumes "pred_option name_ok c" "\<not> last_chunk_sat chunk_is_empty cs"
  shows "line_step (pst (UpdateFileMode k) (hs @ [UpdateFile path mv cs]) e n) (render_context c) =
     Inr (pst (UpdateFileMode k)
       (hs @ [UpdateFile path mv (cs @ [default_chunk\<lparr>change_context := c\<rparr>])]) e (Suc n))"
proof -
  let ?p = "pst (UpdateFileMode k) (hs @ [UpdateFile path mv cs]) e (Suc n)"
  have te: "trim_end (render_context c) = render_context c"
    using assms(1) trim_end_append[OF utf8_closed_ascii, of "''@@ ''"] trim_fixed_markers
    by (cases c) (auto simp: render_context_def name_ok_def)
  have hd: "hd (render_context c) = CHR ''@''" by (cases c) (simp_all add: render_context_def)
  from te hd have "handle_hunk_headers_and_end_patch ?p (trim_end (render_context c)) = Inr (False, ?p)"
    by (intro handle_no_header) simp
  note step = update_step_unfold[OF this]
  have ctx: "is_context_marker (render_context c)" "render_context c \<noteq> []"
      "\<not> prefix MOVE_TO_MARKER (render_context c)"
    by (cases c; simp add: is_context_marker_def render_context_def marker_defs)+
  show ?thesis
    unfolding step process_update_body_def te Let_def using assms(2) ctx
    by (cases c) (simp_all add: put_last_hunk_def render_context_def marker_defs default_chunk_def)
qed

lemma body_line_step:
  assumes "\<not> is_end_of_file c"
  shows "line_step (pst (UpdateFileMode k) (hs @ [UpdateFile path mv (cs @ [c])]) e n) (render_line l) =
     Inr (pst (UpdateFileMode k) (hs @ [UpdateFile path mv (cs @ [add_line c l])]) e (Suc n))"
proof -
  let ?p = "pst (UpdateFileMode k) (hs @ [UpdateFile path mv (cs @ [c])]) e (Suc n)"
  obtain x s where xs: "render_line l = x # s" "x \<in> {CHR '' '', CHR ''+'', CHR ''-''}"
    by (cases l) auto
  then have u: "trim_end (render_line l) = [] \<or> hd (trim_end (render_line l)) \<in> {CHR '' '', CHR ''+'', CHR ''-''}"
    using trim_end_hd[of x s] by auto
  then have "handle_hunk_headers_and_end_patch ?p (trim_end (render_line l)) = Inr (False, ?p)"
    by (intro handle_no_header) auto
  from update_step_unfold[OF this] have "line_step (pst (UpdateFileMode k) (hs @ [UpdateFile path mv (cs @ [c])]) e n) (render_line l)
     = process_update_body ?p k path mv (cs @ [c]) (render_line l)" by simp
  moreover have "\<not> is_context_marker (trim_end (render_line l))" "trim_end (render_line l) \<noteq> EOF_MARKER"
    "trim_end (render_line l) \<noteq> EMPTY_CHANGE_CONTEXT_MARKER"
    "\<not> prefix CHANGE_CONTEXT_MARKER (trim_end (render_line l))"
    using u by (cases "trim_end (render_line l)"; auto simp: is_context_marker_def marker_defs)+
  ultimately show ?thesis
    using assms by (cases l)
      (simp_all add: process_update_body_def Let_def put_last_hunk_def touch_chunk_def)
qed

lemma eof_step:
  assumes "\<not> is_end_of_file c" "\<not> chunk_is_empty c"
  shows "line_step (pst (UpdateFileMode k) (hs @ [UpdateFile path mv (cs @ [c])]) e n) EOF_MARKER =
     Inr (pst (UpdateFileMode k)
       (hs @ [UpdateFile path mv (cs @ [c\<lparr>is_end_of_file := True\<rparr>])]) e (Suc n))"
proof -
  let ?p = "pst (UpdateFileMode k) (hs @ [UpdateFile path mv (cs @ [c])]) e (Suc n)"
  have "handle_hunk_headers_and_end_patch ?p EOF_MARKER = Inr (False, ?p)"
    by (simp add: handle_hunk_headers_and_end_patch_def strip_prefix_def marker_defs)
  then have "handle_hunk_headers_and_end_patch ?p (trim_end EOF_MARKER) = Inr (False, ?p)"
    by (simp only: trim_fixed_markers)
  note step = update_step_unfold[OF this]
  have eof: "\<not> is_context_marker EOF_MARKER" "EOF_MARKER \<noteq> EMPTY_CHANGE_CONTEXT_MARKER"
      "\<not> prefix CHANGE_CONTEXT_MARKER EOF_MARKER"
    by (simp_all add: is_context_marker_def marker_defs)
  show ?thesis
    unfolding step process_update_body_def trim_fixed_markers Let_def using assms eof
    by (auto simp: put_last_hunk_def)
qed

section \<open>Chunks, hunks and patches\<close>

lemma add_line_frame [simp]:
  "is_end_of_file (add_line c l) = is_end_of_file c"
  "change_context (add_line c l) = change_context c"
  "\<not> chunk_is_empty (add_line c l)"
  by (cases l; simp add: push_context_line_def)+

lemma foldl_add_line_eof [simp]: "is_end_of_file (foldl add_line c ls) = is_end_of_file c"
  by (induction ls arbitrary: c) simp_all

lemma foldl_add_line_nonempty: "ls \<noteq> [] \<Longrightarrow> \<not> chunk_is_empty (foldl add_line c ls)"
proof (induction ls rule: rev_induct)
  case (snoc l ls)
  show ?case using add_line_frame(3)[of "foldl add_line c ls" l] by simp
qed simp

lemma chunk_of_nonempty: "chunk_src_ok c \<Longrightarrow> \<not> chunk_is_empty (chunk_of c)"
  using foldl_add_line_nonempty by (auto simp: chunk_of_def chunk_src_ok_def)

lemma run_body_lines:
  assumes "\<not> is_end_of_file c"
  shows "run_lines (pst (UpdateFileMode k) (hs @ [UpdateFile path mv (cs @ [c])]) e n)
      (map render_line ls) =
    Inr (pst (UpdateFileMode k) (hs @ [UpdateFile path mv (cs @ [foldl add_line c ls])]) e (n + length ls))"
  using assms by (induction ls arbitrary: c n) (simp_all add: body_line_step)

lemma run_chunk:
  assumes ok: "chunk_src_ok c" and last: "\<not> last_chunk_sat chunk_is_empty cs"
  shows "\<exists>n'. run_lines (pst (UpdateFileMode k) (hs @ [UpdateFile path mv cs]) e n) (render_chunk c) =
    Inr (pst (UpdateFileMode k) (hs @ [UpdateFile path mv (cs @ [chunk_of c])]) e n')"
proof -
  let ?c0 = "default_chunk\<lparr>change_context := src_context c\<rparr>"
  let ?c1 = "foldl add_line ?c0 (src_lines c)"
  have ctx: "pred_option name_ok (src_context c)" and ne: "src_lines c \<noteq> []"
    using ok by (simp_all add: chunk_src_ok_def)
  have c0: "\<not> is_end_of_file ?c0" by (simp add: default_chunk_def)
  have c1: "\<not> is_end_of_file ?c1" using c0 by simp
  have flag: "?c1\<lparr>is_end_of_file := False\<rparr> = ?c1" using c1 by (cases ?c1) simp
  show ?thesis
    unfolding render_chunk_def chunk_of_def
    using eof_step[OF c1 foldl_add_line_nonempty[OF ne], of k hs path mv cs e] flag
    by (cases "src_eof c")
       (simp_all add: context_step[OF ctx last] run_lines_append run_body_lines[OF c0])
qed

lemma run_chunks:
  assumes "list_all chunk_src_ok ds" "\<not> last_chunk_sat chunk_is_empty cs"
  shows "\<exists>n'. run_lines (pst (UpdateFileMode k) (hs @ [UpdateFile path mv cs]) e n)
        (concat (map render_chunk ds)) =
      Inr (pst (UpdateFileMode k) (hs @ [UpdateFile path mv (cs @ map chunk_of ds)]) e n')"
  using assms
proof (induction ds arbitrary: cs n)
  case (Cons d ds)
  from Cons.prems obtain n1 where n1: "run_lines (pst (UpdateFileMode k) (hs @ [UpdateFile path mv cs]) e n)
      (render_chunk d) = Inr (pst (UpdateFileMode k) (hs @ [UpdateFile path mv (cs @ [chunk_of d])]) e n1)"
    using run_chunk[of d cs] by fastforce
  have "\<not> last_chunk_sat chunk_is_empty (cs @ [chunk_of d])"
    using chunk_of_nonempty[of d] Cons.prems(1) by simp
  from Cons.IH[OF _ this, of n1] Cons.prems(1) n1 show ?case
    by (auto simp: run_lines_append)
qed auto

lemma run_add_lines:
  "run_lines (pst AddFileMode (hs @ [AddFile path c]) e n) (map ((#) (CHR ''+'')) ls) =
     Inr (pst AddFileMode (hs @ [AddFile path (c @ concat (map (\<lambda>l. l @ [newline]) ls))]) e (n + length ls))"
  by (induction ls arbitrary: c n) (simp_all add: add_line_step)

lemma hunk_of_complete: "hunk_src_ok h \<Longrightarrow> hunk_complete (hunk_of h)"
proof (cases h)
  case (UpdateSrc path mv cs)
  assume "hunk_src_ok h"
  with UpdateSrc show ?thesis using chunk_of_nonempty by (fastforce simp: list_all_iff)
qed simp_all

lemma run_hunk:
  assumes ok: "hunk_src_ok h" and complete: "\<forall>h \<in> set hs. hunk_complete h" and m: "body_mode m"
  shows "\<exists>n' m'. body_mode m' \<and> run_lines (pst m hs e n) (render_hunk h) =
    Inr (pst m' (hs @ [hunk_of h]) e n')"
proof (cases h)
  case (AddSrc path ls)
  with ok have "name_ok path" by simp
  from header_line(1)[OF complete m this, of e n] run_add_lines[of hs path "[]" e "Suc n" ls] AddSrc
  show ?thesis by (intro exI[of _ "Suc n + length ls"] exI[of _ AddFileMode]) simp
next
  case (DeleteSrc path)
  with ok have "name_ok path" by simp
  from header_line(2)[OF complete m this, of e n] DeleteSrc show ?thesis
    by (intro exI[of _ "Suc n"] exI[of _ DeleteFileMode]) simp
next
  case (UpdateSrc path mv cs)
  with ok have path: "name_ok path" and mv: "pred_option name_ok mv" and cs: "list_all chunk_src_ok cs"
    by simp_all
  have "\<exists>n1. run_lines (pst (UpdateFileMode (Suc n)) (hs @ [UpdateFile path None []]) e (Suc n))
      (case mv of None \<Rightarrow> [] | Some d \<Rightarrow> [MOVE_TO_MARKER @ d]) =
      Inr (pst (UpdateFileMode (Suc n)) (hs @ [UpdateFile path mv []]) e n1)"
    using mv by (cases mv) (auto simp: move_step)
  then obtain n1 where n1: "run_lines (pst (UpdateFileMode (Suc n)) (hs @ [UpdateFile path None []]) e (Suc n))
      (case mv of None \<Rightarrow> [] | Some d \<Rightarrow> [MOVE_TO_MARKER @ d]) =
      Inr (pst (UpdateFileMode (Suc n)) (hs @ [UpdateFile path mv []]) e n1)" ..
  obtain n2 where n2: "run_lines (pst (UpdateFileMode (Suc n)) (hs @ [UpdateFile path mv []]) e n1)
        (concat (map render_chunk cs)) =
      Inr (pst (UpdateFileMode (Suc n)) (hs @ [UpdateFile path mv (map chunk_of cs)]) e n2)"
    using run_chunks[OF cs, of "[]" "Suc n" hs path mv e n1] by auto
  show ?thesis
    using UpdateSrc header_line(3)[OF complete m path, of e n] n1 n2
    by (intro exI[of _ n2] exI[of _ "UpdateFileMode (Suc n)"]) (simp add: run_lines_append)
qed

lemma run_hunks:
  assumes "list_all hunk_src_ok gs" "\<forall>h \<in> set hs. hunk_complete h" "body_mode m"
  shows "\<exists>n' m'. body_mode m' \<and> run_lines (pst m hs e n) (concat (map render_hunk gs)) =
    Inr (pst m' (hs @ map hunk_of gs) e n')"
  using assms
proof (induction gs arbitrary: hs m n)
  case Nil
  then show ?case by auto
next
  case (Cons g gs)
  then obtain n1 m1 where 1: "body_mode m1"
    "run_lines (pst m hs e n) (render_hunk g) = Inr (pst m1 (hs @ [hunk_of g]) e n1)"
    using run_hunk[of g hs m e n] by auto
  have "\<forall>h \<in> set (hs @ [hunk_of g]). hunk_complete h"
    using Cons.prems hunk_of_complete[of g] by auto
  from Cons.IH[OF _ this 1(1), of n1] Cons.prems(1) 1(2) show ?case
    by (auto simp: run_lines_append)
qed

lemma env_step:
  assumes "name_ok i" "trim i = i"
  shows "line_step (pst StartedPatch [] None n) (ENVIRONMENT_ID_MARKER @ '' '' @ i) =
     Inr (pst StartedPatch [] (Some i) (Suc n))"
proof -
  have "trim ('' '' @ i) = trim i"
    by (simp add: trim_def trim_start_def utf8_len_def is_whitespace_def)
  with assms trim_file_markers(8)[OF assms(1)] show ?thesis
    by (simp add: line_step_def process_line_def Let_def header_or_def name_ok_def
        handle_hunk_headers_and_end_patch_def)
qed

lemma run_patch:
  assumes "env_ok env" "list_all hunk_src_ok gs"
  shows "\<exists>n m. body_mode m \<and> run_lines default_parser
      (BEGIN_PATCH_MARKER # render_env env @ concat (map render_hunk gs)) =
    Inr (pst m (map hunk_of gs) env n)"
proof -
  have start: "line_step default_parser BEGIN_PATCH_MARKER = Inr (pst StartedPatch [] None 1)"
    by (simp add: line_step_def process_line_def Let_def default_parser_def trim_fixed_markers set_mode_def)
  have "\<exists>n. run_lines (pst StartedPatch [] None 1) (render_env env) = Inr (pst StartedPatch [] env n)"
  proof (cases env)
    case (Some i)
    with assms(1) env_step[of i 1] show ?thesis by (simp add: env_ok_def render_env_def)
  qed (simp add: render_env_def)
  then obtain n where n: "run_lines (pst StartedPatch [] None 1) (render_env env) = Inr (pst StartedPatch [] env n)" ..
  from run_hunks[OF assms(2), of "[]" StartedPatch env n] start n show ?thesis
    by (auto simp: run_lines_append)
qed

subsection \<open>The rendered text\<close>

lemma line_ok_append:
  assumes "ascii m" "newline \<notin> set m" "line_ok s" "s = [] \<longrightarrow> m = [] \<or> last m \<noteq> carriage_return"
  shows "line_ok (m @ s)"
  using assms by (auto simp: line_ok_def suffix_single utf8_closed_append utf8_closed_ascii last_append)

lemma line_ok_fixed: "line_ok ''@@''" "line_ok EOF_MARKER" "line_ok BEGIN_PATCH_MARKER" "line_ok END_PATCH_MARKER"
  by (simp_all add: line_ok_def suffix_single utf8_len_def marker_defs)

lemma name_line_ok: "name_ok s \<Longrightarrow> line_ok s"
  by (simp add: name_ok_def)

lemma render_line_ok: "line_ok (patch_line_text l) \<Longrightarrow> line_ok (render_line l)"
  using line_ok_append[of "'' ''"] line_ok_append[of "''+''"] line_ok_append[of "''-''"]
  by (cases l) simp_all

lemma marker_line_ok:
  assumes "name_ok s"
  shows "line_ok (ADD_FILE_MARKER @ s)" "line_ok (DELETE_FILE_MARKER @ s)" "line_ok (UPDATE_FILE_MARKER @ s)"
    "line_ok (MOVE_TO_MARKER @ s)" "line_ok (ENVIRONMENT_ID_MARKER @ '' '' @ s)" "line_ok (''@@ '' @ s)"
proof -
  have ok: "ascii m \<Longrightarrow> newline \<notin> set m \<Longrightarrow> line_ok (m @ s)" for m
    using line_ok_append[OF _ _ name_line_ok[OF assms], of m] assms by (simp add: name_ok_def)
  show "line_ok (ADD_FILE_MARKER @ s)" "line_ok (DELETE_FILE_MARKER @ s)"
    "line_ok (UPDATE_FILE_MARKER @ s)" "line_ok (MOVE_TO_MARKER @ s)" "line_ok (''@@ '' @ s)"
    by (rule ok; simp add: marker_defs)+
  show "line_ok (ENVIRONMENT_ID_MARKER @ '' '' @ s)"
    using ok[of "ENVIRONMENT_ID_MARKER @ '' ''"] by (simp add: marker_defs)
qed

lemma render_chunk_ok:
  assumes "chunk_src_ok c"
  shows "list_all line_ok (render_chunk c)"
  using assms marker_line_ok(6) render_line_ok line_ok_fixed
  by (auto simp: render_chunk_def render_context_def chunk_src_ok_def list_all_iff split: option.splits)

lemma render_hunk_ok:
  assumes "hunk_src_ok h"
  shows "list_all line_ok (render_hunk h)"
proof (cases h)
  case (AddSrc path ls)
  with assms marker_line_ok(1) line_ok_append[of "''+''"] show ?thesis by (auto simp: list_all_iff)
next
  case (DeleteSrc path)
  with assms marker_line_ok show ?thesis by simp
next
  case (UpdateSrc path mv cs)
  with assms marker_line_ok render_chunk_ok show ?thesis
    by (cases mv) (auto simp: list_all_iff)
qed

lemma patch_lines_ok:
  assumes "env_ok env" "list_all hunk_src_ok hs"
  shows "\<forall>l \<in> set (patch_lines env hs). line_ok l"
  using assms render_hunk_ok marker_line_ok(5) line_ok_fixed
  by (auto simp: patch_lines_def list_all_iff render_env_def env_ok_def split: option.splits)

lemma join_closed: "\<forall>l \<in> set ls. line_ok l \<Longrightarrow> utf8_closed (join_with [newline] ls)"
proof (induction "[newline]" ls rule: join_with.induct)
  case (3 x y ys)
  then show ?case
    using utf8_closed_append[of "x @ [newline]"] utf8_closed_append[of x "[newline]"]
    by (simp add: line_ok_def utf8_len_def)
qed (simp_all add: line_ok_def)

lemma join_snoc: "ls \<noteq> [] \<Longrightarrow> join_with [d] (ls @ [l]) = join_with [d] ls @ d # l"
proof (induction "[d]" ls rule: join_with.induct)
  case (3 x y ys)
  then show ?case by simp
qed simp_all

lemma trim_render_patch:
  assumes "env_ok env" "list_all hunk_src_ok hs"
  shows "trim (render_patch env hs) = render_patch env hs"
proof -
  let ?ls = "BEGIN_PATCH_MARKER # render_env env @ concat (map render_hunk hs)"
  have ok: "\<forall>l \<in> set ?ls. line_ok l" using patch_lines_ok[OF assms] by (auto simp: patch_lines_def)
  have eq: "render_patch env hs = (join_with [newline] ?ls @ [newline]) @ END_PATCH_MARKER"
    using join_snoc[of ?ls newline END_PATCH_MARKER] by (simp add: render_patch_def patch_lines_def)
  have closed: "utf8_closed (join_with [newline] ?ls @ [newline])"
    using join_closed[OF ok] by (intro utf8_closed_append) (simp_all add: utf8_len_def)
  have "trim_end (render_patch env hs) = render_patch env hs"
    unfolding eq using trim_end_append[OF closed trim_fixed_markers(2)] by (simp add: marker_defs)
  moreover obtain t where "render_patch env hs = CHR ''*'' # t"
    unfolding render_patch_def patch_lines_def
    by (cases "render_env env @ concat (map render_hunk hs) @ [END_PATCH_MARKER]")
       (auto simp: marker_defs)
  ultimately show ?thesis by (simp add: trim_def trim_start_keep is_whitespace_def)
qed

lemma boundaries_ok:
  "check_patch_boundaries_lenient (patch_lines env hs) = Inr (patch_lines env hs)"
  by (simp add: check_patch_boundaries_lenient_def check_patch_boundaries_strict_def
      check_start_and_end_lines_strict_def patch_lines_def trim_fixed_markers)

lemma finish_patch:
  assumes "\<forall>h \<in> set hs. hunk_complete h"
  shows "finish \<lparr>line_buffer = END_PATCH_MARKER,
      state = \<lparr>mode = m, hunks = hs, environment_id = e\<rparr>, line_number = n\<rparr> =
    Inr (hs, pst EndedPatch hs e (Suc n))"
proof -
  have "END_PATCH_MARKER \<noteq> []" by (simp add: marker_defs)
  then show ?thesis
    using ensure_ok[OF assms]
    by (simp add: finish_def finish_line_def Let_def trim_fixed_markers set_mode_def)
qed

section \<open>Properties\<close>


definition sample_sources :: "hunk_src list" where
  "sample_sources =
     [AddSrc ''b c.txt'' [''hello'', ''''],
      UpdateSrc ''a'' (Some ''d'')
        [\<lparr>src_context = Some ''fn f()'', src_lines = [Context ''x'', Removed ''y'', Added ''z''],
          src_eof = True\<rparr>],
      DeleteSrc ''e'']"


end
