(* ===== verification/Seek_Sequence.thy ===== *)
theory Seek_Sequence
  imports Patch_Parser
begin

text \<open>
  \<open>apply-patch/src/seek_sequence.rs\<close>: locating the lines of a chunk in a file with
  decreasing strictness, and the update mode of \<open>apply-patch/src/lib.rs\<close> it depends on.
\<close>

datatype update_file_mode = NormalizeToLf | PreserveLineEndings

section \<open>Definitions\<close>

text \<open>
  The character map of \<open>normalise\<close> on encoded characters: dashes, single and double quotes and
  the odd spaces become their ASCII counterparts.
\<close>

definition normalise_char :: "rust_str \<Rightarrow> rust_str" where
  "normalise_char u =
     (case u of
        [a, b] \<Rightarrow> if byte_of a = 194 \<and> byte_of b = 160 then '' '' else u
      | [a, b, c] \<Rightarrow>
          if byte_of a = 226 \<and> byte_of b = 128 \<and> 144 \<le> byte_of c \<and> byte_of c \<le> 149 then ''-''
          else if byte_of a = 226 \<and> byte_of b = 136 \<and> byte_of c = 146 then ''-''
          else if byte_of a = 226 \<and> byte_of b = 128 \<and> 152 \<le> byte_of c \<and> byte_of c \<le> 155
          then [CHR 39]
          else if byte_of a = 226 \<and> byte_of b = 128 \<and> 156 \<le> byte_of c \<and> byte_of c \<le> 159
          then [CHR 34]
          else if byte_of a = 226 \<and> byte_of b = 128 \<and> 130 \<le> byte_of c \<and> byte_of c \<le> 138 then '' ''
          else if byte_of a = 226 \<and> byte_of b = 128 \<and> byte_of c = 175 then '' ''
          else if byte_of a = 226 \<and> byte_of b = 129 \<and> byte_of c = 159 then '' ''
          else if byte_of a = 227 \<and> byte_of b = 128 \<and> byte_of c = 128 then '' ''
          else u
      | _ \<Rightarrow> u)"

definition normalise :: "rust_str \<Rightarrow> rust_str" where
  "normalise s = concat (map normalise_char (utf8_chars (trim s)))"

text \<open>One comparison of a search pass: the lines at \<open>i\<close> agree with the pattern under \<open>f\<close>.\<close>

definition matches_at ::
    "(rust_str \<Rightarrow> rust_str) \<Rightarrow> rust_str list \<Rightarrow> rust_str list \<Rightarrow> nat \<Rightarrow> bool" where
  "matches_at f lines pattern i \<longleftrightarrow>
     map f (take (length pattern) (drop i lines)) = map f pattern"

definition search_start :: "rust_str list \<Rightarrow> rust_str list \<Rightarrow> nat \<Rightarrow> bool \<Rightarrow> update_file_mode \<Rightarrow> nat" where
  "search_start lines pattern start eof update_mode =
     (if eof \<and> length lines \<ge> length pattern
      then let eof_start = length lines - length pattern
           in (case update_mode of NormalizeToLf \<Rightarrow> eof_start
                                 | PreserveLineEndings \<Rightarrow> max eof_start start)
      else start)"

definition search_pass ::
    "(rust_str \<Rightarrow> rust_str) \<Rightarrow> rust_str list \<Rightarrow> rust_str list \<Rightarrow> nat \<Rightarrow> nat option" where
  "search_pass f lines pattern from =
     List.find (matches_at f lines pattern) [from ..< Suc (length lines - length pattern)]"

definition seek_sequence ::
    "rust_str list \<Rightarrow> rust_str list \<Rightarrow> nat \<Rightarrow> bool \<Rightarrow> update_file_mode \<Rightarrow> nat option" where
  "seek_sequence lines pattern start eof update_mode =
     (if pattern = [] then Some start
      else if length pattern > length lines then None
      else let from = search_start lines pattern start eof update_mode
           in case search_pass id lines pattern from of
                Some i \<Rightarrow> Some i
              | None \<Rightarrow>
           (case search_pass trim_end lines pattern from of
                Some i \<Rightarrow> Some i
              | None \<Rightarrow>
           (case search_pass trim lines pattern from of
                Some i \<Rightarrow> Some i
              | None \<Rightarrow> search_pass normalise lines pattern from)))"

section \<open>The passes weaken each other\<close>

lemma map_eq_weaken:
  assumes eq: "map f xs = map f ys" and weaken: "\<And>a b. f a = f b \<Longrightarrow> g a = g b"
  shows "map g xs = map g ys"
proof -
  have "length xs = length ys" using eq by (rule map_eq_imp_length_eq)
  then show ?thesis using eq
  proof (induction xs ys rule: list_induct2)
    case (Cons x xs y ys)
    then have "f x = f y" "map g xs = map g ys" by simp_all
    with weaken[of x y] show ?case by (simp only: list.map)
  qed simp
qed

lemma matches_at_passes:
  "matches_at id lines pattern i \<Longrightarrow> matches_at trim_end lines pattern i"
  "matches_at trim_end lines pattern i \<Longrightarrow> matches_at trim lines pattern i"
  "matches_at trim lines pattern i \<Longrightarrow> matches_at normalise lines pattern i"
  unfolding matches_at_def
  by (erule map_eq_weaken, simp add: trim_swap normalise_def)+

section \<open>What a hit means\<close>

lemma find_upt_Some:
  "List.find P [a ..< b] = Some i \<longleftrightarrow> a \<le> i \<and> i < b \<and> P i \<and> (\<forall>j. a \<le> j \<and> j < i \<longrightarrow> \<not> P j)"
proof
  assume "List.find P [a ..< b] = Some i"
  then obtain k where "k < b - a" "P (a + k)" "i = a + k" "\<forall>j<k. \<not> P (a + j)"
    by (auto simp: find_Some_iff)
  then show "a \<le> i \<and> i < b \<and> P i \<and> (\<forall>j. a \<le> j \<and> j < i \<longrightarrow> \<not> P j)"
    by (auto, metis add_diff_inverse_nat diff_add_inverse leD less_diff_conv add.commute le_iff_add nat_add_left_cancel_less)
next
  assume r: "a \<le> i \<and> i < b \<and> P i \<and> (\<forall>j. a \<le> j \<and> j < i \<longrightarrow> \<not> P j)"
  then show "List.find P [a ..< b] = Some i"
    by (auto simp: find_Some_iff intro!: exI[of _ "i - a"])
qed

lemma find_upt_None: "List.find P [a ..< b] = None \<longleftrightarrow> (\<forall>i. a \<le> i \<and> i < b \<longrightarrow> \<not> P i)"
  by (auto simp: find_None_iff)

lemma search_pass_Some:
  assumes "length pattern \<le> length lines"
  shows "search_pass f lines pattern from = Some i \<longleftrightarrow>
     from \<le> i \<and> i + length pattern \<le> length lines \<and> matches_at f lines pattern i \<and>
     (\<forall>j. from \<le> j \<and> j < i \<longrightarrow> \<not> matches_at f lines pattern j)"
  unfolding search_pass_def find_upt_Some using assms by auto

lemma search_pass_None:
  assumes "length pattern \<le> length lines"
  shows "search_pass f lines pattern from = None \<longleftrightarrow>
     (\<forall>i. from \<le> i \<and> i + length pattern \<le> length lines \<longrightarrow> \<not> matches_at f lines pattern i)"
  unfolding search_pass_def find_upt_None using assms by auto

lemma seek_sequence_cases:
  assumes "seek_sequence lines pattern start eof m = Some i" "pattern \<noteq> []"
  obtains f where "f \<in> {id, trim_end, trim, normalise}" "length pattern \<le> length lines"
    "search_pass f lines pattern (search_start lines pattern start eof m) = Some i"
  using assms by (auto simp: seek_sequence_def Let_def split: if_splits option.splits)

lemma seek_sequence_bounds:
  assumes "seek_sequence lines pattern start eof m = Some i" "pattern \<noteq> []"
  shows "search_start lines pattern start eof m \<le> i" "i + length pattern \<le> length lines"
  using seek_sequence_cases[OF assms] by (metis search_pass_Some)+

lemma seek_sequence_normalised:
  assumes "seek_sequence lines pattern start eof m = Some i" "pattern \<noteq> []"
  shows "matches_at normalise lines pattern i"
proof -
  from seek_sequence_cases[OF assms] obtain f where f: "f \<in> {id, trim_end, trim, normalise}"
    "matches_at f lines pattern i" by (metis search_pass_Some)
  then show ?thesis by (auto intro: matches_at_passes)
qed

text \<open>In the mode that preserves line endings the search never moves backwards.\<close>

lemma seek_preserve_forward:
  assumes "seek_sequence lines pattern start eof PreserveLineEndings = Some i"
  shows "start \<le> i"
proof (cases "pattern = []")
  case True
  with assms show ?thesis by (simp add: seek_sequence_def)
next
  case False
  from seek_sequence_bounds(1)[OF assms False] show ?thesis
    by (auto simp: search_start_def Let_def split: if_splits)
qed

lemma seek_preserve_bound:
  assumes "seek_sequence lines pattern start eof m = Some i" "start \<le> length lines"
  shows "i + length pattern \<le> length lines"
proof (cases "pattern = []")
  case True
  with assms show ?thesis by (simp add: seek_sequence_def)
next
  case False
  from seek_sequence_bounds(2)[OF assms(1) False] show ?thesis .
qed

section \<open>Properties\<close>

definition in_range :: "rust_str list \<Rightarrow> rust_str list \<Rightarrow> nat \<Rightarrow> bool \<Rightarrow> update_file_mode \<Rightarrow> nat \<Rightarrow> bool" where
  "in_range lines pattern start eof m i \<longleftrightarrow>
     search_start lines pattern start eof m \<le> i \<and> i + length pattern \<le> length lines"



end
