(* ===== verification/Text_File.thy ===== *)
theory Text_File
  imports Prelude
begin

text \<open>
  \<open>apply-patch/src/text_file.rs\<close>: a file as logical lines that keep their endings. The byte
  cursor of \<open>SourceFile::parse\<close> is a recursion over the remaining bytes with the current
  line's text as accumulator. \<open>apply_replacements\<close> subtracts indices; a replacement that
  starts before the previous one ends violates its \<open>debug_assert!\<close>, which the model returns as
  \<open>None\<close>.
\<close>

section \<open>Definitions\<close>

type_synonym replacement = "nat \<times> nat \<times> rust_str list"  \<comment> \<open>start index, old length, new lines\<close>

datatype line_ending = Lf | CrLf | Cr

fun as_str :: "line_ending \<Rightarrow> rust_str" where
  "as_str Lf = [newline]"
| "as_str CrLf = [carriage_return, newline]"
| "as_str Cr = [carriage_return]"

record source_line =
  line_text :: rust_str
  ending :: "line_ending option"

record source_file =
  lines :: "source_line list"
  preferred_ending :: line_ending

abbreviation mk_line :: "rust_str \<Rightarrow> line_ending option \<Rightarrow> source_line" where
  "mk_line t e \<equiv> \<lparr>line_text = t, ending = e\<rparr>"

fun parse_lines :: "rust_str \<Rightarrow> rust_str \<Rightarrow> source_line list" where
  "parse_lines cur [] = (if cur = [] then [] else [mk_line cur None])"
| "parse_lines cur (b # bs) =
     (if b = carriage_return
      then (case bs of
              c # cs \<Rightarrow> if c = newline then mk_line cur (Some CrLf) # parse_lines [] cs
                       else mk_line cur (Some Cr) # parse_lines [] bs
            | [] \<Rightarrow> mk_line cur (Some Cr) # parse_lines [] bs)
      else if b = newline then mk_line cur (Some Lf) # parse_lines [] bs
      else parse_lines (cur @ [b]) bs)"

definition first_ending :: "source_line list \<Rightarrow> line_ending option" where
  "first_ending ls = (case ls of [] \<Rightarrow> None | l # _ \<Rightarrow> ending l)"

definition parse_source :: "rust_str \<Rightarrow> source_file" where
  "parse_source contents =
     (let ls = parse_lines [] contents
      in \<lparr>lines = ls,
          preferred_ending = (case first_ending ls of Some e \<Rightarrow> e | None \<Rightarrow> Lf)\<rparr>)"

definition line_texts :: "source_file \<Rightarrow> rust_str list" where
  "line_texts f = map line_text (lines f)"

fun splice_lines ::
    "line_ending \<Rightarrow> source_line list \<Rightarrow> nat \<Rightarrow> replacement list \<Rightarrow> source_line list option" where
  "splice_lines pref source_lines source_index [] = Some source_lines"
| "splice_lines pref source_lines source_index ((start_idx, old_len, new_segment) # rs) =
     (if start_idx < source_index then None
      else let kept = take (start_idx - source_index) source_lines;
               rest = drop old_len (drop (start_idx - source_index) source_lines);
               added = map (\<lambda>t. mk_line t (Some pref)) new_segment
           in map_option (\<lambda>tail. kept @ added @ tail)
                (splice_lines pref rest (start_idx + old_len) rs))"

definition fill_ending :: "line_ending \<Rightarrow> source_line \<Rightarrow> source_line" where
  "fill_ending pref l = (case ending l of None \<Rightarrow> l\<lparr>ending := Some pref\<rparr> | Some _ \<Rightarrow> l)"

definition apply_source_replacements :: "source_file \<Rightarrow> replacement list \<Rightarrow> source_file option" where
  "apply_source_replacements f rs =
     map_option (\<lambda>ls. f\<lparr>lines := map (fill_ending (preferred_ending f)) ls\<rparr>)
       (splice_lines (preferred_ending f) (lines f) 0 rs)"

definition into_contents :: "source_file \<Rightarrow> rust_str" where
  "into_contents f =
     concat (map (\<lambda>l. line_text l @ (case ending l of Some e \<Rightarrow> as_str e | None \<Rightarrow> [])) (lines f))"

section \<open>Parsing and printing\<close>

abbreviation print_line :: "source_line \<Rightarrow> rust_str" where
  "print_line l \<equiv> line_text l @ (case ending l of Some e \<Rightarrow> as_str e | None \<Rightarrow> [])"

lemma print_parse_lines: "concat (map print_line (parse_lines cur bs)) = cur @ bs"
  by (induction cur bs rule: parse_lines.induct) (auto split: list.splits)

text \<open>Lines contain no terminator byte, and only the last line may lack an ending.\<close>

definition plain_text :: "rust_str \<Rightarrow> bool" where
  "plain_text t \<longleftrightarrow> newline \<notin> set t \<and> carriage_return \<notin> set t"

lemma parse_lines_plain:
  "plain_text cur \<Longrightarrow> list_all (\<lambda>l. plain_text (line_text l)) (parse_lines cur bs)"
proof (induction cur bs rule: parse_lines.induct)
  case (2 cur b bs)
  then show ?case by (cases bs) (simp_all add: plain_text_def)
qed simp

lemma parse_lines_endings: "list_all (\<lambda>l. ending l \<noteq> None) (butlast (parse_lines cur bs))"
proof (induction cur bs rule: parse_lines.induct)
  case (2 cur b bs)
  then show ?case by (cases bs) simp_all
qed simp

section \<open>Splicing\<close>

text \<open>
  Replacements in source order that do not overlap and stay inside a file of \<open>n\<close> lines, from
  line \<open>i\<close> on.
\<close>

fun reps_ok :: "nat \<Rightarrow> nat \<Rightarrow> replacement list \<Rightarrow> bool" where
  "reps_ok n i [] \<longleftrightarrow> i \<le> n"
| "reps_ok n i ((s, k, new) # rs) \<longleftrightarrow> i \<le> s \<and> reps_ok n (s + k) rs"

text \<open>The abstract effect on a list of texts: keep, skip, insert.\<close>

fun splice_at :: "'a list \<Rightarrow> nat \<Rightarrow> (nat \<times> nat \<times> 'a list) list \<Rightarrow> 'a list" where
  "splice_at xs i [] = xs"
| "splice_at xs i ((s, k, new) # rs) =
     take (s - i) xs @ new @ splice_at (drop (s - i + k) xs) (s + k) rs"

lemma reps_ok_le: "reps_ok n i rs \<Longrightarrow> i \<le> n"
  by (induction n i rs rule: reps_ok.induct) auto

lemma splice_lines_ok:
  "reps_ok n i rs \<Longrightarrow> splice_lines pref ls i rs =
     Some (splice_at ls i (map (\<lambda>(s, k, new). (s, k, map (\<lambda>t. mk_line t (Some pref)) new)) rs))"
  by (induction pref ls i rs rule: splice_lines.induct) (auto simp: Let_def add.commute)

lemma map_splice_at: "map f (splice_at xs i rs) = splice_at (map f xs) i (map (\<lambda>(s, k, new). (s, k, map f new)) rs)"
  by (induction xs i rs rule: splice_at.induct) (simp_all add: take_map drop_map)

lemma line_text_fill [simp]: "line_text (fill_ending p l) = line_text l"
  by (simp add: fill_ending_def split: option.splits)

lemma apply_source_texts:
  assumes "reps_ok (length (lines f)) 0 rs"
  shows "\<exists>f'. apply_source_replacements f rs = Some f' \<and> line_texts f' = splice_at (line_texts f) 0 rs"
proof -
  have comp: "(\<lambda>x. case case case x of (s, k, new) \<Rightarrow> (s, k, map (\<lambda>t. mk_line t (Some p)) new) of
      (s, k, new) \<Rightarrow> (s, k, map (fill_ending p) new) of
      (s, k, new) \<Rightarrow> (s, k, map line_text new)) = (\<lambda>x. x)" for p
    by (auto simp: comp_def)
  show ?thesis
    using splice_lines_ok[OF assms, of "preferred_ending f" "lines f"]
    by (simp add: apply_source_replacements_def line_texts_def map_splice_at comp_def comp)
qed

section \<open>Properties\<close>

text \<open>
  Splitting a file into lines loses nothing: printing the parsed lines with their recorded
  endings gives the original bytes back, for every mix of LF, CRLF and CR.
\<close>

theorem into_contents_parse: "into_contents (parse_source contents) = contents"
  by (simp add: into_contents_def parse_source_def Let_def print_parse_lines)

text \<open>
  Ordered, non-overlapping replacements never trip the index assertion; the resulting line
  texts are those of the abstract splice, and every resulting line has an ending.
\<close>

theorem apply_replacements_splice:
  assumes "reps_ok (length (lines f)) 0 rs"
  shows "\<exists>f'. apply_source_replacements f rs = Some f' \<and>
     line_texts f' = splice_at (line_texts f) 0 rs \<and> preferred_ending f' = preferred_ending f \<and>
     list_all (\<lambda>l. ending l \<noteq> None) (lines f')"
  using apply_source_texts[OF assms] splice_lines_ok[OF assms, of "preferred_ending f" "lines f"]
  by (auto simp: apply_source_replacements_def list_all_iff fill_ending_def split: option.splits)

theorem apply_replacements_splice_witness:
  "\<exists>f'. apply_source_replacements (parse_source (''a'' @ [carriage_return, newline] @ ''b'')) [(1, 1, [''c''])]
        = Some f' \<and> line_texts f' = [''a'', ''c'']"
proof -
  let ?f = "parse_source (''a'' @ [carriage_return, newline] @ ''b'')"
  have "reps_ok (length (lines ?f)) 0 [(1, 1, [''c''])]" by code_simp
  from apply_replacements_splice[OF this] show ?thesis
    by (auto simp: line_texts_def parse_source_def Let_def)
qed

end
