(* ===== verification/File_Update.thy ===== *)
theory File_Update
  imports Seek_Sequence Text_File Patch_Parser_Props
begin

text \<open>
  \<open>apply-patch/src/file_update.rs\<close>: turning the chunks of an update hunk into line
  replacements and the new file contents. Index arithmetic that would underflow, an
  out-of-range slice, a failed \<open>debug_assert!\<close> and an out-of-range \<open>Vec::insert\<close> are the value
  \<open>Panicked\<close> of the model's error type, so that the absence of panics is a theorem.
\<close>

section \<open>Definitions\<close>

datatype update_error = ComputeReplacements rust_str | Panicked

definition msg_no_context :: "rust_str \<Rightarrow> rust_str \<Rightarrow> rust_str" where
  "msg_no_context ctx_line path = ''Failed to find context '' @ quoted ctx_line @ '' in '' @ path"

definition msg_no_lines_found :: "rust_str \<Rightarrow> rust_str list \<Rightarrow> rust_str" where
  "msg_no_lines_found path olds =
     ''Failed to find expected lines in '' @ path @ '':'' @ [newline] @ join_with [newline] olds"

abbreviation last_is_empty :: "rust_str list \<Rightarrow> bool" where
  "last_is_empty ls \<equiv> ls \<noteq> [] \<and> last ls = []"

text \<open>
  The segments between the recorded context lines (mode \<open>PreserveLineEndings\<close>). \<open>None\<close> is an
  index underflow or an inverted slice.
\<close>

fun context_segments ::
    "nat \<Rightarrow> nat \<Rightarrow> rust_str list \<Rightarrow> nat \<Rightarrow> nat \<Rightarrow> (nat \<times> nat) list \<Rightarrow> replacement list option" where
  "context_segments start_idx pattern_len new_slice old_start new_start [] =
     (if old_start \<noteq> pattern_len \<or> new_start \<noteq> length new_slice
      then if pattern_len < old_start \<or> length new_slice < new_start then None
           else Some [(start_idx + old_start, pattern_len - old_start, drop new_start new_slice)]
      else Some [])"
| "context_segments start_idx pattern_len new_slice old_start new_start ((oc, nc) # ctx) =
     (if pattern_len \<le> oc \<or> length new_slice \<le> nc
      then context_segments start_idx pattern_len new_slice old_start new_start []
      else if old_start \<noteq> oc \<or> new_start \<noteq> nc
      then if oc < old_start \<or> nc < new_start then None
           else map_option
             ((#) (start_idx + old_start, oc - old_start, take (nc - new_start) (drop new_start new_slice)))
             (context_segments start_idx pattern_len new_slice (oc + 1) (nc + 1) ctx)
      else context_segments start_idx pattern_len new_slice (oc + 1) (nc + 1) ctx)"

definition insertion_idx :: "rust_str list \<Rightarrow> update_file_mode \<Rightarrow> nat" where
  "insertion_idx original_lines m =
     (case m of
        NormalizeToLf \<Rightarrow> if last_is_empty original_lines then length original_lines - 1
                        else length original_lines
      | PreserveLineEndings \<Rightarrow> length original_lines)"

text \<open>The search of one chunk, with the retry that drops a trailing empty line.\<close>

definition locate_chunk ::
    "rust_str list \<Rightarrow> update_file_chunk \<Rightarrow> nat \<Rightarrow> update_file_mode \<Rightarrow>
     nat option \<times> rust_str list \<times> rust_str list" where
  "locate_chunk original_lines chunk line_index m =
     (let pattern = old_lines chunk; new_slice = new_lines chunk;
          found = seek_sequence original_lines pattern line_index (is_end_of_file chunk) m
      in if found = None \<and> last_is_empty pattern
         then let pattern' = butlast pattern;
                  new_slice' = (if last_is_empty new_slice then butlast new_slice else new_slice)
              in (seek_sequence original_lines pattern' line_index (is_end_of_file chunk) m,
                  pattern', new_slice')
         else (found, pattern, new_slice))"

text \<open>One chunk: the replacements it contributes and the next line index.\<close>

definition chunk_replacements ::
    "rust_str list \<Rightarrow> rust_str \<Rightarrow> update_file_mode \<Rightarrow> nat \<Rightarrow> update_file_chunk \<Rightarrow>
     (update_error, replacement list \<times> nat) result" where
  "chunk_replacements original_lines path m line_index chunk =
     bind_result
       (case change_context chunk of
          None \<Rightarrow> Ok line_index
        | Some ctx_line \<Rightarrow>
            (case seek_sequence original_lines [ctx_line] line_index False m of
               Some idx \<Rightarrow> Ok (idx + 1)
             | None \<Rightarrow> Err (ComputeReplacements (msg_no_context ctx_line path))))
       (\<lambda>line_index.
         if old_lines chunk = []
         then Ok ([(insertion_idx original_lines m, 0, new_lines chunk)], line_index)
         else (case locate_chunk original_lines chunk line_index m of
             (Some start_idx, pattern, new_slice) \<Rightarrow>
               (case m of
                  NormalizeToLf \<Rightarrow>
                    Ok ([(start_idx, length pattern, new_slice)], start_idx + length pattern)
                | PreserveLineEndings \<Rightarrow>
                    (case context_segments start_idx (length pattern) new_slice 0 0
                            (context_line_indices chunk) of
                       None \<Rightarrow> Err Panicked
                     | Some segs \<Rightarrow> Ok (segs, start_idx + length pattern)))
           | (None, _, _) \<Rightarrow>
               Err (ComputeReplacements (msg_no_lines_found path (old_lines chunk)))))"

fun collect_replacements ::
    "rust_str list \<Rightarrow> rust_str \<Rightarrow> update_file_mode \<Rightarrow> nat \<Rightarrow> update_file_chunk list \<Rightarrow>
     (update_error, replacement list) result" where
  "collect_replacements original_lines path m line_index [] = Ok []"
| "collect_replacements original_lines path m line_index (chunk # chunks) =
     bind_result (chunk_replacements original_lines path m line_index chunk) (\<lambda>(rs, line_index').
       bind_result (collect_replacements original_lines path m line_index' chunks) (\<lambda>rs'.
         Ok (rs @ rs')))"

definition compute_replacements ::
    "rust_str list \<Rightarrow> rust_str \<Rightarrow> update_file_chunk list \<Rightarrow> update_file_mode \<Rightarrow>
     (update_error, replacement list) result" where
  "compute_replacements original_lines path chunks m =
     bind_result (collect_replacements original_lines path m 0 chunks)
       (\<lambda>rs. Ok (sort_key fst rs))"

fun remove_lines :: "nat \<Rightarrow> nat \<Rightarrow> rust_str list \<Rightarrow> rust_str list" where
  "remove_lines 0 start_idx ls = ls"
| "remove_lines (Suc k) start_idx ls =
     remove_lines k start_idx
       (if start_idx < length ls then take start_idx ls @ drop (Suc start_idx) ls else ls)"

fun insert_lines :: "nat \<Rightarrow> rust_str list \<Rightarrow> rust_str list \<Rightarrow> rust_str list option" where
  "insert_lines idx [] ls = Some ls"
| "insert_lines idx (x # xs) ls =
     (if length ls < idx then None
      else insert_lines (Suc idx) xs (take idx ls @ x # drop idx ls))"

definition apply_one :: "replacement \<Rightarrow> rust_str list \<Rightarrow> rust_str list option" where
  "apply_one r ls = (case r of (start_idx, old_len, new_segment) \<Rightarrow>
     insert_lines start_idx new_segment (remove_lines old_len start_idx ls))"

definition apply_replacements :: "rust_str list \<Rightarrow> replacement list \<Rightarrow> rust_str list option" where
  "apply_replacements ls rs = fold (\<lambda>r acc. Option.bind acc (apply_one r)) (rev rs) (Some ls)"

text \<open>
  \<open>derive_new_contents_from_chunks\<close> after the file has been read: the new contents for the
  original contents of the file.
\<close>

definition derive_new_contents ::
    "rust_str \<Rightarrow> rust_str \<Rightarrow> update_file_chunk list \<Rightarrow> update_file_mode \<Rightarrow>
     (update_error, rust_str) result" where
  "derive_new_contents original_contents path chunks m =
     (case m of
        NormalizeToLf \<Rightarrow>
          (let split_lines = split_on newline original_contents;
               original_lines = (if last_is_empty split_lines then butlast split_lines else split_lines)
           in bind_result (compute_replacements original_lines path chunks m) (\<lambda>rs.
                case apply_replacements original_lines rs of
                  None \<Rightarrow> Err Panicked
                | Some result_lines \<Rightarrow>
                    Ok (join_with [newline]
                          (if last_is_empty result_lines then result_lines
                           else result_lines @ [[]]))))
      | PreserveLineEndings \<Rightarrow>
          (let source_file = parse_source original_contents
           in bind_result (compute_replacements (line_texts source_file) path chunks m) (\<lambda>rs.
                case apply_source_replacements source_file rs of
                  None \<Rightarrow> Err Panicked
                | Some f \<Rightarrow> Ok (into_contents f))))"

end
