(* ===== verification/Utf8.thy ===== *)
theory Utf8
  imports Prelude
begin

text \<open>
  The UTF-8 validation of Rust's standard library, \<open>std::str::from_utf8\<close>, which the stream
  parsers and the text reads of the file system call. The result of a failed validation is the
  pair of \<open>valid_up_to\<close> and \<open>error_len\<close>; \<open>error_len\<close> is \<open>None\<close> when the input ends inside a
  character.
\<close>

section \<open>Validation\<close>

datatype utf8_step = Complete nat | Invalid nat | Incomplete

abbreviation continuation :: "char \<Rightarrow> bool" where
  "continuation c \<equiv> 128 \<le> byte_of c \<and> byte_of c < 192"

text \<open>The admissible second bytes of a three or four byte character.\<close>

definition second_ok :: "char \<Rightarrow> char \<Rightarrow> bool" where
  "second_ok a b \<longleftrightarrow>
     (if byte_of a = 224 then 160 \<le> byte_of b \<and> byte_of b < 192
      else if byte_of a = 237 then 128 \<le> byte_of b \<and> byte_of b < 160
      else if byte_of a = 240 then 144 \<le> byte_of b \<and> byte_of b < 192
      else if byte_of a = 244 then 128 \<le> byte_of b \<and> byte_of b < 144
      else continuation b)"

fun utf8_first :: "char \<Rightarrow> rust_str \<Rightarrow> utf8_step" where
  "utf8_first a bs =
     (if byte_of a < 128 then Complete 1
      else if 194 \<le> byte_of a \<and> byte_of a < 224 then
        (case bs of [] \<Rightarrow> Incomplete | b # _ \<Rightarrow> if continuation b then Complete 2 else Invalid 1)
      else if 224 \<le> byte_of a \<and> byte_of a < 240 then
        (case bs of
           [] \<Rightarrow> Incomplete
         | b # bs' \<Rightarrow> if \<not> second_ok a b then Invalid 1
             else (case bs' of [] \<Rightarrow> Incomplete
                   | c # _ \<Rightarrow> if continuation c then Complete 3 else Invalid 2))
      else if 240 \<le> byte_of a \<and> byte_of a < 245 then
        (case bs of
           [] \<Rightarrow> Incomplete
         | b # bs' \<Rightarrow> if \<not> second_ok a b then Invalid 1
             else (case bs' of [] \<Rightarrow> Incomplete
                   | c # bs'' \<Rightarrow> if \<not> continuation c then Invalid 2
                       else (case bs'' of [] \<Rightarrow> Incomplete
                             | d # _ \<Rightarrow> if continuation d then Complete 4 else Invalid 3)))
      else Invalid 1)"

declare utf8_first.simps [simp del]

type_synonym utf8_error = "nat \<times> nat option"  \<comment> \<open>\<open>valid_up_to\<close>, \<open>error_len\<close>\<close>

fun utf8_scan :: "nat \<Rightarrow> rust_str \<Rightarrow> utf8_error option" where
  "utf8_scan n [] = None"
| "utf8_scan n (a # bs) =
     (case utf8_first a bs of
        Complete k \<Rightarrow> utf8_scan (n + k) (drop (k - 1) bs)
      | Invalid k \<Rightarrow> Some (n, Some k)
      | Incomplete \<Rightarrow> Some (n, None))"

definition from_utf8 :: "rust_str \<Rightarrow> (utf8_error, rust_str) result" where
  "from_utf8 bytes = (case utf8_scan 0 bytes of None \<Rightarrow> Ok bytes | Some e \<Rightarrow> Err e)"

definition utf8_valid :: "rust_str \<Rightarrow> bool" where
  "utf8_valid s \<longleftrightarrow> utf8_scan 0 s = None"

section \<open>How validation behaves on a split input\<close>

lemma utf8_first_Complete:
  assumes "utf8_first a bs = Complete k"
  shows "1 \<le> k" "k - 1 \<le> length bs" "utf8_first a (bs @ t) = Complete k"
  using assms by (auto simp: utf8_first.simps split: if_splits list.splits)

lemma utf8_first_prefix:
  assumes "utf8_first a (bs @ t) = Complete k"
  shows "utf8_first a bs = (if k - 1 \<le> length bs then Complete k else Incomplete)"
proof -
  show ?thesis
    using assms
    by (cases bs; cases "tl bs"; cases "tl (tl bs)"; cases t)
      (auto simp: utf8_first.simps split: if_splits list.splits)
qed

lemma utf8_scan_shift: "utf8_scan (m + n) s = map_option (\<lambda>(v, e). (m + v, e)) (utf8_scan n s)"
  by (induction n s arbitrary: m rule: utf8_scan.induct)
     (auto split: utf8_step.splits simp: add.assoc simp flip: add.assoc)

lemma utf8_scan_None: "utf8_scan n s = None \<longleftrightarrow> utf8_valid s"
  using utf8_scan_shift[of n 0 s] by (auto simp: utf8_valid_def)

lemma utf8_valid_Nil [simp]: "utf8_valid []"
  by (simp add: utf8_valid_def)

lemma utf8_valid_Cons:
  "utf8_valid (a # bs) \<longleftrightarrow> (\<exists>k. utf8_first a bs = Complete k \<and> utf8_valid (drop (k - 1) bs))"
  by (auto simp: utf8_valid_def[of "a # bs"] utf8_scan_None split: utf8_step.splits)

lemma utf8_valid_append:
  assumes "utf8_valid s"
  shows "utf8_valid (s @ t) \<longleftrightarrow> utf8_valid t"
  using assms
proof (induction s rule: length_induct)
  case (1 s)
  show ?case
  proof (cases s)
    case (Cons a bs)
    with 1 obtain k where k: "utf8_first a bs = Complete k" "utf8_valid (drop (k - 1) bs)"
      by (auto simp: utf8_valid_Cons)
    note f = utf8_first_Complete[OF k(1)]
    have "utf8_valid (drop (k - 1) bs @ t) \<longleftrightarrow> utf8_valid t"
      using 1 Cons k(2) by (auto simp: less_Suc_eq_le)
    then show ?thesis using Cons f by (simp add: utf8_valid_Cons[of a "bs @ t"])
  qed simp
qed

lemma utf8_valid_concat: "list_all utf8_valid ss \<Longrightarrow> utf8_valid (concat ss)"
  by (induction ss) (simp_all add: utf8_valid_append)

text \<open>
  A prefix of valid text is valid text followed by an incomplete character: validation reports
  the length of the valid part and never an invalid sequence.
\<close>

lemma utf8_scan_prefix:
  assumes "utf8_valid (x @ y)"
  shows "\<exists>p r. x = p @ r \<and> utf8_valid p \<and> utf8_valid (r @ y) \<and>
    utf8_scan n x = (if r = [] then None else Some (n + length p, None))"
  using assms
proof (induction x arbitrary: n rule: length_induct)
  case (1 x)
  show ?case
  proof (cases x)
    case (Cons a bs)
    with 1 obtain k where k: "utf8_first a (bs @ y) = Complete k" "utf8_valid (drop (k - 1) (bs @ y))"
      by (auto simp: utf8_valid_Cons)
    show ?thesis
    proof (cases "k - 1 \<le> length bs")
      case False
      then have "utf8_first a bs = Incomplete" using utf8_first_prefix[OF k(1)] by simp
      then show ?thesis using 1(2) Cons by (intro exI[of _ "[]"] exI[of _ x]) simp
    next
      case True
      then have f: "utf8_first a bs = Complete k" using utf8_first_prefix[OF k(1)] by simp
      then have "1 \<le> k" by (rule utf8_first_Complete)
      from k(2) True have "utf8_valid (drop (k - 1) bs @ y)" by simp
      moreover have "length (drop (k - 1) bs) < length x" using Cons by simp
      ultimately obtain p r where pr: "drop (k - 1) bs = p @ r" "utf8_valid p" "utf8_valid (r @ y)"
        "utf8_scan (n + k) (drop (k - 1) bs) = (if r = [] then None else Some (n + k + length p, None))"
        using 1(1) by blast
      let ?q = "a # take (k - 1) bs"
      have x: "x = (?q @ p) @ r" using Cons pr(1) append_take_drop_id[of "k - 1" bs] by simp
      have "utf8_first a (take (k - 1) bs) = Complete k"
        using utf8_first_prefix[of a "take (k - 1) bs" "drop (k - 1) bs" k] f True by simp
      from utf8_first_Complete(3)[OF this, of p] have "utf8_valid (?q @ p)"
        using pr(2) True by (simp add: utf8_valid_Cons min_def)
      moreover have "utf8_scan n x = (if r = [] then None else Some (n + length (?q @ p), None))"
        using Cons f pr(4) True \<open>1 \<le> k\<close> by simp
      ultimately show ?thesis using x pr(3) by blast
    qed
  qed (use 1(2) in simp)
qed


text \<open>An ASCII byte never continues a character, so valid text may be cut around it.\<close>

lemma utf8_first_continuation: "utf8_first a bs = Complete k \<Longrightarrow> i < k - 1 \<Longrightarrow> continuation (bs ! i)"
  by (auto simp: utf8_first.simps second_ok_def nth_Cons less_Suc_eq split: if_splits list.splits nat.splits)

lemma utf8_valid_ascii: "ascii n \<Longrightarrow> utf8_valid n"
  by (induction n) (auto simp: utf8_valid_Cons utf8_first.simps)

lemma utf8_valid_split:
  assumes "utf8_valid (x @ n @ z)" "ascii n" "n \<noteq> []"
  shows "utf8_valid x \<and> utf8_valid z"
proof -
  have "utf8_valid x" using assms(1)
  proof (induction x rule: length_induct)
    case (1 x)
    show ?case
    proof (cases x)
      case (Cons a bs)
      with 1 obtain k where k: "utf8_first a (bs @ n @ z) = Complete k" "utf8_valid (drop (k - 1) (bs @ n @ z))"
        by (auto simp: utf8_valid_Cons)
      have "byte_of ((bs @ n @ z) ! length bs) < 128" using assms(2,3) by (cases n) (auto simp: nth_append)
      then have le: "k - 1 \<le> length bs" using utf8_first_continuation[OF k(1), of "length bs"] by linarith
      then have "utf8_valid (drop (k - 1) bs)" using 1 k(2) Cons by simp
      moreover have "utf8_first a bs = Complete k" using utf8_first_prefix[OF k(1)] le by simp
      ultimately show ?thesis using Cons by (auto simp: utf8_valid_Cons)
    qed simp
  qed
  then show ?thesis
    using assms utf8_valid_append[of x "n @ z"] utf8_valid_append[OF utf8_valid_ascii, of n z] by simp
qed

lemma utf8_valid_before: "utf8_valid (x @ n) \<Longrightarrow> ascii n \<Longrightarrow> utf8_valid x"
  using utf8_valid_split[of x n "[]"] by (cases "n = []") auto


text \<open>The reported offset ends the longest valid part.\<close>

lemma utf8_scan_Some:
  "utf8_scan n s = Some (v, e) \<Longrightarrow> n \<le> v \<and> v - n \<le> length s \<and> utf8_valid (take (v - n) s)"
proof (induction n s rule: utf8_scan.induct)
  case (2 n a bs)
  show ?case
  proof (cases "utf8_first a bs")
    case (Complete k)
    note f = utf8_first_Complete[OF Complete]
    have IH: "n + k \<le> v" "v - (n + k) \<le> length (drop (k - 1) bs)" "utf8_valid (take (v - (n + k)) (drop (k - 1) bs))"
      using 2 Complete by auto
    have t: "take (v - n) (a # bs) = a # (take (k - 1) bs @ take (v - (n + k)) (drop (k - 1) bs))"
      using f(1,2) IH(1) by (simp add: take_Cons' take_add[symmetric])
    have "utf8_first a (take (k - 1) bs) = Complete k"
      using utf8_first_prefix[of a "take (k - 1) bs" "drop (k - 1) bs" k] Complete f(2) by simp
    from utf8_first_Complete(3)[OF this] have "utf8_valid (take (v - n) (a # bs))"
      unfolding t using IH(3) f(2) by (simp add: utf8_valid_Cons)
    then show ?thesis using IH(1,2) f(1,2) by auto
  qed (use 2 in auto)
qed simp

section \<open>Characters of valid text\<close>

lemma utf8_first_len: "utf8_first a bs = Complete k \<Longrightarrow> utf8_len a = k"
  by (auto simp: utf8_first.simps utf8_len_def split: if_splits list.splits)

lemma utf8_valid_closed: "utf8_valid s \<Longrightarrow> utf8_closed s"
proof (induction s rule: utf8_closed.induct)
  case (2 c cs)
  then show ?case using utf8_first_Complete(2) utf8_first_len by (fastforce simp: utf8_valid_Cons)
qed simp

lemmas utf8_valid_chars_append = utf8_chars_append[OF utf8_valid_closed]

definition is_char :: "rust_str \<Rightarrow> bool" where
  "is_char u \<longleftrightarrow> utf8_valid u \<and> utf8_chars u = [u]"

lemma utf8_valid_chars: "utf8_valid s \<Longrightarrow> u \<in> set (utf8_chars s) \<Longrightarrow> is_char u"
proof (induction s rule: utf8_chars.induct)
  case (2 c cs)
  then obtain k where k: "utf8_first c cs = Complete k" "utf8_valid (drop (k - 1) cs)"
    by (auto simp: utf8_valid_Cons)
  note len = utf8_first_len[OF k(1)]
  show ?case
  proof (cases "u = c # take (k - 1) cs")
    case True
    have le: "k - 1 \<le> length cs" by (rule utf8_first_Complete(2)[OF k(1)])
    have "utf8_first c (take (k - 1) cs) = Complete k"
      using utf8_first_prefix[of c "take (k - 1) cs" "drop (k - 1) cs" k] k(1) le by simp
    then have "utf8_valid u" using True by (simp add: utf8_valid_Cons)
    then show ?thesis using True len le by (simp add: is_char_def)
  next
    case False
    then show ?thesis using 2 k(2) len by auto
  qed
qed simp

lemma is_char_concat:
  "\<forall>u \<in> set us. is_char u \<Longrightarrow> utf8_valid (concat us) \<and> utf8_chars (concat us) = us"
  by (induction us) (simp_all add: is_char_def utf8_valid_append utf8_valid_chars_append)

lemma is_char_newline: "is_char u \<Longrightarrow> u \<noteq> [newline] \<Longrightarrow> newline \<notin> set u"
proof (rule notI)
  assume u: "is_char u" "u \<noteq> [newline]" "newline \<in> set u"
  then obtain a bs where ab: "u = a # bs" by (cases u) auto
  with u obtain k where k: "utf8_first a bs = Complete k" by (auto simp: is_char_def utf8_valid_Cons)
  have bs: "length bs \<le> k - 1" using u(1) ab utf8_first_len[OF k] by (auto simp: is_char_def)
  have "newline \<notin> set bs"
  proof
    assume "newline \<in> set bs"
    then obtain i where "i < length bs" "bs ! i = newline" by (auto simp: in_set_conv_nth)
    with utf8_first_continuation[OF k, of i] bs show False by simp
  qed
  then have "a = newline" using u(3) ab by simp
  then have "k = 1" using k by (simp add: utf8_first.simps)
  then show False using u(2) \<open>a = newline\<close> ab bs by simp
qed

end
