(* ===== verification/Executor_Fs.thy ===== *)
theory Executor_Fs
  imports Utf8 "HOL-Library.AList"
begin

text \<open>
  The file-system interface the patch engine works against. The trait \<open>ExecutorFileSystem\<close>
  (\<open>file-system/src/lib.rs\<close>) is a record of operations over an abstract world; reads do not
  change the world, so nobody else writes between two calls. What the patch engine relies on is
  the locale \<open>executor_fs_contract\<close>. The provider is \<open>DirectFileSystem\<close>
  (\<open>exec-server/src/local_file_system.rs\<close>), modelled over the documented behaviour of the
  POSIX calls it makes: a world is a finite tree of regular files, directories and symbolic
  links addressed by component lists; a link is followed in the last component of a path only.
\<close>

section \<open>The interface\<close>

datatype error_kind = NotFound | InvalidInput | InvalidData | OtherKind

record io_error =
  err_kind :: error_kind
  err_text :: rust_str

abbreviation io_err :: "error_kind \<Rightarrow> rust_str \<Rightarrow> io_error" where
  "io_err k t \<equiv> \<lparr>err_kind = k, err_text = t\<rparr>"

record file_metadata =
  is_directory :: bool
  is_file :: bool
  is_symlink :: bool

record ('w, 'p) executor_fs =
  read_file_text :: "'w \<Rightarrow> 'p \<Rightarrow> (io_error, rust_str) result"
  get_metadata :: "'w \<Rightarrow> 'p \<Rightarrow> (io_error, file_metadata) result"
  write_file :: "'w \<Rightarrow> 'p \<Rightarrow> rust_str \<Rightarrow> (io_error, unit) result \<times> 'w"
  create_directory :: "'w \<Rightarrow> 'p \<Rightarrow> (io_error, unit) result \<times> 'w"  \<comment> \<open>\<open>recursive: true\<close>\<close>
  remove_path :: "'w \<Rightarrow> 'p \<Rightarrow> (io_error, unit) result \<times> 'w"  \<comment> \<open>\<open>recursive: false, force: false\<close>\<close>

text \<open>\<open>PathUri\<close>, as far as the patch engine uses it; \<open>join_path\<close> is \<open>cwd.join\<close> for the given \<open>cwd\<close>.\<close>

record 'p path_ops =
  join_path :: "rust_str \<Rightarrow> (rust_str, 'p) result"
  path_parent :: "'p \<Rightarrow> 'p option"
  native_path_string :: "'p \<Rightarrow> rust_str"

text \<open>The condition that \<open>note_existing_path_delta_support\<close> tests.\<close>

definition plain_path :: "('w, 'p) executor_fs \<Rightarrow> 'w \<Rightarrow> 'p \<Rightarrow> bool" where
  "plain_path fs w p =
     (case get_metadata fs w p of
        Inr md \<Rightarrow> is_file md \<and> \<not> is_symlink md
      | Inl e \<Rightarrow> err_kind e = NotFound)"

locale executor_fs_contract =
  fixes fs :: "('w, 'p) executor_fs" and P :: "'p path_ops"
    and good :: "'w \<Rightarrow> bool" and files :: "'w \<Rightarrow> 'p \<Rightarrow> rust_str option"
  assumes read_ok: "good w \<Longrightarrow> plain_path fs w p \<Longrightarrow> read_file_text fs w p = Inr s \<Longrightarrow> files w p = Some s"
    and read_missing: "good w \<Longrightarrow> plain_path fs w p \<Longrightarrow> read_file_text fs w p = Inl e \<Longrightarrow>
      err_kind e = NotFound \<Longrightarrow> files w p = None"
    and write_good: "good w \<Longrightarrow> good (snd (write_file fs w p c))"
    and write_ok: "good w \<Longrightarrow> plain_path fs w p \<Longrightarrow> write_file fs w p c = (Inr u, w') \<Longrightarrow>
      files w' = (files w)(p \<mapsto> c)"
    and write_missing: "good w \<Longrightarrow> write_file fs w p c = (Inl e, w') \<Longrightarrow> err_kind e = NotFound \<Longrightarrow>
      files w' = files w \<and> (plain_path fs w q \<longrightarrow> plain_path fs w' q)"
    and write_keeps: "good w \<Longrightarrow> files w q \<noteq> None \<Longrightarrow> plain_path fs w q \<Longrightarrow>
      plain_path fs (snd (write_file fs w p c)) q"
    and create_good: "good w \<Longrightarrow> good (snd (create_directory fs w d))"
    and create_files: "good w \<Longrightarrow> files (snd (create_directory fs w d)) = files w"
    and create_keeps: "good w \<Longrightarrow> plain_path fs w q \<Longrightarrow> files w q \<noteq> None \<or> path_parent P q = Some d \<Longrightarrow>
      plain_path fs (snd (create_directory fs w d)) q"
    and remove_good: "good w \<Longrightarrow> good (snd (remove_path fs w p))"
    and remove_ok: "good w \<Longrightarrow> plain_path fs w p \<Longrightarrow> remove_path fs w p = (Inr u, w') \<Longrightarrow>
      files w' = (files w)(p := None)"
    and remove_err: "good w \<Longrightarrow> plain_path fs w p \<Longrightarrow> remove_path fs w p = (Inl e, w') \<Longrightarrow>
      q \<noteq> p \<Longrightarrow> files w' q = files w q"
    and remove_err_read: "good w \<Longrightarrow> plain_path fs w p \<Longrightarrow> remove_path fs w p = (Inl e, w') \<Longrightarrow>
      read_file_text fs w' p = Inr s \<Longrightarrow> files w' p = Some s"

section \<open>The operating system calls\<close>

type_synonym abs_path = "rust_str list"

datatype node = RegularFile rust_str | Directory | Symlink abs_path

type_synonym os_world = "(abs_path \<times> node) list"

abbreviation enoent :: io_error where "enoent \<equiv> io_err NotFound ''No such file or directory (os error 2)''"
abbreviation enotdir :: io_error where "enotdir \<equiv> io_err OtherKind ''Not a directory (os error 20)''"
abbreviation eisdir :: io_error where "eisdir \<equiv> io_err OtherKind ''Is a directory (os error 21)''"
abbreviation enotempty :: io_error where "enotempty \<equiv> io_err OtherKind ''Directory not empty (os error 39)''"
abbreviation eexist :: io_error where "eexist \<equiv> io_err OtherKind ''File exists (os error 17)''"
abbreviation eloop :: io_error where "eloop \<equiv> io_err OtherKind ''Too many levels of symbolic links (os error 40)''"

definition os_lookup :: "os_world \<Rightarrow> abs_path \<Rightarrow> node option" where
  "os_lookup w p = (if p = [] then Some Directory else map_of w p)"

fun os_follow :: "nat \<Rightarrow> os_world \<Rightarrow> abs_path \<Rightarrow> (io_error, abs_path) result" where
  "os_follow 0 w p = Err eloop"
| "os_follow (Suc n) w p =
     (case os_lookup w p of Some (Symlink t) \<Rightarrow> os_follow n w t | _ \<Rightarrow> Ok p)"

definition os_resolve :: "os_world \<Rightarrow> abs_path \<Rightarrow> (io_error, abs_path) result" where
  "os_resolve w p = os_follow 40 w p"

definition os_stat :: "os_world \<Rightarrow> abs_path \<Rightarrow> (io_error, node) result" where
  "os_stat w p = bind_result (os_resolve w p) (\<lambda>q.
     case os_lookup w q of None \<Rightarrow> Err enoent | Some n \<Rightarrow> Ok n)"

definition os_lstat :: "os_world \<Rightarrow> abs_path \<Rightarrow> (io_error, node) result" where
  "os_lstat w p = (case os_lookup w p of None \<Rightarrow> Err enoent | Some n \<Rightarrow> Ok n)"

definition os_write :: "os_world \<Rightarrow> abs_path \<Rightarrow> rust_str \<Rightarrow> (io_error, unit) result \<times> os_world" where
  "os_write w p c =
     (case os_resolve w p of
        Inl e \<Rightarrow> (Err e, w)
      | Inr q \<Rightarrow>
          if os_lookup w q = Some Directory then (Err eisdir, w)
          else (case os_lookup w (butlast q) of
                  Some Directory \<Rightarrow> (Ok (), AList.update q (RegularFile c) w)
                | Some _ \<Rightarrow> (Err enotdir, w)
                | None \<Rightarrow> (Err enoent, w)))"

definition os_mkdir :: "os_world \<Rightarrow> abs_path \<Rightarrow> (io_error, unit) result \<times> os_world" where
  "os_mkdir w d =
     (if os_lookup w d \<noteq> None then (Err eexist, w)
      else (case os_lookup w (butlast d) of
              Some Directory \<Rightarrow> (Ok (), AList.update d Directory w)
            | Some _ \<Rightarrow> (Err enotdir, w)
            | None \<Rightarrow> (Err enoent, w)))"

text \<open>\<open>create_dir_all\<close>, from the root down.\<close>

fun os_mkdirs :: "os_world \<Rightarrow> abs_path list \<Rightarrow> (io_error, unit) result \<times> os_world" where
  "os_mkdirs w [] = (Ok (), w)"
| "os_mkdirs w (d # ds) =
     (case os_stat w d of
        Inr Directory \<Rightarrow> os_mkdirs w ds
      | Inr _ \<Rightarrow> (Err enotdir, w)
      | Inl e \<Rightarrow>
          (case os_mkdir w d of (Inr _, w') \<Rightarrow> os_mkdirs w' ds | (Inl e', w') \<Rightarrow> (Err e', w')))"

definition os_create_dir_all :: "os_world \<Rightarrow> abs_path \<Rightarrow> (io_error, unit) result \<times> os_world" where
  "os_create_dir_all w d = os_mkdirs w (map (\<lambda>n. take n d) [1 ..< Suc (length d)])"

definition os_unlink :: "os_world \<Rightarrow> abs_path \<Rightarrow> (io_error, unit) result \<times> os_world" where
  "os_unlink w p =
     (case os_lookup w p of
        None \<Rightarrow> (Err enoent, w)
      | Some Directory \<Rightarrow> (Err eisdir, w)
      | Some _ \<Rightarrow> (Ok (), AList.delete p w))"

definition os_rmdir :: "os_world \<Rightarrow> abs_path \<Rightarrow> (io_error, unit) result \<times> os_world" where
  "os_rmdir w p =
     (if list_ex (\<lambda>(q, _). strict_prefix p q) w then (Err enotempty, w)
      else (Ok (), AList.delete p w))"

definition os_remove_dir_all :: "os_world \<Rightarrow> abs_path \<Rightarrow> (io_error, unit) result \<times> os_world" where
  "os_remove_dir_all w p = (Ok (), filter (\<lambda>(q, _). \<not> prefix p q) w)"

section \<open>\<open>DirectFileSystem\<close>\<close>

definition MAX_READ_FILE_BYTES :: int where "MAX_READ_FILE_BYTES = 512 * 1024 * 1024"

definition file_too_large_error :: io_error where
  "file_too_large_error = io_err InvalidInput ''file is too large to read: limit is 536870912 bytes''"

definition reject_sandbox_context :: "bool \<Rightarrow> (io_error, unit) result" where
  "reject_sandbox_context sandbox_is_some =
     (if sandbox_is_some
      then Err (io_err InvalidInput ''direct filesystem operations do not accept sandbox context'')
      else Ok ())"

text \<open>The opened file, by its contents; \<open>regular_file::open\<close> refuses everything else.\<close>

definition open_file_for_read :: "bool \<Rightarrow> os_world \<Rightarrow> abs_path \<Rightarrow> (io_error, rust_str) result" where
  "open_file_for_read sandbox w p = bind_result (reject_sandbox_context sandbox) (\<lambda>_.
     bind_result (os_stat w p) (\<lambda>n. case n of
         RegularFile c \<Rightarrow> Ok c
       | _ \<Rightarrow> Err (io_err InvalidInput (''path `'' @ concat (map (\<lambda>x. CHR ''/'' # x) p) @ ''` is not a file''))))"

definition direct_read_file :: "bool \<Rightarrow> os_world \<Rightarrow> abs_path \<Rightarrow> (io_error, rust_str) result" where
  "direct_read_file sandbox w p = bind_result (open_file_for_read sandbox w p) (\<lambda>bytes.
     if MAX_READ_FILE_BYTES < int (length bytes) then Err file_too_large_error else Ok bytes)"

text \<open>The provided method of the trait.\<close>

definition direct_read_file_text :: "bool \<Rightarrow> os_world \<Rightarrow> abs_path \<Rightarrow> (io_error, rust_str) result" where
  "direct_read_file_text sandbox w p = bind_result (direct_read_file sandbox w p) (\<lambda>bytes.
     case from_utf8 bytes of
       Inr t \<Rightarrow> Ok t
     | Inl _ \<Rightarrow> Err (io_err InvalidData ''invalid utf-8 sequence''))"

definition direct_write_file ::
    "bool \<Rightarrow> os_world \<Rightarrow> abs_path \<Rightarrow> rust_str \<Rightarrow> (io_error, unit) result \<times> os_world" where
  "direct_write_file sandbox w p contents =
     (case reject_sandbox_context sandbox of
        Inl e \<Rightarrow> (Err e, w)
      | Inr _ \<Rightarrow> os_write w p contents)"

definition direct_create_directory ::
    "bool \<Rightarrow> bool \<Rightarrow> os_world \<Rightarrow> abs_path \<Rightarrow> (io_error, unit) result \<times> os_world" where
  "direct_create_directory sandbox recursive w p =
     (case reject_sandbox_context sandbox of
        Inl e \<Rightarrow> (Err e, w)
      | Inr _ \<Rightarrow> if recursive then os_create_dir_all w p else os_mkdir w p)"

definition direct_get_metadata :: "bool \<Rightarrow> os_world \<Rightarrow> abs_path \<Rightarrow> (io_error, file_metadata) result" where
  "direct_get_metadata sandbox w p = bind_result (reject_sandbox_context sandbox) (\<lambda>_.
     bind_result (os_lstat w p) (\<lambda>symlink_metadata.
       let is_sym = (case symlink_metadata of Symlink _ \<Rightarrow> True | _ \<Rightarrow> False)
       in bind_result (if is_sym then os_stat w p else Ok symlink_metadata) (\<lambda>metadata.
            Ok \<lparr>is_directory = (metadata = Directory),
                is_file = (case metadata of RegularFile _ \<Rightarrow> True | _ \<Rightarrow> False),
                is_symlink = is_sym\<rparr>)))"

definition direct_remove ::
    "bool \<Rightarrow> bool \<Rightarrow> bool \<Rightarrow> os_world \<Rightarrow> abs_path \<Rightarrow> (io_error, unit) result \<times> os_world" where
  "direct_remove sandbox recursive force w p =
     (case reject_sandbox_context sandbox of
        Inl e \<Rightarrow> (Err e, w)
      | Inr _ \<Rightarrow>
          (case os_lstat w p of
             Inr Directory \<Rightarrow> if recursive then os_remove_dir_all w p else os_rmdir w p
           | Inr _ \<Rightarrow> os_unlink w p
           | Inl e \<Rightarrow> if err_kind e = NotFound \<and> force then (Ok (), w) else (Err e, w)))"

text \<open>The operations the patch engine calls, with the options it passes and no sandbox context.\<close>

definition direct_fs :: "(os_world, abs_path) executor_fs" where
  "direct_fs =
     \<lparr>read_file_text = direct_read_file_text False,
      get_metadata = direct_get_metadata False,
      write_file = direct_write_file False,
      create_directory = direct_create_directory False True,
      remove_path = direct_remove False False False\<rparr>"

text \<open>
  \<open>PathUri\<close> with the POSIX convention, as component lists: \<open>PathUri::join\<close>
  (\<open>utils/path-uri/src/lib.rs\<close>) resolves \<open>.\<close> and \<open>..\<close> lexically, an absolute path replaces the
  base, and a path with a NUL byte is refused. The trailing separator that an absolute URI may
  keep in its spelling is dropped.
\<close>

definition lexical_push :: "abs_path \<Rightarrow> rust_str \<Rightarrow> abs_path" where
  "lexical_push segments component =
     (if component = [] \<or> component = ''.'' then segments
      else if component = ''..'' then butlast segments
      else segments @ [component])"

definition posix_join :: "abs_path \<Rightarrow> rust_str \<Rightarrow> (rust_str, abs_path) result" where
  "posix_join base path =
     (if CHR 0x00 \<in> set path then Err (''path '' @ path @ '' is not a valid file URI path'')
      else Ok (foldl lexical_push (if path \<noteq> [] \<and> hd path = CHR ''/'' then [] else base)
                (split_on CHR ''/'' path)))"

definition component_paths :: "abs_path \<Rightarrow> abs_path path_ops" where
  "component_paths cwd =
     \<lparr>join_path = posix_join cwd,
      path_parent = (\<lambda>p. if p = [] then None else Some (butlast p)),
      native_path_string = (\<lambda>p. if p = [] then ''/'' else concat (map (\<lambda>x. CHR ''/'' # x) p))\<rparr>"

section \<open>\<open>DirectFileSystem\<close> keeps the contract on worlds without links\<close>

definition link_free :: "os_world \<Rightarrow> bool" where
  "link_free w \<longleftrightarrow> list_all (\<lambda>(_, n). case n of Symlink _ \<Rightarrow> False | _ \<Rightarrow> True) w"

definition os_files :: "os_world \<Rightarrow> abs_path \<Rightarrow> rust_str option" where
  "os_files w p = (case os_lookup w p of Some (RegularFile c) \<Rightarrow> Some c | _ \<Rightarrow> None)"

lemma link_free_lookup: "link_free w \<Longrightarrow> os_lookup w p \<noteq> Some (Symlink t)"
  by (auto simp: link_free_def os_lookup_def list_all_iff dest!: map_of_SomeD)

lemma os_resolve_id: "link_free w \<Longrightarrow> os_resolve w p = Inr p"
  using link_free_lookup[of w p]
  by (auto simp: os_resolve_def eval_nat_numeral split: option.splits node.splits)

lemma os_lookup_update [simp]:
  "q \<noteq> [] \<Longrightarrow> os_lookup (AList.update q n w) = (os_lookup w)(q \<mapsto> n)"
  by (auto simp: os_lookup_def fun_eq_iff update_conv')

lemma os_lookup_delete [simp]: "q \<noteq> [] \<Longrightarrow> os_lookup (AList.delete q w) = (os_lookup w)(q := None)"
  by (auto simp: os_lookup_def fun_eq_iff delete_conv')

lemma os_files_update:
  "q \<noteq> [] \<Longrightarrow> os_files (AList.update q n w) =
     (os_files w)(q := (case n of RegularFile c \<Rightarrow> Some c | _ \<Rightarrow> None))"
  by (simp add: os_files_def fun_eq_iff)

lemma os_files_delete: "q \<noteq> [] \<Longrightarrow> os_files (AList.delete q w) = (os_files w)(q := None)"
  by (simp add: os_files_def fun_eq_iff)

lemma set_AList_update: "x \<in> set (AList.update k v w) \<Longrightarrow> x = (k, v) \<or> x \<in> set w"
  by (induction w) (auto split: if_splits)

lemma link_free_update: "link_free w \<Longrightarrow> \<forall>t. n \<noteq> Symlink t \<Longrightarrow> link_free (AList.update q n w)"
  unfolding link_free_def list_all_iff by (fastforce dest: set_AList_update split: node.splits)

lemma link_free_delete: "link_free w \<Longrightarrow> link_free (AList.delete q w)"
  by (auto simp: link_free_def list_all_iff AList.delete_eq)

lemma plain_direct:
  "link_free w \<Longrightarrow> plain_path direct_fs w p \<longleftrightarrow> os_lookup w p \<noteq> Some Directory"
  using link_free_lookup[of w p]
  by (auto simp: plain_path_def direct_fs_def direct_get_metadata_def reject_sandbox_context_def
      os_lstat_def split: option.splits node.splits)

lemma write_direct:
  assumes "link_free w"
  shows "write_file direct_fs w p c =
    (if os_lookup w p = Some Directory then (Err eisdir, w)
     else (case os_lookup w (butlast p) of
             Some Directory \<Rightarrow> (Ok (), AList.update p (RegularFile c) w)
           | Some _ \<Rightarrow> (Err enotdir, w) | None \<Rightarrow> (Err enoent, w)))"
  using assms by (simp add: direct_fs_def direct_write_file_def reject_sandbox_context_def os_write_def os_resolve_id)

lemma os_mkdir_step:
  "os_mkdir w d = (r, w') \<Longrightarrow> w' = w \<or> (w' = AList.update d Directory w \<and> os_lookup w d = None \<and> d \<noteq> [])"
  by (auto simp: os_mkdir_def os_lookup_def split: if_splits option.splits node.splits)

lemma os_mkdirs_effect:
  "link_free w \<Longrightarrow> os_mkdirs w ds = (r, w') \<Longrightarrow> link_free w' \<and> os_files w' = os_files w \<and>
     (\<forall>q. q \<notin> set ds \<or> os_lookup w q \<noteq> None \<longrightarrow> os_lookup w' q = os_lookup w q)"
proof (induction w ds arbitrary: r w' rule: os_mkdirs.induct)
  case (2 w d ds)
  show ?case
  proof (cases "os_stat w d")
    case (Inr n)
    with 2 show ?thesis by (cases n) auto
  next
    case (Inl e)
    obtain r1 w1 where m: "os_mkdir w d = (r1, w1)" by (cases "os_mkdir w d")
    have "w1 = w \<or> (w1 = AList.update d Directory w \<and> os_lookup w d = None \<and> d \<noteq> [])"
      using os_mkdir_step[OF m] .
    then have w1: "link_free w1" "os_files w1 = os_files w"
      "\<forall>q. q \<noteq> d \<or> os_lookup w q \<noteq> None \<longrightarrow> os_lookup w1 q = os_lookup w q"
      using 2(3) by (auto simp: link_free_update os_files_update os_files_def[of w d] fun_upd_idem)
    show ?thesis
    proof (cases r1)
      case (Inr u)
      with 2(1)[OF Inl m[symmetric]] 2(4) Inl m w1 show ?thesis by auto
    qed (use 2 Inl m w1 in auto)
  qed
qed simp

lemma create_direct:
  assumes "link_free w"
  shows "link_free (snd (create_directory direct_fs w d))"
    "os_files (snd (create_directory direct_fs w d)) = os_files w"
    "length d < length q \<or> os_lookup w q \<noteq> None \<Longrightarrow>
       os_lookup (snd (create_directory direct_fs w d)) q = os_lookup w q"
proof -
  let ?ds = "map (\<lambda>n. take n d) [1 ..< Suc (length d)]"
  obtain r w' where m: "os_mkdirs w ?ds = (r, w')" by (cases "os_mkdirs w ?ds")
  have "create_directory direct_fs w d = (r, w')"
    using m by (simp add: direct_fs_def direct_create_directory_def reject_sandbox_context_def os_create_dir_all_def
        del: upt_Suc)
  moreover have "length q \<le> length d" if "q \<in> set ?ds" for q using that by auto
  ultimately show "link_free (snd (create_directory direct_fs w d))"
    "os_files (snd (create_directory direct_fs w d)) = os_files w"
    "length d < length q \<or> os_lookup w q \<noteq> None \<Longrightarrow>
       os_lookup (snd (create_directory direct_fs w d)) q = os_lookup w q"
    using os_mkdirs_effect[OF assms m] by fastforce+
qed

lemma remove_direct:
  "remove_path direct_fs w p =
    (case os_lookup w p of
       None \<Rightarrow> (Err enoent, w) | Some Directory \<Rightarrow> os_rmdir w p | Some _ \<Rightarrow> (Ok (), AList.delete p w))"
  by (simp add: direct_fs_def direct_remove_def reject_sandbox_context_def os_lstat_def os_unlink_def
      split: option.splits node.splits)

lemma read_direct:
  assumes "link_free w"
  shows "read_file_text direct_fs w p = Inr s \<Longrightarrow> os_lookup w p = Some (RegularFile s)"
    "read_file_text direct_fs w p = Inl e \<Longrightarrow> err_kind e = NotFound \<Longrightarrow> os_lookup w p = None"
  using assms
  by (auto simp: direct_fs_def direct_read_file_text_def direct_read_file_def open_file_for_read_def
      reject_sandbox_context_def os_stat_def os_resolve_id from_utf8_def file_too_large_error_def
      bind_result_def split: option.splits node.splits sum.splits if_splits)

interpretation direct: executor_fs_contract direct_fs "component_paths cwd" link_free os_files
proof
  fix w :: os_world and p q d :: abs_path and s c :: rust_str and e :: io_error and u :: unit and w' :: os_world
  assume g: "link_free w"
  show "read_file_text direct_fs w p = Inr s \<Longrightarrow> os_files w p = Some s"
    using read_direct(1)[OF g] by (simp add: os_files_def)
  show "read_file_text direct_fs w p = Inl e \<Longrightarrow> err_kind e = NotFound \<Longrightarrow> os_files w p = None"
    using read_direct(2)[OF g] by (simp add: os_files_def)
  show "link_free (snd (write_file direct_fs w p c))"
    using g by (auto simp: write_direct link_free_update split: option.splits node.splits)
  show "plain_path direct_fs w p \<Longrightarrow> write_file direct_fs w p c = (Inr u, w') \<Longrightarrow> os_files w' = (os_files w)(p \<mapsto> c)"
    using g by (cases p rule: rev_cases)
      (auto simp: write_direct plain_direct os_files_update os_lookup_def split: option.splits node.splits if_splits)
  show "write_file direct_fs w p c = (Inl e, w') \<Longrightarrow> err_kind e = NotFound \<Longrightarrow>
      os_files w' = os_files w \<and> (plain_path direct_fs w q \<longrightarrow> plain_path direct_fs w' q)"
    using g by (auto simp: write_direct split: option.splits node.splits if_splits)
  show "os_files w q \<noteq> None \<Longrightarrow> plain_path direct_fs w q \<Longrightarrow> plain_path direct_fs (snd (write_file direct_fs w p c)) q"
    using g by (cases p rule: rev_cases)
      (auto simp: write_direct plain_direct link_free_update os_lookup_def update_conv'
        split: option.splits node.splits if_splits)
  show "link_free (snd (create_directory direct_fs w d))" "os_files (snd (create_directory direct_fs w d)) = os_files w"
    using create_direct[OF g] by auto
  show "plain_path direct_fs w q \<Longrightarrow> os_files w q \<noteq> None \<or> path_parent (component_paths cwd) q = Some d \<Longrightarrow>
      plain_path direct_fs (snd (create_directory direct_fs w d)) q"
    using g create_direct(1,3)[OF g]
    by (auto simp: plain_direct os_files_def component_paths_def split: if_splits option.splits)
  show "link_free (snd (remove_path direct_fs w p))"
    using g by (auto simp: remove_direct os_rmdir_def link_free_delete split: option.splits node.splits)
  show "plain_path direct_fs w p \<Longrightarrow> remove_path direct_fs w p = (Inr u, w') \<Longrightarrow> os_files w' = (os_files w)(p := None)"
    using g by (cases p rule: rev_cases)
      (auto simp: remove_direct plain_direct os_files_delete os_lookup_def split: option.splits node.splits)
  show "plain_path direct_fs w p \<Longrightarrow> remove_path direct_fs w p = (Inl e, w') \<Longrightarrow> q \<noteq> p \<Longrightarrow> os_files w' q = os_files w q"
    "plain_path direct_fs w p \<Longrightarrow> remove_path direct_fs w p = (Inl e, w') \<Longrightarrow>
      read_file_text direct_fs w' p = Inr s \<Longrightarrow> os_files w' p = Some s"
    using g read_direct(1)[of w' p s] by (auto simp: remove_direct plain_direct os_files_def split: option.splits node.splits)
qed

end
