(* ===== verification/Apply_Hunks.thy ===== *)
theory Apply_Hunks
  imports File_Update Executor_Fs
begin

text \<open>
  \<open>apply-patch/src/lib.rs\<close>: applying the hunks of a patch to the file system and recording the
  changes that were committed. Every operation threads the world and the accumulated
  \<open>AppliedPatchDelta\<close> through its early returns, so that what a caller sees after a failure is
  part of the result. An \<open>anyhow::Error\<close> is its outermost message together with the I/O error it
  wraps, if any, because \<open>apply_hunks_with_mode\<close> downcasts it.
\<close>

section \<open>Errors\<close>

datatype apply_patch_error =
    ParseErr parse_error
  | IoErr rust_str io_error  \<comment> \<open>context, source\<close>
  | ComputeReplacementsErr rust_str
  | PathUriErr rust_str
  | ImplicitInvocation
  | PatchPanic  \<comment> \<open>a panic of the update code; shown unreachable\<close>

datatype any_error = AnyIo rust_str io_error | AnyOther rust_str

fun any_message :: "any_error \<Rightarrow> rust_str" where
  "any_message (AnyIo msg _) = msg"
| "any_message (AnyOther msg) = msg"

fun parse_error_message :: "parse_error \<Rightarrow> rust_str" where
  "parse_error_message (InvalidPatchError message) = ''invalid patch: '' @ message"
| "parse_error_message (InvalidHunkError message n) =
     ''invalid hunk at line '' @ show_usize n @ '', '' @ message"

fun apply_patch_error_message :: "apply_patch_error \<Rightarrow> rust_str" where
  "apply_patch_error_message (ParseErr e) = parse_error_message e"
| "apply_patch_error_message (IoErr context source) = context @ '': '' @ err_text source"
| "apply_patch_error_message (ComputeReplacementsErr s) = s"
| "apply_patch_error_message (PathUriErr s) = s"
| "apply_patch_error_message ImplicitInvocation =
     ''patch detected without explicit call to apply_patch. Rerun as ['' @ [CHR 34] @ ''apply_patch'' @
     [CHR 34] @ '', '' @ [CHR 34] @ ''<patch>'' @ [CHR 34] @ '']''"
| "apply_patch_error_message PatchPanic = ''panic''"

definition io_apply_error :: "io_error \<Rightarrow> apply_patch_error" where
  "io_apply_error e = IoErr ''I/O error'' e"

definition with_context :: "rust_str \<Rightarrow> (io_error, 'a) result \<Rightarrow> (any_error, 'a) result" where
  "with_context ctx r = (case r of Inl e \<Rightarrow> Err (AnyIo ctx e) | Inr a \<Rightarrow> Ok a)"

section \<open>The committed delta\<close>

datatype 'p applied_patch_file_change =
    Add rust_str "rust_str option"  \<comment> \<open>content, overwritten\_content\<close>
  | Delete rust_str
  | Update "'p option" rust_str "rust_str option" rust_str
      \<comment> \<open>move\_path, old\_content, overwritten\_move\_content, new\_content\<close>

record 'p applied_patch_change =
  change_path :: 'p
  file_change :: "'p applied_patch_file_change"

abbreviation mk_change :: "'p \<Rightarrow> 'p applied_patch_file_change \<Rightarrow> 'p applied_patch_change" where
  "mk_change p c \<equiv> \<lparr>change_path = p, file_change = c\<rparr>"

record 'p applied_patch_delta =
  changes :: "'p applied_patch_change list"
  exact :: bool

definition empty_delta :: "'p applied_patch_delta" where
  "empty_delta = \<lparr>changes = [], exact = True\<rparr>"

definition append_delta :: "'p applied_patch_delta \<Rightarrow> 'p applied_patch_delta \<Rightarrow> 'p applied_patch_delta" where
  "append_delta d other = \<lparr>changes = changes d @ changes other, exact = (exact d \<and> exact other)\<rparr>"

definition push_change ::
    "'p \<Rightarrow> 'p applied_patch_file_change \<Rightarrow> 'p applied_patch_delta \<Rightarrow> 'p applied_patch_delta" where
  "push_change p c d = d\<lparr>changes := changes d @ [mk_change p c]\<rparr>"

record affected_paths =
  added :: "rust_str list"
  modified :: "rust_str list"
  deleted :: "rust_str list"

record ('w, 'p) apply_state =
  world :: 'w
  delta :: "'p applied_patch_delta"
  affected :: affected_paths

type_synonym ('w, 'p) apply_result = "(any_error, unit) result \<times> ('w, 'p) apply_state"

section \<open>File-system helpers\<close>

definition ensure_not_directory :: "('w, 'p) executor_fs \<Rightarrow> 'w \<Rightarrow> 'p \<Rightarrow> (io_error, unit) result" where
  "ensure_not_directory fs w p = bind_result (get_metadata fs w p) (\<lambda>metadata.
     if is_directory metadata then Err (io_err InvalidInput ''path is a directory'') else Ok ())"

definition remove_failure_was_side_effect_free ::
    "('w, 'p) executor_fs \<Rightarrow> 'w \<Rightarrow> 'p \<Rightarrow> rust_str option \<Rightarrow> bool" where
  "remove_failure_was_side_effect_free fs w p expected_content =
     (case expected_content of
        Some expected \<Rightarrow> (case read_file_text fs w p of Inr content \<Rightarrow> content = expected | Inl _ \<Rightarrow> False)
      | None \<Rightarrow> False)"

definition note_existing_path_delta_support :: "('w, 'p) executor_fs \<Rightarrow> 'w \<Rightarrow> 'p \<Rightarrow> bool \<Rightarrow> bool" where
  "note_existing_path_delta_support fs w p ex =
     (case get_metadata fs w p of
        Inr md \<Rightarrow> if is_file md \<and> \<not> is_symlink md then ex else False
      | Inl e \<Rightarrow> if err_kind e = NotFound then ex else False)"

definition read_optional_file_text_for_delta ::
    "('w, 'p) executor_fs \<Rightarrow> 'w \<Rightarrow> 'p \<Rightarrow> bool \<Rightarrow> rust_str option \<times> bool" where
  "read_optional_file_text_for_delta fs w p ex =
     (let ex = note_existing_path_delta_support fs w p ex
      in case read_file_text fs w p of
           Inr content \<Rightarrow> (Some content, ex)
         | Inl e \<Rightarrow> if err_kind e = NotFound then (None, ex) else (None, False))"

definition msg_write :: "'p path_ops \<Rightarrow> 'p \<Rightarrow> rust_str" where
  "msg_write P p = ''Failed to write file '' @ native_path_string P p"

definition write_file_with_missing_parent_retry ::
    "('w, 'p) executor_fs \<Rightarrow> 'p path_ops \<Rightarrow> 'w \<Rightarrow> 'p \<Rightarrow> rust_str \<Rightarrow> (any_error, unit) result \<times> 'w" where
  "write_file_with_missing_parent_retry fs P w p contents =
     (case write_file fs w p contents of
        (Inr _, w1) \<Rightarrow> (Ok (), w1)
      | (Inl e, w1) \<Rightarrow>
          if err_kind e = NotFound
          then (case (case path_parent P p of
                        Some parent \<Rightarrow> create_directory fs w1 parent
                      | None \<Rightarrow> (Ok (), w1)) of
                  (Inl e', w2) \<Rightarrow>
                    (Err (AnyIo (''Failed to create parent directories for '' @ native_path_string P p) e'), w2)
                | (Inr _, w2) \<Rightarrow>
                    (case write_file fs w2 p contents of
                       (r, w3) \<Rightarrow> (with_context (msg_write P p) r, w3)))
          else (Err (AnyIo (msg_write P p) e), w1))"

definition derive_new_contents_from_chunks ::
    "('w, 'p) executor_fs \<Rightarrow> 'p path_ops \<Rightarrow> 'w \<Rightarrow> 'p \<Rightarrow> update_file_chunk list \<Rightarrow> update_file_mode \<Rightarrow>
     (apply_patch_error, rust_str \<times> rust_str) result" where
  "derive_new_contents_from_chunks fs P w p chunks m =
     (case read_file_text fs w p of
        Inl e \<Rightarrow> Err (IoErr (''Failed to read file to update '' @ native_path_string P p) e)
      | Inr original_contents \<Rightarrow>
          (case derive_new_contents original_contents (native_path_string P p) chunks m of
             Inl (ComputeReplacements s) \<Rightarrow> Err (ComputeReplacementsErr s)
           | Inl Panicked \<Rightarrow> Err PatchPanic
           | Inr new_contents \<Rightarrow> Ok (original_contents, new_contents)))"

section \<open>Applying hunks\<close>

abbreviation set_exact :: "bool \<Rightarrow> ('w, 'p) apply_state \<Rightarrow> ('w, 'p) apply_state" where
  "set_exact b st \<equiv> st\<lparr>delta := (delta st)\<lparr>exact := b\<rparr>\<rparr>"

abbreviation record_change ::
    "'p \<Rightarrow> 'p applied_patch_file_change \<Rightarrow> ('w, 'p) apply_state \<Rightarrow> ('w, 'p) apply_state" where
  "record_change p c st \<equiv> st\<lparr>delta := push_change p c (delta st)\<rparr>"

text \<open>
  The macro \<open>try_write!\<close>: a failed write may have modified its target, so the delta is no longer
  exact.
\<close>

definition try_write ::
    "(any_error, unit) result \<times> 'w \<Rightarrow> ('w, 'p) apply_state \<Rightarrow>
     (('w, 'p) apply_state \<Rightarrow> ('w, 'p) apply_result) \<Rightarrow> ('w, 'p) apply_result" where
  "try_write rw st k =
     (case rw of
        (Inr _, w) \<Rightarrow> k (st\<lparr>world := w\<rparr>)
      | (Inl e, w) \<Rightarrow> (Err e, set_exact False (st\<lparr>world := w\<rparr>)))"

definition apply_add_file ::
    "('w, 'p) executor_fs \<Rightarrow> 'p path_ops \<Rightarrow> rust_str \<Rightarrow> 'p \<Rightarrow> rust_str \<Rightarrow> ('w, 'p) apply_state \<Rightarrow>
     ('w, 'p) apply_result" where
  "apply_add_file fs P affected_path p contents st =
     (case read_optional_file_text_for_delta fs (world st) p (exact (delta st)) of
        (overwritten_content, ex) \<Rightarrow>
          try_write (write_file_with_missing_parent_retry fs P (world st) p contents) (set_exact ex st)
            (\<lambda>st. (Ok (), (record_change p (Add contents overwritten_content) st)
                     \<lparr>affected := (affected st)\<lparr>added := added (affected st) @ [affected_path]\<rparr>\<rparr>)))"

text \<open>
  Check that the path is not a directory and remove it; a failed removal keeps the delta exact
  only when the expected content is still there.
\<close>

definition remove_checked ::
    "('w, 'p) executor_fs \<Rightarrow> rust_str \<Rightarrow> 'p \<Rightarrow> rust_str option \<Rightarrow> ('w, 'p) apply_state \<Rightarrow>
     (('w, 'p) apply_state \<Rightarrow> ('w, 'p) apply_result) \<Rightarrow> ('w, 'p) apply_result" where
  "remove_checked fs ctx p expected st k =
     (case with_context ctx (ensure_not_directory fs (world st) p) of
        Inl e \<Rightarrow> (Err e, st)
      | Inr _ \<Rightarrow>
          (case remove_path fs (world st) p of
             (Inl e, w) \<Rightarrow>
               (Err (AnyIo ctx e),
                set_exact (exact (delta st) \<and> remove_failure_was_side_effect_free fs w p expected)
                  (st\<lparr>world := w\<rparr>))
           | (Inr _, w) \<Rightarrow> k (st\<lparr>world := w\<rparr>)))"

definition apply_delete_file ::
    "('w, 'p) executor_fs \<Rightarrow> 'p path_ops \<Rightarrow> rust_str \<Rightarrow> 'p \<Rightarrow> ('w, 'p) apply_state \<Rightarrow>
     ('w, 'p) apply_result" where
  "apply_delete_file fs P affected_path p st =
     (let ex = note_existing_path_delta_support fs (world st) p (exact (delta st));
          deleted_content = (case read_file_text fs (world st) p of Inr c \<Rightarrow> Some c | Inl _ \<Rightarrow> None);
          st = set_exact (if deleted_content = None then False else ex) st
      in remove_checked fs (''Failed to delete file '' @ native_path_string P p) p deleted_content st
           (\<lambda>st. (Ok (),
              (case deleted_content of Some content \<Rightarrow> record_change p (Delete content) st | None \<Rightarrow> st)
                \<lparr>affected := (affected st)\<lparr>deleted := deleted (affected st) @ [affected_path]\<rparr>\<rparr>)))"

abbreviation push_modified :: "rust_str \<Rightarrow> ('w, 'p) apply_state \<Rightarrow> ('w, 'p) apply_state" where
  "push_modified a st \<equiv> st\<lparr>affected := (affected st)\<lparr>modified := modified (affected st) @ [a]\<rparr>\<rparr>"

text \<open>
  The destination write is recorded as an addition first, and that entry is replaced once the
  original is gone, so that a failure in between leaves the committed write in the delta.
\<close>

definition apply_move ::
    "('w, 'p) executor_fs \<Rightarrow> 'p path_ops \<Rightarrow> rust_str \<Rightarrow> 'p \<Rightarrow> 'p \<Rightarrow> rust_str \<Rightarrow> rust_str \<Rightarrow>
     ('w, 'p) apply_state \<Rightarrow> ('w, 'p) apply_result" where
  "apply_move fs P affected_path p dest original_contents new_contents st =
     (case read_optional_file_text_for_delta fs (world st) dest (exact (delta st)) of
        (overwritten_move_content, ex) \<Rightarrow>
          try_write (write_file_with_missing_parent_retry fs P (world st) dest new_contents) (set_exact ex st)
            (\<lambda>st.
               let dest_write_change_index = length (changes (delta st));
                   st = record_change dest (Add new_contents overwritten_move_content) st
               in remove_checked fs (''Failed to remove original '' @ native_path_string P p) p
                    (Some original_contents) st
                    (\<lambda>st. (Ok (), push_modified affected_path
                       (st\<lparr>delta := (delta st)\<lparr>changes := (changes (delta st))
                          [dest_write_change_index := mk_change p
                             (Update (Some dest) original_contents overwritten_move_content new_contents)]\<rparr>\<rparr>)))))"

definition apply_update_file ::
    "('w, 'p) executor_fs \<Rightarrow> 'p path_ops \<Rightarrow> update_file_mode \<Rightarrow> rust_str \<Rightarrow> 'p \<Rightarrow> rust_str option \<Rightarrow>
     update_file_chunk list \<Rightarrow> ('w, 'p) apply_state \<Rightarrow> ('w, 'p) apply_result" where
  "apply_update_file fs P m affected_path p move_path chunks st =
     (let st = set_exact (note_existing_path_delta_support fs (world st) p (exact (delta st))) st
      in case derive_new_contents_from_chunks fs P (world st) p chunks m of
           Inl e \<Rightarrow> (Err (AnyOther (apply_patch_error_message e)), st)
         | Inr (original_contents, new_contents) \<Rightarrow>
             (case move_path of
                Some dest \<Rightarrow>
                  (case join_path P dest of
                     Inl e \<Rightarrow> (Err (AnyOther e), st)
                   | Inr dest_uri \<Rightarrow>
                       apply_move fs P affected_path p dest_uri original_contents new_contents st)
              | None \<Rightarrow>
                  try_write
                    (case write_file fs (world st) p new_contents of (r, w) \<Rightarrow> (with_context (msg_write P p) r, w)) st
                    (\<lambda>st. (Ok (), push_modified affected_path
                       (record_change p (Update None original_contents None new_contents) st)))))"

definition apply_hunk ::
    "('w, 'p) executor_fs \<Rightarrow> 'p path_ops \<Rightarrow> update_file_mode \<Rightarrow> hunk \<Rightarrow> ('w, 'p) apply_state \<Rightarrow>
     ('w, 'p) apply_result" where
  "apply_hunk fs P m h st =
     (case join_path P (hunk_source_path h) of
        Inl e \<Rightarrow> (Err (AnyOther e), st)
      | Inr p \<Rightarrow>
          (case h of
             AddFile _ contents \<Rightarrow> apply_add_file fs P (hunk_path h) p contents st
           | DeleteFile _ \<Rightarrow> apply_delete_file fs P (hunk_path h) p st
           | UpdateFile _ move_path chunks \<Rightarrow> apply_update_file fs P m (hunk_path h) p move_path chunks st))"

fun apply_each_hunk ::
    "('w, 'p) executor_fs \<Rightarrow> 'p path_ops \<Rightarrow> update_file_mode \<Rightarrow> hunk list \<Rightarrow> ('w, 'p) apply_state \<Rightarrow>
     ('w, 'p) apply_result" where
  "apply_each_hunk fs P m [] st = (Ok (), st)"
| "apply_each_hunk fs P m (h # hs) st =
     (case apply_hunk fs P m h st of
        (Inl e, st') \<Rightarrow> (Err e, st')
      | (Inr _, st') \<Rightarrow> apply_each_hunk fs P m hs st')"

definition init_state :: "'w \<Rightarrow> ('w, 'p) apply_state" where
  "init_state w = \<lparr>world = w, delta = empty_delta, affected = \<lparr>added = [], modified = [], deleted = []\<rparr>\<rparr>"

definition apply_hunks_to_files ::
    "('w, 'p) executor_fs \<Rightarrow> 'p path_ops \<Rightarrow> update_file_mode \<Rightarrow> hunk list \<Rightarrow> 'w \<Rightarrow> ('w, 'p) apply_result" where
  "apply_hunks_to_files fs P m hs w =
     (if hs = [] then (Err (AnyOther ''No files were modified.''), init_state w)
      else apply_each_hunk fs P m hs (init_state w))"

section \<open>Reporting\<close>

text \<open>
  A writer takes a line and may fail; its state is everything it has accepted so far.
\<close>

type_synonym 'o writer = "'o \<Rightarrow> rust_str \<Rightarrow> (io_error, unit) result \<times> 'o"

fun write_lines :: "'o writer \<Rightarrow> rust_str list \<Rightarrow> 'o \<Rightarrow> (io_error, unit) result \<times> 'o" where
  "write_lines wr [] out = (Ok (), out)"
| "write_lines wr (l # ls) out =
     (case wr out (l @ [newline]) of
        (Inl e, out') \<Rightarrow> (Err e, out')
      | (Inr _, out') \<Rightarrow> write_lines wr ls out')"

definition summary_lines :: "affected_paths \<Rightarrow> rust_str list" where
  "summary_lines a =
     ''Success. Updated the following files:'' #
     map (\<lambda>p. ''A '' @ p) (added a) @ map (\<lambda>p. ''M '' @ p) (modified a) @ map (\<lambda>p. ''D '' @ p) (deleted a)"

definition print_summary :: "'o writer \<Rightarrow> affected_paths \<Rightarrow> 'o \<Rightarrow> (io_error, unit) result \<times> 'o" where
  "print_summary wr a out = write_lines wr (summary_lines a) out"

record ('w, 'p, 'o) patch_outcome =
  outcome :: "(apply_patch_error \<times> 'p applied_patch_delta, 'p applied_patch_delta) result"
  final_world :: 'w
  stdout :: 'o
  stderr :: 'o

definition downcast_error :: "any_error \<Rightarrow> apply_patch_error" where
  "downcast_error e =
     (case e of
        AnyIo _ io \<Rightarrow> io_apply_error io
      | AnyOther msg \<Rightarrow> IoErr msg (io_err OtherKind msg))"

definition apply_hunks_with_mode ::
    "('w, 'p) executor_fs \<Rightarrow> 'p path_ops \<Rightarrow> 'o writer \<Rightarrow> update_file_mode \<Rightarrow> hunk list \<Rightarrow> 'w \<Rightarrow> 'o \<Rightarrow> 'o \<Rightarrow>
     ('w, 'p, 'o) patch_outcome" where
  "apply_hunks_with_mode fs P wr m hs w out err =
     (case apply_hunks_to_files fs P m hs w of
        (Inr _, st) \<Rightarrow>
          (case print_summary wr (affected st) out of
             (Inl e, out') \<Rightarrow> \<lparr>outcome = Err (io_apply_error e, delta st), final_world = world st,
                              stdout = out', stderr = err\<rparr>
           | (Inr _, out') \<Rightarrow> \<lparr>outcome = Ok (delta st), final_world = world st, stdout = out', stderr = err\<rparr>)
      | (Inl e, st) \<Rightarrow>
          (case wr err (any_message e @ [newline]) of
             (Inl e', err') \<Rightarrow> \<lparr>outcome = Err (io_apply_error e', delta st), final_world = world st,
                               stdout = out, stderr = err'\<rparr>
           | (Inr _, err') \<Rightarrow> \<lparr>outcome = Err (downcast_error e, delta st), final_world = world st,
                              stdout = out, stderr = err'\<rparr>))"

definition parse_failure_line :: "parse_error \<Rightarrow> rust_str" where
  "parse_failure_line e =
     (case e of
        InvalidPatchError message \<Rightarrow> ''Invalid patch: '' @ message
      | InvalidHunkError message n \<Rightarrow>
          ''Invalid patch hunk on line '' @ show_usize n @ '': '' @ message)"

definition apply_patch_with_mode ::
    "('w, 'p) executor_fs \<Rightarrow> 'p path_ops \<Rightarrow> 'o writer \<Rightarrow> rust_str \<Rightarrow> update_file_mode \<Rightarrow> 'w \<Rightarrow> 'o \<Rightarrow> 'o \<Rightarrow>
     ('w, 'p, 'o) patch_outcome" where
  "apply_patch_with_mode fs P wr text m w out err =
     (case parse_patch text of
        Inl e \<Rightarrow>
          (case wr err (parse_failure_line e @ [newline]) of
             (Inl io, err') \<Rightarrow> \<lparr>outcome = Err (io_apply_error io, empty_delta), final_world = w,
                               stdout = out, stderr = err'\<rparr>
           | (Inr _, err') \<Rightarrow> \<lparr>outcome = Err (ParseErr e, empty_delta), final_world = w,
                              stdout = out, stderr = err'\<rparr>)
      | Inr args \<Rightarrow> apply_hunks_with_mode fs P wr m (arg_hunks args) w out err)"

definition apply_patch ::
    "('w, 'p) executor_fs \<Rightarrow> 'p path_ops \<Rightarrow> 'o writer \<Rightarrow> rust_str \<Rightarrow> 'w \<Rightarrow> 'o \<Rightarrow> 'o \<Rightarrow> ('w, 'p, 'o) patch_outcome" where
  "apply_patch fs P wr text w out err = apply_patch_with_mode fs P wr text NormalizeToLf w out err"

end
