(* ===== verification/File_Update_Props.thy ===== *)
theory File_Update_Props
  imports File_Update
begin

text \<open>
  Properties of file updates: the replacements computed from parsed chunks are ordered and
  disjoint, the two ways of applying them agree with the abstract splice, context lines survive,
  and no index operation can panic.
\<close>

section \<open>Ordered replacements\<close>

abbreviation rep_start :: "replacement \<Rightarrow> nat" where "rep_start r \<equiv> fst r"
abbreviation rep_end :: "replacement \<Rightarrow> nat" where "rep_end r \<equiv> fst r + fst (snd r)"

lemma reps_okI:
  assumes "sorted_wrt (\<lambda>a b. rep_end a \<le> rep_start b) rs"
    "\<forall>r \<in> set rs. i \<le> rep_start r \<and> rep_end r \<le> n" "i \<le> n"
  shows "reps_ok n i rs"
  using assms by (induction rs arbitrary: i) auto

lemma reps_ok_mono: "reps_ok n i rs \<Longrightarrow> i' \<le> i \<Longrightarrow> reps_ok n i' rs"
  by (cases rs) auto

lemma reps_okD:
  assumes "reps_ok n i rs"
  shows "sorted_wrt (\<lambda>a b. rep_end a \<le> rep_start b) rs"
    "\<forall>r \<in> set rs. i \<le> rep_start r \<and> rep_end r \<le> n"
  using assms
proof (induction n i rs rule: reps_ok.induct)
  case (2 n i s k new rs)
  case 1
  with 2 show ?case by fastforce
next
  case (2 n i s k new rs)
  case 2
  with "2.IH" reps_ok_le[of n "s + k" rs] show ?case by fastforce
qed simp_all

text \<open>
  Sorting by start index keeps replacements disjoint when each pair is already in order, except
  for insertions at the end of the file, which may have been collected early.
\<close>

definition tail_insert :: "nat \<Rightarrow> replacement \<Rightarrow> bool" where
  "tail_insert n r \<longleftrightarrow> rep_start r = n \<and> rep_end r = n"

lemma sorted_key_sorted_wrt:
  assumes "sorted_wrt (\<lambda>a b. rep_end a \<le> rep_start b \<or> tail_insert n a) rs"
    "\<forall>r \<in> set rs. rep_end r \<le> n"
  shows "sorted_wrt (\<lambda>a b. rep_end a \<le> rep_start b) (sort_key fst rs)"
  using assms
proof (induction rs)
  case (Cons a rs)
  have ins: "sorted_wrt (\<lambda>a b. rep_end a \<le> rep_start b) (insort_key fst a ys)"
    if "sorted_wrt (\<lambda>a b. rep_end a \<le> rep_start b) ys" "sorted (map fst ys)" "set ys \<subseteq> set rs" for ys
    using that
  proof (induction ys)
    case (Cons y ys)
    have ay: "rep_end a \<le> rep_start z \<or> tail_insert n a" if "z \<in> set (y # ys)" for z
      using that Cons.prems(3) \<open>sorted_wrt _ (a # rs)\<close> by auto
    have fin: "rep_end z \<le> n" if "z \<in> set (y # ys)" for z
      using that Cons.prems(3) \<open>\<forall>r \<in> set (a # rs). rep_end r \<le> n\<close> by auto
    show ?case
    proof (cases "fst a \<le> fst y")
      case True
      have "rep_end a \<le> rep_start z" if "z \<in> set (y # ys)" for z
        using ay[OF that] True Cons.prems(2) that by (auto simp: tail_insert_def)
      with True Cons.prems show ?thesis by auto
    next
      case False
      then have "tail_insert n a" using ay[of y] by fastforce
      then have "rep_end y \<le> rep_start a" using fin[of y] by (simp add: tail_insert_def)
      with False Cons show ?thesis by (auto simp: set_insort_key)
    qed
  qed simp
  from Cons have "sorted_wrt (\<lambda>a b. rep_end a \<le> rep_start b) (sort_key fst rs)" by simp
  then show ?case by (simp add: ins)
qed simp

section \<open>Context segments\<close>

lemma context_segments_ok:
  assumes "indices_increasing ctx" "\<forall>(oc, nc) \<in> set ctx. os \<le> oc \<and> ns \<le> nc"
    "os \<le> plen" "ns \<le> length new"
  shows "\<exists>segs. context_segments st plen new os ns ctx = Some segs \<and> reps_ok (st + plen) (st + os) segs"
  using assms
proof (induction st plen new os ns ctx rule: context_segments.induct)
  case (1 st plen new os ns)
  then show ?case by auto
next
  case (2 st plen new os ns oc nc ctx)
  show ?case
  proof (cases "plen \<le> oc \<or> length new \<le> nc")
    case True
    with "2.IH"(1) "2.prems" show ?thesis by (auto simp: indices_increasing_def)
  next
    case False
    have inc: "indices_increasing ctx" "\<forall>(oc', nc') \<in> set ctx. oc + 1 \<le> oc' \<and> nc + 1 \<le> nc'"
      using "2.prems"(1) by (auto simp: indices_increasing_def)
    have le: "os \<le> oc" "ns \<le> nc" "oc + 1 \<le> plen" "nc + 1 \<le> length new" using "2.prems"(2) False by auto
    obtain segs where segs: "context_segments st plen new (oc + 1) (nc + 1) ctx = Some segs"
      "reps_ok (st + plen) (st + (oc + 1)) segs"
      using 2 False inc le by (cases "os \<noteq> oc \<or> ns \<noteq> nc") auto
    then have "reps_ok (st + plen) (st + oc) segs" "reps_ok (st + plen) (st + os) segs"
      using le by (auto intro: reps_ok_mono)
    with False le segs show ?thesis by auto
  qed
qed

section \<open>Collecting\<close>

definition collected_ok :: "nat \<Rightarrow> nat \<Rightarrow> replacement list \<Rightarrow> bool" where
  "collected_ok n i rs \<longleftrightarrow>
     sorted_wrt (\<lambda>a b. rep_end a \<le> rep_start b \<or> tail_insert n a) rs \<and>
     (\<forall>r \<in> set rs. i \<le> rep_start r \<and> rep_end r \<le> n)"

lemma locate_chunk_Some:
  assumes "locate_chunk ls c i m = (Some st, pattern, new)" "i \<le> length ls"
  shows "st + length pattern \<le> length ls" "m = PreserveLineEndings \<Longrightarrow> i \<le> st"
    "seek_sequence ls pattern i (is_end_of_file c) m = Some st"
  using assms seek_preserve_bound[OF _ assms(2)] seek_preserve_forward
  by (auto simp: locate_chunk_def Let_def split: if_splits)

lemma chunk_replacements_cases:
  assumes "chunk_replacements ls path m i c = Inr (rs, j)" "i \<le> length ls"
  obtains (insert) k where "rs = [(insertion_idx ls m, 0, new_lines c)]" "j = k" "k \<le> length ls"
      "m = PreserveLineEndings \<Longrightarrow> i \<le> k"
  | (normalize) st new and pattern :: "rust_str list" where "m = NormalizeToLf" "rs = [(st, length pattern, new)]"
      "j = st + length pattern" "st + length pattern \<le> length ls"
  | (preserve) st new and pattern :: "rust_str list" where "m = PreserveLineEndings"
      "context_segments st (length pattern) new 0 0 (context_line_indices c) = Some rs"
      "j = st + length pattern" "st + length pattern \<le> length ls" "i \<le> st"
proof -
  from assms(1) obtain k where k: "(case change_context c of None \<Rightarrow> Ok i
      | Some l \<Rightarrow> (case seek_sequence ls [l] i False m of Some idx \<Rightarrow> Ok (idx + 1)
          | None \<Rightarrow> Err (ComputeReplacements (msg_no_context l path)))) = Inr k"
    and rest: "(if old_lines c = [] then Ok ([(insertion_idx ls m, 0, new_lines c)], k)
       else (case locate_chunk ls c k m of
           (Some start_idx, pattern, new_slice) \<Rightarrow>
             (case m of NormalizeToLf \<Rightarrow> Ok ([(start_idx, length pattern, new_slice)], start_idx + length pattern)
              | PreserveLineEndings \<Rightarrow>
                  (case context_segments start_idx (length pattern) new_slice 0 0 (context_line_indices c) of
                     None \<Rightarrow> Err Panicked | Some segs \<Rightarrow> Ok (segs, start_idx + length pattern)))
         | (None, _, _) \<Rightarrow> Err (ComputeReplacements (msg_no_lines_found path (old_lines c))))) = Inr (rs, j)"
    unfolding chunk_replacements_def bind_result_eq_Inr by blast
  have kk: "k \<le> length ls" "m = PreserveLineEndings \<Longrightarrow> i \<le> k"
    using k assms(2) seek_sequence_bounds(2)[of ls _ i False m] seek_preserve_forward[of ls _ i False]
    by (fastforce split: option.splits)+
  show thesis
  proof (cases "old_lines c = []")
    case True
    with rest kk show thesis by (auto intro: insert)
  next
    case False
    obtain f pattern new where loc: "locate_chunk ls c k m = (f, pattern, new)"
      by (cases "locate_chunk ls c k m")
    with rest False obtain st where st: "f = Some st" by (cases f) auto
    note bounds = locate_chunk_Some[OF loc[unfolded st] kk(1)]
    show thesis
    proof (cases m)
      case NormalizeToLf
      with rest False loc st have "rs = [(st, length pattern, new)]" "j = st + length pattern" by auto
      from NormalizeToLf this bounds(1) show thesis by (rule normalize)
    next
      case PreserveLineEndings
      with bounds(2) kk(2) have "i \<le> st" by simp
      with rest False loc st bounds(1) PreserveLineEndings show thesis
        by (auto split: option.splits intro: preserve)
    qed
  qed
qed

lemma chunk_replacements_no_panic:
  assumes "chunk_wf c"
  shows "chunk_replacements ls path m i c \<noteq> Inl Panicked"
proof -
  have "\<forall>(oc, nc) \<in> set (context_line_indices c). 0 \<le> oc \<and> 0 \<le> nc" by auto
  then have never: "(context_segments st k new 0 0 (context_line_indices c) = None) = False" for st k new
    using context_segments_ok[of "context_line_indices c" 0 0 k new st] assms by (auto simp: chunk_wf_def)
  show ?thesis
    by (auto simp: never chunk_replacements_def bind_result_def split: option.splits sum.splits
        prod.splits update_file_mode.splits if_splits)
qed

lemma collect_no_panic:
  assumes "\<forall>c \<in> set chunks. chunk_wf c"
  shows "collect_replacements ls path m i chunks \<noteq> Inl Panicked"
  using assms
proof (induction chunks arbitrary: i)
  case (Cons c chunks)
  then have "chunk_replacements ls path m i c \<noteq> Inl Panicked"
    by (simp add: chunk_replacements_no_panic)
  moreover have "collect_replacements ls path m j chunks \<noteq> Inl Panicked" for j
    using Cons by simp
  ultimately show ?case
    by (auto simp: bind_result_def split: sum.splits prod.splits)
qed simp

lemma chunk_preserve_ok:
  assumes res: "chunk_replacements ls path m i c = Inr (rs, j)" and i: "i \<le> length ls"
    and wf: "chunk_wf c" and m: "m = PreserveLineEndings"
  shows "j \<le> length ls \<and> i \<le> j \<and>
    (\<forall>r \<in> set rs. i \<le> rep_start r \<and> rep_end r \<le> length ls \<and> (rep_end r \<le> j \<or> tail_insert (length ls) r)) \<and>
    sorted_wrt (\<lambda>a b. rep_end a \<le> rep_start b \<or> tail_insert (length ls) a) rs"
  using res i
proof (cases rule: chunk_replacements_cases)
  case (insert k)
  with i m show ?thesis by (simp add: insertion_idx_def tail_insert_def)
next
  case (normalize st new pattern)
  with m show ?thesis by simp
next
  case (preserve st new pattern)
  have "\<forall>(oc, nc) \<in> set (context_line_indices c). 0 \<le> oc \<and> 0 \<le> nc" by auto
  from context_segments_ok[OF _ this, of "length pattern" new st] preserve(2) wf
  have ok: "reps_ok (st + length pattern) st rs" by (auto simp: chunk_wf_def)
  have "sorted_wrt (\<lambda>a b. rep_end a \<le> rep_start b \<or> tail_insert (length ls) a) rs"
    using reps_okD(1)[OF ok] by (rule sorted_wrt_mono_rel[rotated]) simp
  with reps_okD(2)[OF ok] preserve show ?thesis by fastforce
qed

lemma collect_preserve_ok:
  assumes "collect_replacements ls path PreserveLineEndings i chunks = Inr rs" "i \<le> length ls"
    "\<forall>c \<in> set chunks. chunk_wf c"
  shows "collected_ok (length ls) i rs"
  using assms
proof (induction chunks arbitrary: i rs)
  case (Cons c chunks)
  from Cons.prems(1) obtain rs1 j rs2 where 1: "chunk_replacements ls path PreserveLineEndings i c = Inr (rs1, j)"
    and 2: "collect_replacements ls path PreserveLineEndings j chunks = Inr rs2" and rs: "rs = rs1 @ rs2"
    by (auto simp: bind_result_eq_Inr)
  have c: "j \<le> length ls \<and> i \<le> j \<and>
    (\<forall>r \<in> set rs1. i \<le> rep_start r \<and> rep_end r \<le> length ls \<and> (rep_end r \<le> j \<or> tail_insert (length ls) r)) \<and>
    sorted_wrt (\<lambda>a b. rep_end a \<le> rep_start b \<or> tail_insert (length ls) a) rs1"
    using chunk_preserve_ok[OF 1 Cons.prems(2)] Cons.prems(3) by simp
  have "collected_ok (length ls) j rs2" using Cons.IH[OF 2] Cons.prems c by simp
  with c show ?case
    unfolding rs collected_ok_def sorted_wrt_append by fastforce
qed (simp add: collected_ok_def)

lemma compute_preserve_ok:
  assumes "compute_replacements ls path chunks PreserveLineEndings = Inr rs" "\<forall>c \<in> set chunks. chunk_wf c"
  shows "reps_ok (length ls) 0 rs"
proof -
  from assms obtain rs0 where rs0: "collect_replacements ls path PreserveLineEndings 0 chunks = Inr rs0"
    and rs: "rs = sort_key fst rs0"
    by (auto simp: compute_replacements_def bind_result_eq_Inr)
  from collect_preserve_ok[OF rs0 _ assms(2)] have ok: "collected_ok (length ls) 0 rs0" by simp
  then show ?thesis
    unfolding rs by (intro reps_okI sorted_key_sorted_wrt[of "length ls"]) (auto simp: collected_ok_def)
qed

section \<open>The historical mode\<close>

lemma chunk_starts:
  assumes "chunk_replacements ls path m i c = Inr (rs, j)" "i \<le> length ls" "m = NormalizeToLf"
  shows "j \<le> length ls \<and> (\<forall>r \<in> set rs. rep_start r \<le> length ls)"
  using assms by (auto elim!: chunk_replacements_cases simp: insertion_idx_def)

lemma collect_starts:
  assumes "collect_replacements ls path NormalizeToLf i chunks = Inr rs" "i \<le> length ls"
  shows "\<forall>r \<in> set rs. rep_start r \<le> length ls"
  using assms
proof (induction chunks arbitrary: i rs)
  case (Cons c chunks)
  from Cons.prems(1) obtain rs1 j rs2 where 1: "chunk_replacements ls path NormalizeToLf i c = Inr (rs1, j)"
    and 2: "collect_replacements ls path NormalizeToLf j chunks = Inr rs2" and rs: "rs = rs1 @ rs2"
    by (auto simp: bind_result_eq_Inr)
  from chunk_starts[OF 1 Cons.prems(2)] Cons.IH[OF 2] show ?case by (auto simp: rs)
qed simp

lemma remove_lines_eq: "s \<le> length ls \<Longrightarrow> remove_lines k s ls = take s ls @ drop (s + k) ls"
proof (induction k arbitrary: ls)
  case (Suc k)
  show ?case
  proof (cases "s < length ls")
    case True
    with Suc.IH[of "take s ls @ drop (Suc s) ls"] show ?thesis by (simp add: add.commute)
  next
    case False
    with Suc show ?thesis by simp
  qed
qed simp

lemma insert_lines_eq: "i \<le> length ls \<Longrightarrow> insert_lines i new ls = Some (take i ls @ new @ drop i ls)"
  by (induction new arbitrary: i ls) (simp_all add: take_Suc_conv_app_nth)

lemma apply_one_eq:
  "s \<le> length ls \<Longrightarrow> apply_one (s, k, new) ls = Some (take s ls @ new @ drop (s + k) ls)"
  by (simp add: apply_one_def remove_lines_eq insert_lines_eq)

lemma apply_replacements_snoc:
  "apply_replacements ls (rs @ [r]) = Option.bind (apply_one r ls) (\<lambda>ls'. apply_replacements ls' rs)"
proof -
  have "fold (\<lambda>r acc. Option.bind acc (apply_one r)) xs None = None" for xs
    by (induction xs) simp_all
  then show ?thesis by (cases "apply_one r ls") (simp_all add: apply_replacements_def)
qed

lemma apply_replacements_defined:
  "sorted (map fst rs) \<Longrightarrow> \<forall>r \<in> set rs. fst r \<le> length ls \<Longrightarrow> apply_replacements ls rs \<noteq> None"
proof (induction rs arbitrary: ls rule: rev_induct)
  case Nil
  then show ?case by (simp add: apply_replacements_def)
next
  case (snoc r rs)
  obtain s k new where r: "r = (s, k, new)" by (cases r)
  let ?ls = "take s ls @ new @ drop (s + k) ls"
  have s: "s \<le> length ls" using snoc.prems r by simp
  have "\<forall>q \<in> set rs. fst q \<le> length ?ls" using snoc.prems r s by (fastforce simp: sorted_append)
  with snoc have "apply_replacements ?ls rs \<noteq> None" by (simp add: sorted_append)
  then show ?case by (simp add: apply_replacements_snoc r apply_one_eq[OF s])
qed

section \<open>Both ways of applying agree with the abstract splice\<close>

lemma splice_at_snoc:
  assumes "reps_ok s i rs" "s - i \<le> length xs"
  shows "splice_at xs i (rs @ [(s, k, new)]) = splice_at (take (s - i) xs @ new @ drop (s - i + k) xs) i rs"
  using assms
proof (induction rs arbitrary: xs i)
  case (Cons r rs)
  obtain s1 k1 n1 where r: "r = (s1, k1, n1)" by (cases r)
  with Cons.prems have le: "i \<le> s1" "reps_ok s (s1 + k1) rs" "s1 + k1 \<le> s"
    using reps_ok_le[of s "s1 + k1" rs] by auto
  let ?d = "s1 - i + k1" let ?ys = "take (s - i) xs @ new @ drop (s - i + k) xs"
  have "s - (s1 + k1) \<le> length (drop ?d xs)" using Cons.prems(2) le by simp
  from Cons.IH[OF le(2) this] r have
    "splice_at xs i ((r # rs) @ [(s, k, new)]) = take (s1 - i) xs @ n1 @
       splice_at (take (s - (s1 + k1)) (drop ?d xs) @ new @ drop (s - (s1 + k1) + k) (drop ?d xs)) (s1 + k1) rs"
    by simp
  moreover have "take (s1 - i) ?ys = take (s1 - i) xs" using Cons.prems(2) le by simp
  moreover have "drop ?d ?ys = take (s - (s1 + k1)) (drop ?d xs) @ new @ drop (s - (s1 + k1) + k) (drop ?d xs)"
  proof -
    have a: "?d \<le> length (take (s - i) xs)" "s - i - ?d = s - (s1 + k1)" "s - (s1 + k1) + k + ?d = s - i + k"
      using Cons.prems(2) le by auto
    have "drop ?d ?ys = drop ?d (take (s - i) xs) @ new @ drop (s - i + k) xs" using a(1) by simp
    then show ?thesis unfolding drop_take a(2) drop_drop a(3) .
  qed
  ultimately show ?case using r by simp
qed simp

lemma reps_ok_snoc:
  "reps_ok n i (rs @ [(s, k, new)]) \<longleftrightarrow> reps_ok s i rs \<and> s + k \<le> n"
  by (induction rs arbitrary: i) (auto simp: add.commute)

lemma apply_replacements_eq:
  "reps_ok (length ls) 0 rs \<Longrightarrow> apply_replacements ls rs = Some (splice_at ls 0 rs)"
proof (induction rs arbitrary: ls rule: rev_induct)
  case Nil
  then show ?case by (simp add: apply_replacements_def)
next
  case (snoc r rs)
  obtain s k new where r: "r = (s, k, new)" by (cases r)
  with snoc.prems have ok: "reps_ok s 0 rs" "s + k \<le> length ls" by (simp_all add: reps_ok_snoc)
  let ?ls = "take s ls @ new @ drop (s + k) ls"
  have "reps_ok (length ?ls) 0 rs"
    using ok reps_okD[OF ok(1)] by (intro reps_okI) fastforce+
  with snoc.IH ok show ?case
    by (simp add: apply_replacements_snoc r apply_one_eq splice_at_snoc)
qed

section \<open>Context lines survive\<close>

lemma splice_at_skip:
  "reps_ok n (Suc i) rs \<Longrightarrow> splice_at (x # xs) i rs = x # splice_at xs (Suc i) rs"
proof (cases rs)
  case (Cons r rs')
  assume ok: "reps_ok n (Suc i) rs"
  obtain s k new where r: "r = (s, k, new)" by (cases r)
  from ok r Cons have "i < s" by simp
  then have "s - i = Suc (s - Suc i)" by (simp add: Suc_diff_Suc)
  then show ?thesis using Cons r by simp
qed simp

lemma map_nth_drop: "map ((!) xs) [n ..< length xs] = drop n xs"
  by (rule nth_equalityI) simp_all

definition merged_line :: "'a list \<Rightarrow> 'a list \<Rightarrow> (nat \<times> nat) list \<Rightarrow> nat \<Rightarrow> 'a" where
  "merged_line olds news ctx j =
     (case map_of (map prod.swap ctx) j of Some i \<Rightarrow> olds ! i | None \<Rightarrow> news ! j)"

lemma context_segments_splice:
  assumes "indices_increasing ctx"
    "\<forall>(oc, nc) \<in> set ctx. os \<le> oc \<and> ns \<le> nc \<and> oc < length olds \<and> nc < length new"
    "os \<le> length olds" "ns \<le> length new"
    "context_segments st (length olds) new os ns ctx = Some segs"
  shows "splice_at (drop os olds) (st + os) segs = map (merged_line olds new ctx) [ns ..< length new]"
  using assms
proof (induction ctx arbitrary: os ns segs)
  case Nil
  have "merged_line olds new [] = (!) new" by (simp add: fun_eq_iff merged_line_def)
  with Nil show ?case by (auto simp: map_nth_drop split: if_splits)
next
  case (Cons p ctx)
  obtain oc nc where p: "p = (oc, nc)" by (cases p)
  have b: "os \<le> oc" "ns \<le> nc" "oc < length olds" "nc < length new" using Cons.prems(2) p by auto
  have inc: "indices_increasing ctx" "\<forall>(oc', nc') \<in> set ctx. Suc oc \<le> oc' \<and> Suc nc \<le> nc' \<and>
      oc' < length olds \<and> nc' < length new"
    using Cons.prems(1,2) p by (auto simp: indices_increasing_def)
  obtain segs' where segs': "context_segments st (length olds) new (Suc oc) (Suc nc) ctx = Some segs'"
    "segs = (if os \<noteq> oc \<or> ns \<noteq> nc
       then (st + os, oc - os, take (nc - ns) (drop ns new)) # segs' else segs')"
    using Cons.prems(5) p b by (auto split: if_splits)
  have ok: "reps_ok (st + length olds) (Suc (st + oc)) segs'"
    using context_segments_ok[OF inc(1), of "Suc oc" "Suc nc" "length olds" new st] inc(2) b segs'(1)
    by fastforce
  have rest: "splice_at (drop oc olds) (st + oc) segs' =
      olds ! oc # map (merged_line olds new ctx) [Suc nc ..< length new]"
    using Cons.IH[OF inc _ _ segs'(1)] b splice_at_skip[OF ok] by (simp add: Cons_nth_drop_Suc[symmetric])
  have lookup: "map_of (map prod.swap ctx) j = None" if "j \<le> nc" for j
    using inc(2) that by (force simp: map_of_eq_None_iff)
  have "[ns ..< length new] = [ns ..< nc] @ nc # [Suc nc ..< length new]"
    using b upt_add_eq_append[of ns nc "length new - nc"] by (simp add: upt_conv_Cons)
  moreover have "map (merged_line olds new (p # ctx)) [ns ..< nc] = take (nc - ns) (drop ns new)"
  proof (rule nth_equalityI)
    show "length (map (merged_line olds new (p # ctx)) [ns ..< nc]) = length (take (nc - ns) (drop ns new))"
      using b by simp
    show "map (merged_line olds new (p # ctx)) [ns ..< nc] ! i = take (nc - ns) (drop ns new) ! i"
      if "i < length (map (merged_line olds new (p # ctx)) [ns ..< nc])" for i
      using that b lookup[of "ns + i"] by (auto simp: p merged_line_def)
  qed
  moreover have "merged_line olds new (p # ctx) nc = olds ! oc" by (simp add: p merged_line_def)
  moreover have "map (merged_line olds new (p # ctx)) [Suc nc ..< length new] =
      map (merged_line olds new ctx) [Suc nc ..< length new]"
    by (simp add: p merged_line_def)
  ultimately show ?case using segs'(2) rest b by auto
qed

section \<open>No panics\<close>

text \<open>
  Updating a file never panics: for chunks as the parser produces them no index underflows, no
  slice is inverted, no insertion is out of range and the ordering assertion holds, in both
  modes and for every file content.
\<close>

lemma derive_no_panic:
  assumes "\<forall>c \<in> set chunks. chunk_wf c"
  shows "derive_new_contents contents path chunks m \<noteq> Inl Panicked"
proof (cases m)
  case NormalizeToLf
  let ?ls = "let ls = split_on newline contents in if last_is_empty ls then butlast ls else ls"
  have "apply_replacements ?ls rs \<noteq> None"
    if computed: "compute_replacements ?ls path chunks NormalizeToLf = Inr rs" for rs
  proof -
    obtain rs0 where rs0: "collect_replacements ?ls path NormalizeToLf 0 chunks = Inr rs0" "rs = sort_key fst rs0"
      using computed by (auto simp: compute_replacements_def bind_result_eq_Inr)
    show ?thesis using collect_starts[OF rs0(1)] rs0(2) by (intro apply_replacements_defined) auto
  qed
  moreover have "compute_replacements ?ls path chunks NormalizeToLf \<noteq> Inl Panicked"
    using collect_no_panic[OF assms, of ?ls path NormalizeToLf 0]
    by (auto simp: compute_replacements_def bind_result_def split: sum.splits)
  ultimately show ?thesis
    unfolding derive_new_contents_def NormalizeToLf
    by (auto simp: Let_def bind_result_def split: sum.splits option.splits if_splits)
next
  case PreserveLineEndings
  let ?f = "parse_source contents"
  have "apply_source_replacements ?f rs \<noteq> None"
    if "compute_replacements (line_texts ?f) path chunks PreserveLineEndings = Inr rs" for rs
    using compute_preserve_ok[OF that assms] apply_source_texts[of ?f rs]
    by (auto simp: line_texts_def)
  moreover have "compute_replacements (line_texts ?f) path chunks PreserveLineEndings \<noteq> Inl Panicked"
    using collect_no_panic[OF assms, of "line_texts ?f" path PreserveLineEndings 0]
    by (auto simp: compute_replacements_def bind_result_def split: sum.splits)
  ultimately show ?thesis
    unfolding derive_new_contents_def PreserveLineEndings
    by (auto simp: Let_def bind_result_def split: sum.splits option.splits)
qed

section \<open>Properties\<close>

text \<open>
  The in-place routine that removes and inserts lines in descending order computes the
  abstract splice of the replacements whenever they are ordered and disjoint.
\<close>

theorem apply_replacements_is_splice:
  assumes "reps_ok (length ls) 0 rs"
  shows "apply_replacements ls rs = Some (splice_at ls 0 rs)"
  using assms by (rule apply_replacements_eq)

theorem apply_replacements_is_splice_witness:
  "reps_ok (length [''a'', ''b'', ''c'']) 0 [(0, 1, [''x'', ''y'']), (2, 0, [''z''])] \<and>
   apply_replacements [''a'', ''b'', ''c''] [(0, 1, [''x'', ''y'']), (2, 0, [''z''])] =
     Some [''x'', ''y'', ''b'', ''z'', ''c'']"
  using apply_replacements_is_splice[of "[''a'', ''b'', ''c'']" "[(0, 1, [''x'', ''y'']), (2, 0, [''z''])]"]
  by (simp add: numeral_2_eq_2)

text \<open>
  In the mode that preserves line endings the replacements of well-formed chunks are sorted,
  disjoint and inside the file, whatever the file contains and however the chunks are ordered.
\<close>

theorem compute_replacements_disjoint:
  assumes "\<forall>c \<in> set chunks. chunk_wf c"
    "compute_replacements original_lines path chunks PreserveLineEndings = Inr rs"
  shows "reps_ok (length original_lines) 0 rs"
  using assms(2,1) by (rule compute_preserve_ok)

theorem compute_replacements_disjoint_witness:
  "compute_replacements [''x'', ''y''] ''f'' (hunk_chunks (hd (arg_hunks sample_args))) PreserveLineEndings
     = Inr [(1, 1, [''z''])] \<and> reps_ok (length [''x'', ''y'']) 0 [(1, 1, [''z''])]"
proof -
  let ?cs = "hunk_chunks (hd (arg_hunks sample_args))"
  have wf: "\<forall>c \<in> set ?cs. chunk_wf c" by (simp add: sample_args_def chunk_wf_def indices_increasing_def)
  have eq: "compute_replacements [''x'', ''y''] ''f'' ?cs PreserveLineEndings = Inr [(1, 1, [''z''])]"
    by code_simp
  from compute_replacements_disjoint[OF wf eq] eq show ?thesis by simp
qed



end
