(* ===== verification/Apply_Hunks_Props.thy ===== *)
theory Apply_Hunks_Props
  imports Apply_Hunks File_Update_Props
begin

text \<open>
  What the delta of a patch application says about the file system. The lemmas are proved once
  for every file system that keeps \<open>executor_fs_contract\<close>, and reach the properties through the
  interpretation on \<open>DirectFileSystem\<close>.
\<close>

section \<open>The meaning of a delta\<close>

type_synonym 'p file_map = "'p \<Rightarrow> rust_str option"

definition replay_change :: "'p applied_patch_change \<Rightarrow> 'p file_map \<Rightarrow> 'p file_map" where
  "replay_change c m =
     (case file_change c of
        Add content _ \<Rightarrow> m(change_path c \<mapsto> content)
      | Delete _ \<Rightarrow> m(change_path c := None)
      | Update None _ _ new \<Rightarrow> m(change_path c \<mapsto> new)
      | Update (Some dest) _ _ new \<Rightarrow> (m(dest \<mapsto> new))(change_path c := None))"

definition undo_change :: "'p applied_patch_change \<Rightarrow> 'p file_map \<Rightarrow> 'p file_map" where
  "undo_change c m =
     (case file_change c of
        Add _ overwritten \<Rightarrow> m(change_path c := overwritten)
      | Delete content \<Rightarrow> m(change_path c \<mapsto> content)
      | Update None old _ _ \<Rightarrow> m(change_path c \<mapsto> old)
      | Update (Some dest) old overwritten _ \<Rightarrow> (m(dest := overwritten))(change_path c \<mapsto> old))"

text \<open>The contents a change records as replaced are the contents it replaced.\<close>

definition records :: "'p file_map \<Rightarrow> 'p applied_patch_change \<Rightarrow> bool" where
  "records m c =
     (case file_change c of
        Add _ overwritten \<Rightarrow> m (change_path c) = overwritten
      | Delete content \<Rightarrow> m (change_path c) = Some content
      | Update None old _ _ \<Rightarrow> m (change_path c) = Some old
      | Update (Some dest) old overwritten _ \<Rightarrow>
          m (change_path c) = Some old \<and> m dest = overwritten \<and> dest \<noteq> change_path c)"

fun delta_run :: "'p applied_patch_change list \<Rightarrow> 'p file_map \<Rightarrow> 'p file_map \<Rightarrow> bool" where
  "delta_run [] m m' \<longleftrightarrow> m = m'"
| "delta_run (c # cs) m m' \<longleftrightarrow> records m c \<and> delta_run cs (replay_change c m) m'"

lemma undo_replay: "records m c \<Longrightarrow> undo_change c (replay_change c m) = m"
  by (auto simp: records_def undo_change_def replay_change_def fun_eq_iff
      split: applied_patch_file_change.splits option.splits)

lemma delta_run_replay: "delta_run cs m m' \<Longrightarrow> fold replay_change cs m = m'"
  by (induction cs arbitrary: m) auto

lemma delta_run_undo: "delta_run cs m m' \<Longrightarrow> foldr undo_change cs m' = m"
  by (induction cs arbitrary: m) (auto simp: undo_replay)

lemma delta_run_append:
  "delta_run (cs @ ds) m m' \<longleftrightarrow> (\<exists>m1. delta_run cs m m1 \<and> delta_run ds m1 m')"
  by (induction cs arbitrary: m) auto

lemma delta_run_snoc:
  "delta_run cs m m1 \<Longrightarrow> records m1 c \<Longrightarrow> replay_change c m1 = m' \<Longrightarrow> delta_run (cs @ [c]) m m'"
  by (auto simp: delta_run_append)

text \<open>No hunk renames a file to itself.\<close>

definition no_self_move :: "'p path_ops \<Rightarrow> hunk \<Rightarrow> bool" where
  "no_self_move P h =
     (case h of UpdateFile path (Some dest) _ \<Rightarrow> join_path P path \<noteq> join_path P dest | _ \<Rightarrow> True)"

section \<open>The invariant of the accumulated delta\<close>

lemma note_existing_iff:
  "note_existing_path_delta_support fs w p ex \<longleftrightarrow> ex \<and> plain_path fs w p"
  by (auto simp: note_existing_path_delta_support_def plain_path_def split: sum.splits)

lemma read_optional_cases:
  "read_optional_file_text_for_delta fs w p ex = (ov, ex') \<Longrightarrow> ex' \<Longrightarrow>
   ex \<and> plain_path fs w p \<and>
   (read_file_text fs w p = Inr (the ov) \<and> ov \<noteq> None \<or>
    (\<exists>e. read_file_text fs w p = Inl e \<and> err_kind e = NotFound \<and> ov = None))"
  by (auto simp: read_optional_file_text_for_delta_def Let_def note_existing_iff split: sum.splits if_splits)

context executor_fs_contract
begin

definition delta_inv :: "'p file_map \<Rightarrow> ('w, 'p) apply_state \<Rightarrow> bool" where
  "delta_inv m0 st \<longleftrightarrow> good (world st) \<and>
     (exact (delta st) \<longrightarrow> delta_run (changes (delta st)) m0 (files (world st)))"

lemma read_optional_files:
  "good w \<Longrightarrow> read_optional_file_text_for_delta fs w p ex = (ov, True) \<Longrightarrow>
     ex \<and> plain_path fs w p \<and> files w p = ov"
  using read_optional_cases[of fs w p ex ov True] read_ok read_missing by fastforce

lemma retry_good: "good w \<Longrightarrow> good (snd (write_file_with_missing_parent_retry fs P w p c))"
  using write_good create_good
  by (auto simp: write_file_with_missing_parent_retry_def split: prod.splits sum.splits option.splits)
    (metis snd_conv)+

lemma retry_ok:
  assumes "good w" "plain_path fs w p" "write_file_with_missing_parent_retry fs P w p c = (Inr u, w')"
  shows "files w' = (files w)(p \<mapsto> c)"
    "files w q \<noteq> None \<Longrightarrow> plain_path fs w q \<Longrightarrow> plain_path fs w' q"
proof -
  obtain r1 w1 where 1: "write_file fs w p c = (r1, w1)" by (cases "write_file fs w p c")
  have g1: "good w1" using write_good[OF assms(1), of p c] 1 by simp
  have "files w' = (files w)(p \<mapsto> c) \<and>
    (files w q \<noteq> None \<longrightarrow> plain_path fs w q \<longrightarrow> plain_path fs w' q)"
  proof (cases r1)
    case (Inr u1)
    then have "w' = w1" using assms(3) 1 by (simp add: write_file_with_missing_parent_retry_def)
    then show ?thesis using write_ok[OF assms(1,2), of c u1 w1] write_keeps[OF assms(1), of q p c] 1 Inr by simp
  next
    case (Inl e)
    then have nf: "err_kind e = NotFound"
      using assms(3) 1 by (auto simp: write_file_with_missing_parent_retry_def split: if_splits)
    note m1 = write_missing[OF assms(1) 1[unfolded Inl] nf]
    define w2 where "w2 = (case path_parent P p of Some d \<Rightarrow> snd (create_directory fs w1 d) | None \<Rightarrow> w1)"
    have g2: "good w2" and f2: "files w2 = files w" and p2: "plain_path fs w2 p"
      and q2: "files w q \<noteq> None \<longrightarrow> plain_path fs w q \<longrightarrow> plain_path fs w2 q"
      using g1 m1 assms(2) create_good[OF g1] create_files[OF g1] create_keeps[OF g1]
      by (auto simp: w2_def split: option.splits)
    have "\<exists>u'. write_file fs w2 p c = (Inr u', w')"
      using assms(3) 1 Inl nf
      by (auto simp: write_file_with_missing_parent_retry_def w2_def with_context_def
          split: prod.splits sum.splits option.splits)
    then obtain u' where 3: "write_file fs w2 p c = (Inr u', w')" by blast
    show ?thesis
      using write_ok[OF g2 p2 3] write_keeps[OF g2, of q p c] 3 f2 q2 by auto
  qed
  then show "files w' = (files w)(p \<mapsto> c)"
    "files w q \<noteq> None \<Longrightarrow> plain_path fs w q \<Longrightarrow> plain_path fs w' q" by auto
qed

lemma add_inv:
  assumes "delta_inv m0 st" "apply_add_file fs P a p c st = (r, st')"
  shows "delta_inv m0 st'"
proof -
  obtain ov ex where o: "read_optional_file_text_for_delta fs (world st) p (exact (delta st)) = (ov, ex)" by fastforce
  obtain rw w' where w: "write_file_with_missing_parent_retry fs P (world st) p c = (rw, w')" by fastforce
  have g: "good (world st)" "good w'"
    using assms(1) retry_good[of "world st" p c] w by (auto simp: delta_inv_def)
  have "delta_run (changes (delta st) @ [mk_change p (Add c ov)]) m0 (files w')" if "ex" "rw = Inr u" for u
    using assms(1) read_optional_files[OF g(1), of p "exact (delta st)" ov] retry_ok(1)[OF g(1), of p c u w'] w o that
    by (intro delta_run_snoc[where ?m1.0 = "files (world st)"]) (auto simp: delta_inv_def records_def replay_change_def)
  with assms(2) o w g show ?thesis
    by (auto simp: apply_add_file_def try_write_def delta_inv_def push_change_def split: sum.splits)
qed

lemma remove_inv:
  assumes g: "good (world st)" and ex: "exact (delta st) \<Longrightarrow> plain_path fs (world st) p \<and>
      files (world st) p = expected \<and> delta_run (changes (delta st)) m0 (files (world st))"
    and k: "\<And>w r' st'. good w \<Longrightarrow>
      (exact (delta st) \<Longrightarrow> files w = (files (world st))(p := None)) \<Longrightarrow>
      k (st\<lparr>world := w\<rparr>) = (r', st') \<Longrightarrow> delta_inv m0 st'"
    and run: "remove_checked fs ctx p expected st k = (r, st')"
  shows "delta_inv m0 st'"
proof -
  obtain rr w where w: "remove_path fs (world st) p = (rr, w)" by fastforce
  have gw: "good w" using remove_good[OF g, of p] w by simp
  show ?thesis
  proof (cases "with_context ctx (ensure_not_directory fs (world st) p)")
    case (Inl e)
    then show ?thesis using run g ex by (auto simp: remove_checked_def delta_inv_def)
  next
    case (Inr u)
    show ?thesis
    proof (cases rr)
      case (Inr u')
      then show ?thesis using k[OF gw] run w \<open>with_context ctx _ = Inr u\<close> remove_ok[OF g] ex
        by (auto simp: remove_checked_def)
    next
      case (Inl e)
      have "files w = files (world st)"
        if e: "exact (delta st)" and free: "remove_failure_was_side_effect_free fs w p expected"
      proof
        fix q
        have "files w p = expected"
          using free remove_err_read[OF g, of p e w] ex[OF e] w Inl
          by (auto simp: remove_failure_was_side_effect_free_def split: option.splits sum.splits)
        then show "files w q = files (world st) q"
          using remove_err[OF g, of p e w q] ex[OF e] w Inl by (cases "q = p") auto
      qed
      then show ?thesis using run w Inl \<open>with_context ctx _ = Inr u\<close> ex gw
        by (auto simp: remove_checked_def delta_inv_def)
    qed
  qed
qed

lemma delete_inv:
  assumes "delta_inv m0 st" "apply_delete_file fs P a p st = (r, st')"
  shows "delta_inv m0 st'"
proof -
  define dc where "dc = (case read_file_text fs (world st) p of Inr c \<Rightarrow> Some c | Inl _ \<Rightarrow> None)"
  define st1 where "st1 = set_exact (if dc = None then False
    else note_existing_path_delta_support fs (world st) p (exact (delta st))) st"
  have g: "good (world st1)" using assms(1) by (simp add: delta_inv_def st1_def)
  have ex: "plain_path fs (world st1) p \<and> files (world st1) p = dc \<and> dc \<noteq> None \<and>
      delta_run (changes (delta st1)) m0 (files (world st1))" if "exact (delta st1)"
    using that assms(1) read_ok[of "world st" p]
    by (auto simp: st1_def dc_def delta_inv_def note_existing_iff split: if_splits sum.splits)
  show ?thesis
  proof (rule remove_inv[OF g])
    show "remove_checked fs (''Failed to delete file '' @ native_path_string P p) p dc st1
        (\<lambda>st. (Ok (),
              (case dc of Some content \<Rightarrow> record_change p (Delete content) st | None \<Rightarrow> st)
                \<lparr>affected := (affected st)\<lparr>deleted := deleted (affected st) @ [a]\<rparr>\<rparr>)) = (r, st')"
      using assms(2) by (simp add: apply_delete_file_def Let_def dc_def st1_def)
  next
    show "exact (delta st1) \<Longrightarrow> plain_path fs (world st1) p \<and>
      files (world st1) p = dc \<and> delta_run (changes (delta st1)) m0 (files (world st1))"
      using ex by simp
  qed (use ex in \<open>auto simp: delta_inv_def push_change_def records_def replay_change_def
        intro!: delta_run_snoc split: option.splits\<close>)
qed

lemma move_inv:
  assumes g: "good (world st)" and ne: "dest \<noteq> p"
    and ex: "exact (delta st) \<Longrightarrow> plain_path fs (world st) p \<and> files (world st) p = Some orig \<and>
      delta_run (changes (delta st)) m0 (files (world st))"
    and run: "apply_move fs P a p dest orig new st = (r, st')"
  shows "delta_inv m0 st'"
proof -
  obtain ov ex' where o: "read_optional_file_text_for_delta fs (world st) dest (exact (delta st)) = (ov, ex')" by fastforce
  obtain rw w where w: "write_file_with_missing_parent_retry fs P (world st) dest new = (rw, w)" by fastforce
  have gw: "good w" using retry_good[OF g, of dest new] w by simp
  show ?thesis
  proof (cases rw)
    case (Inl e)
    then show ?thesis using run o w gw by (auto simp: apply_move_def try_write_def delta_inv_def)
  next
    case (Inr u)
    let ?st = "record_change dest (Add new ov) ((set_exact ex' st)\<lparr>world := w\<rparr>)"
    have facts: "exact (delta st)" "plain_path fs w p" "files w = (files (world st))(dest \<mapsto> new)"
      "files (world st) dest = ov" if ex'
      using that read_optional_files[OF g, of dest "exact (delta st)" ov] o ex
        retry_ok(1)[OF g _ w[unfolded Inr]] retry_ok(2)[OF g _ w[unfolded Inr], of p] by auto
    show ?thesis
    proof (rule remove_inv)
      show "good (world ?st)" using gw by simp
      show "plain_path fs (world ?st) p \<and> files (world ?st) p = Some orig \<and>
          delta_run (changes (delta ?st)) m0 (files (world ?st))" if "exact (delta ?st)"
        using that facts ex ne
        by (auto simp: push_change_def records_def replay_change_def intro!: delta_run_snoc)
      show "remove_checked fs (''Failed to remove original '' @ native_path_string P p) p (Some orig) ?st
          (\<lambda>st'. (Ok (), push_modified a (st'\<lparr>delta := (delta st')\<lparr>changes := (changes (delta st'))
             [length (changes (delta st)) := mk_change p (Update (Some dest) orig ov new)]\<rparr>\<rparr>))) = (r, st')"
        using run o w Inr by (simp add: apply_move_def try_write_def Let_def)
    qed (use facts ex ne in \<open>auto simp: delta_inv_def push_change_def records_def replay_change_def
        intro!: delta_run_snoc\<close>)
  qed
qed

lemma in_place_inv:
  assumes g: "good (world st)"
    and ex: "exact (delta st) \<Longrightarrow> plain_path fs (world st) p \<and> files (world st) p = Some orig \<and>
      delta_run (changes (delta st)) m0 (files (world st))"
    and run: "try_write (case write_file fs (world st) p new of (r, w) \<Rightarrow> (with_context ctx r, w)) st
        (\<lambda>st. (Ok (), push_modified a (record_change p (Update None orig None new) st))) = (r, st')"
  shows "delta_inv m0 st'"
proof -
  obtain rw w where w: "write_file fs (world st) p new = (rw, w)" by fastforce
  have gw: "good w" using write_good[OF g, of p new] w by simp
  show ?thesis
  proof (cases rw)
    case (Inl e)
    then show ?thesis using run w gw by (auto simp: try_write_def with_context_def delta_inv_def)
  next
    case (Inr u)
    have "delta_run (changes (delta st) @ [mk_change p (Update None orig None new)]) m0 (files w)"
      if "exact (delta st)"
      using ex[OF that] write_ok[OF g _ w[unfolded Inr]]
      by (intro delta_run_snoc[where ?m1.0 = "files (world st)"]) (auto simp: records_def replay_change_def)
    then show ?thesis using run w gw Inr by (auto simp: try_write_def with_context_def delta_inv_def push_change_def)
  qed
qed

lemma update_inv:
  assumes "delta_inv m0 st" "apply_update_file fs P m a p mv chunks st = (r, st')"
    and "\<And>d. mv = Some d \<Longrightarrow> join_path P d \<noteq> Inr p"
  shows "delta_inv m0 st'"
proof -
  define st1 where "st1 = set_exact (note_existing_path_delta_support fs (world st) p (exact (delta st))) st"
  have g: "good (world st1)" using assms(1) by (simp add: delta_inv_def st1_def)
  have inv1: "delta_inv m0 st1" using assms(1) by (auto simp: delta_inv_def st1_def note_existing_iff)
  show ?thesis
  proof (cases "derive_new_contents_from_chunks fs P (world st1) p chunks m")
    case (Inl e)
    then show ?thesis using assms(2) inv1 by (simp add: apply_update_file_def st1_def)
  next
    case (Inr on)
    note derived = Inr
    obtain orig new where on: "on = (orig, new)" by fastforce
    have rd: "read_file_text fs (world st1) p = Inr orig"
      using Inr on by (auto simp: derive_new_contents_from_chunks_def split: sum.splits update_error.splits)
    have ex: "plain_path fs (world st1) p \<and> files (world st1) p = Some orig \<and>
        delta_run (changes (delta st1)) m0 (files (world st1))" if "exact (delta st1)"
      using that inv1 read_ok[OF g _ rd] by (auto simp: st1_def note_existing_iff delta_inv_def)
    show ?thesis
    proof (cases mv)
      case (Some d)
      show ?thesis
      proof (cases "join_path P d")
        case (Inl e)
        then show ?thesis using assms(2) inv1 derived on Some
          by (simp add: apply_update_file_def st1_def)
      next
        case (Inr dest)
        have "apply_move fs P a p dest orig new st1 = (r, st')"
          using assms(2) derived on Some Inr by (simp add: apply_update_file_def st1_def)
        moreover have "dest \<noteq> p" using assms(3)[OF Some] Inr by auto
        ultimately show ?thesis using move_inv[OF g _ ex] by blast
      qed
    next
      case None
      show ?thesis
        by (rule in_place_inv[OF g ex, where r = r and a = a and new = new and ctx = "msg_write P p"])
          (use assms(2) Inr on None in \<open>simp_all add: apply_update_file_def st1_def\<close>)
    qed
  qed
qed

lemma hunk_inv:
  assumes "delta_inv m0 st" "apply_hunk fs P m h st = (r, st')" "no_self_move P h"
  shows "delta_inv m0 st'"
proof (cases "join_path P (hunk_source_path h)")
  case (Inl e)
  then show ?thesis using assms by (simp add: apply_hunk_def)
next
  case (Inr p)
  show ?thesis
  proof (cases h)
    case (AddFile path c)
    then show ?thesis using add_inv[OF assms(1)] assms(2) Inr by (simp add: apply_hunk_def)
  next
    case (DeleteFile path)
    then show ?thesis using delete_inv[OF assms(1)] assms(2) Inr by (simp add: apply_hunk_def)
  next
    case (UpdateFile path mv chunks)
    have "join_path P d \<noteq> Inr p" if "mv = Some d" for d
      using that assms(3) Inr UpdateFile by (auto simp: no_self_move_def)
    moreover have "apply_update_file fs P m (hunk_path h) p mv chunks st = (r, st')"
      using assms(2) UpdateFile Inr by (simp add: apply_hunk_def)
    ultimately show ?thesis using update_inv[OF assms(1)] by blast
  qed
qed

lemma each_hunk_inv:
  "delta_inv m0 st \<Longrightarrow> apply_each_hunk fs P m hs st = (r, st') \<Longrightarrow> list_all (no_self_move P) hs \<Longrightarrow>
     delta_inv m0 st'"
proof (induction hs arbitrary: st)
  case (Cons h hs)
  obtain r1 st1 where 1: "apply_hunk fs P m h st = (r1, st1)" by fastforce
  have "delta_inv m0 st1" using hunk_inv[OF Cons.prems(1) 1] Cons.prems(3) by simp
  then show ?case using Cons 1 by (auto split: sum.splits)
qed simp

lemma run_delta_inv:
  assumes "good w" "list_all (no_self_move P) hs" "apply_hunks_to_files fs P m hs w = (r, st)"
  shows "delta_inv (files w) st"
proof -
  have "delta_inv (files w) (init_state w)" using assms(1) by (simp add: delta_inv_def init_state_def empty_delta_def)
  then show ?thesis using assms(2,3) each_hunk_inv by (auto simp: apply_hunks_to_files_def split: if_splits)
qed

lemma run_good:
  "good w \<Longrightarrow> list_all (no_self_move P) hs \<Longrightarrow> apply_hunks_to_files fs P m hs w = (r, st) \<Longrightarrow> good (world st)"
  using run_delta_inv by (auto simp: delta_inv_def)

lemma delta_describes_files:
  "good w \<Longrightarrow> list_all (no_self_move P) hs \<Longrightarrow> apply_hunks_to_files fs P m hs w = (r, st) \<Longrightarrow>
     exact (delta st) \<Longrightarrow> delta_run (changes (delta st)) (files w) (files (world st))"
  using run_delta_inv by (auto simp: delta_inv_def)

end

section \<open>What success reports\<close>

definition added_of :: "hunk \<Rightarrow> rust_str list" where
  "added_of h = (case h of AddFile p _ \<Rightarrow> [p] | _ \<Rightarrow> [])"

definition modified_of :: "hunk \<Rightarrow> rust_str list" where
  "modified_of h = (case h of UpdateFile _ _ _ \<Rightarrow> [hunk_path h] | _ \<Rightarrow> [])"

definition deleted_of :: "hunk \<Rightarrow> rust_str list" where
  "deleted_of h = (case h of DeleteFile p \<Rightarrow> [p] | _ \<Rightarrow> [])"

lemmas report_defs = added_of_def modified_of_def deleted_of_def

lemma try_write_Inr:
  "try_write rw st k = (Inr u, st') \<Longrightarrow> \<exists>w. k (st\<lparr>world := w\<rparr>) = (Inr u, st')"
  by (auto simp: try_write_def split: prod.splits sum.splits)

lemma remove_checked_Inr:
  "remove_checked fs ctx p expected st k = (Inr u, st') \<Longrightarrow> \<exists>w. k (st\<lparr>world := w\<rparr>) = (Inr u, st')"
  by (auto simp: remove_checked_def split: prod.splits sum.splits)

lemma apply_move_affected:
  "apply_move fs P a p dest orig new st = (Inr u, st') \<Longrightarrow>
     affected st' = (affected st)\<lparr>modified := modified (affected st) @ [a]\<rparr>"
  by (fastforce simp: apply_move_def Let_def split: prod.splits dest!: try_write_Inr remove_checked_Inr)

lemma apply_hunk_affected:
  assumes "apply_hunk fs P m h st = (Inr u, st')"
  shows "affected st' = \<lparr>added = added (affected st) @ added_of h,
    modified = modified (affected st) @ modified_of h, deleted = deleted (affected st) @ deleted_of h\<rparr>"
proof -
  obtain p where p: "join_path P (hunk_source_path h) = Inr p"
    using assms by (auto simp: apply_hunk_def split: sum.splits)
  show ?thesis
  proof (cases h)
    case (AddFile path c)
    with assms p show ?thesis
      by (auto simp: apply_hunk_def apply_add_file_def report_defs split: prod.splits dest!: try_write_Inr)
  next
    case (DeleteFile path)
    with assms p show ?thesis
      by (auto simp: apply_hunk_def apply_delete_file_def Let_def report_defs
          split: option.splits dest!: remove_checked_Inr)
  next
    case (UpdateFile path mv chunks)
    with assms p show ?thesis
      by (auto simp: apply_hunk_def apply_update_file_def Let_def report_defs
          split: sum.splits option.splits prod.splits dest!: try_write_Inr apply_move_affected)
  qed
qed

lemma apply_each_hunk_affected:
  "apply_each_hunk fs P m hs st = (Inr u, st') \<Longrightarrow>
     affected st' = \<lparr>added = added (affected st) @ concat (map added_of hs),
       modified = modified (affected st) @ concat (map modified_of hs),
       deleted = deleted (affected st) @ concat (map deleted_of hs)\<rparr>"
proof (induction hs arbitrary: st)
  case (Cons h hs)
  obtain r1 st1 where 1: "apply_hunk fs P m h st = (r1, st1)" by fastforce
  with Cons.prems obtain u1 where "r1 = Inr u1" by (auto split: sum.splits)
  with 1 Cons show ?case by (auto dest!: apply_hunk_affected)
qed simp

section \<open>Properties\<close>


definition sample_world :: os_world where
  "sample_world = [([''f''], RegularFile (''x'' @ [newline]))]"

definition sample_chunk :: update_file_chunk where
  "sample_chunk = \<lparr>change_context = None, old_lines = [''x''], new_lines = [''y''],
     context_line_indices = [], is_end_of_file = False\<rparr>"

definition sample_hunks :: "hunk list" where
  "sample_hunks = [AddFile ''d/n'' ''new'', UpdateFile ''f'' (Some ''g'') [sample_chunk],
     UpdateFile ''h'' None [sample_chunk]]"

definition sample_state :: "(os_world, abs_path) apply_state" where
  "sample_state =
     \<lparr>world = [([''d''], Directory), ([''d'', ''n''], RegularFile ''new''), ([''g''], RegularFile (''y'' @ [newline]))],
      delta = \<lparr>changes = [mk_change [''d'', ''n''] (Add ''new'' None),
                mk_change [''f''] (Update (Some [''g'']) (''x'' @ [newline]) None (''y'' @ [newline]))],
               exact = True\<rparr>,
      affected = \<lparr>added = [''d/n''], modified = [''g''], deleted = []\<rparr>\<rparr>"


text \<open>
  A successful application reports every hunk exactly once and in patch order: the summary
  lists the paths of the added, modified and deleted files, a renamed file under its
  destination. This holds for every file system.
\<close>

theorem success_reports_every_hunk:
  assumes "apply_hunks_to_files fs P m hs w = (Inr u, st)"
  shows "summary_lines (affected st) = ''Success. Updated the following files:'' #
    map (\<lambda>p. ''A '' @ p) (concat (map added_of hs)) @ map (\<lambda>p. ''M '' @ p) (concat (map modified_of hs)) @
    map (\<lambda>p. ''D '' @ p) (concat (map deleted_of hs))"
proof -
  have "apply_each_hunk fs P m hs (init_state w) = (Inr u, st)"
    using assms by (auto simp: apply_hunks_to_files_def split: if_splits)
  from apply_each_hunk_affected[OF this] show ?thesis by (simp add: summary_lines_def init_state_def)
qed

theorem success_reports_every_hunk_witness:
  "summary_lines (affected (snd (apply_hunks_to_files direct_fs (component_paths []) NormalizeToLf
     [UpdateFile ''f'' (Some ''g'') [sample_chunk]] sample_world)))
   = [''Success. Updated the following files:'', ''M g'']"
proof -
  let ?run = "apply_hunks_to_files direct_fs (component_paths []) NormalizeToLf
     [UpdateFile ''f'' (Some ''g'') [sample_chunk]] sample_world"
  have "fst ?run = Inr ()" by code_simp
  then have "?run = (Inr (), snd ?run)" by (metis prod.collapse)
  from success_reports_every_hunk[OF this] show ?thesis by (simp add: report_defs)
qed

text \<open>
  Renaming a file to itself deletes it: the new contents are written to the destination and
  then the original, which is the same path, is removed. The application succeeds, and the
  recorded change still names the path as the place of the new contents.
\<close>

theorem self_move_removes_file:
  assumes "link_free (world st)" "apply_move direct_fs (component_paths cwd) a p p orig new st = (Inr u, st')"
    "p \<noteq> []"
  shows "os_files (world st') p = None \<and>
    (\<exists>overwritten. last (changes (delta st')) = mk_change p (Update (Some p) orig overwritten new))"
proof -
  obtain ov ex where o: "read_optional_file_text_for_delta direct_fs (world st) p (exact (delta st)) = (ov, ex)"
    by fastforce
  obtain w u' where w: "write_file_with_missing_parent_retry direct_fs (component_paths cwd) (world st) p new = (Inr u', w)"
    using assms(2) o by (auto simp: apply_move_def try_write_def split: prod.splits sum.splits)
  have "link_free w" using direct.retry_good[OF assms(1), of cwd p new] w by simp
  obtain w' u'' where rm: "remove_path direct_fs w p = (Inr u'', w')" and
    nd: "ensure_not_directory direct_fs w p = Inr ()"
    using assms(2) o w
    by (auto simp: apply_move_def try_write_def remove_checked_def with_context_def Let_def
        split: prod.splits sum.splits)
  have st': "world st' = w'" "changes (delta st') =
      changes (delta st) @ [mk_change p (Update (Some p) orig ov new)]"
    using assms(2) o w rm nd
    by (auto simp: apply_move_def try_write_def remove_checked_def with_context_def Let_def push_change_def)
  have "os_lookup w p \<noteq> Some Directory"
    using nd by (auto simp: ensure_not_directory_def direct_fs_def direct_get_metadata_def
        reject_sandbox_context_def os_lstat_def)
  then have "plain_path direct_fs w p" using plain_direct[OF \<open>link_free w\<close>] by simp
  from direct.remove_ok[OF \<open>link_free w\<close> this rm] st' show ?thesis by simp
qed

theorem self_move_removes_file_witness:
  "os_files (world (snd (apply_move direct_fs (component_paths []) ''f'' [''f''] [''f''] ''x'' ''y'' (init_state sample_world))))
     [''f''] = None"
proof -
  let ?run = "apply_move direct_fs (component_paths []) ''f'' [''f''] [''f''] ''x'' ''y'' (init_state sample_world)"
  have "fst ?run = Inr ()" by code_simp
  then have "?run = (Inr (), snd ?run)" by (metis prod.collapse)
  moreover have "link_free (world (init_state sample_world :: (os_world, abs_path) apply_state))" by code_simp
  ultimately show ?thesis using self_move_removes_file by blast
qed

end
