(* ===== verification/Turn_Diff.thy ===== *)
theory Turn_Diff
  imports Apply_Hunks_Props "HOL-Library.List_Lexorder" "HOL-Library.Char_ord"
begin

text \<open>
  \<open>core/src/turn_diff_tracker.rs\<close>: the net diff of a turn, computed from committed patch deltas
  without rereading the workspace. A \<open>HashMap\<close> is an association list. The SHA-1 of a blob, the
  unified diff of two texts (crate \<open>similar\<close>) and the path functions are the parameters of
  \<open>diff_env\<close>; \<open>next_revision\<close> is a natural number (the code counts in 64 bits).
\<close>

section \<open>Definitions\<close>

record tracked_content =
  content :: rust_str
  revision :: nat

record 'p tracked_path =
  tp_environment_id :: rust_str
  tp_path :: 'p

abbreviation tracked_at :: "rust_str \<Rightarrow> 'p \<Rightarrow> 'p tracked_path" where
  "tracked_at env p \<equiv> \<lparr>tp_environment_id = env, tp_path = p\<rparr>"

record 'p diff_cache_key =
  left_path :: "'p tracked_path"
  left_revision :: "nat option"
  right_path :: "'p tracked_path"
  right_revision :: "nat option"

record 'p turn_diff_tracker =
  valid :: bool
  display_roots_by_environment :: "(rust_str \<times> 'p) list"
  baseline_by_path :: "('p tracked_path \<times> tracked_content) list"
  current_by_path :: "('p tracked_path \<times> tracked_content) list"
  origin_by_current_path :: "('p tracked_path \<times> 'p tracked_path) list"
  next_revision :: nat
  rendered_diffs :: "('p diff_cache_key \<times> rust_str option) list"
  unified_diff :: "rust_str option"

record 'p diff_env =
  relative_path_from :: "'p \<Rightarrow> 'p \<Rightarrow> rust_str option"
  path_text :: "'p \<Rightarrow> rust_str"
  blob_oid :: "rust_str \<Rightarrow> rust_str"
  unified :: "rust_str \<Rightarrow> rust_str \<Rightarrow> rust_str \<Rightarrow> rust_str \<Rightarrow> rust_str"
    \<comment> \<open>old header, new header, old text, new text\<close>

definition new_tracker :: "(rust_str \<times> 'p) list \<Rightarrow> 'p turn_diff_tracker" where
  "new_tracker display_roots =
     \<lparr>valid = True, display_roots_by_environment =
        fold (\<lambda>(env, root). AList.update env root) display_roots [], baseline_by_path = [],
      current_by_path = [], origin_by_current_path = [], next_revision = 0, rendered_diffs = [],
      unified_diff = None\<rparr>"

subsection \<open>Rendering\<close>

definition display_path :: "'p diff_env \<Rightarrow> (rust_str \<times> 'p) list \<Rightarrow> 'p tracked_path \<Rightarrow> rust_str" where
  "display_path E roots tp =
     (let display =
            (case Option.bind (map_of roots (tp_environment_id tp))
                    (\<lambda>root. relative_path_from E (tp_path tp) root) of
               Some s \<Rightarrow> s
             | None \<Rightarrow> path_text E (tp_path tp))
      in if 1 < length roots \<and> tp_environment_id tp \<noteq> []
         then tp_environment_id tp @ ''/'' @ display else display)"

definition to_slashes :: "rust_str \<Rightarrow> rust_str" where
  "to_slashes s = map (\<lambda>c. if c = CHR 0x5C then CHR ''/'' else c) s"

definition ZERO_OID :: rust_str where "ZERO_OID = replicate 40 (CHR ''0'')"

definition oid_of :: "'p diff_env \<Rightarrow> rust_str option \<Rightarrow> rust_str" where
  "oid_of E c = (case c of None \<Rightarrow> ZERO_OID | Some s \<Rightarrow> blob_oid E s)"

definition render_diff ::
    "'p diff_env \<Rightarrow> (rust_str \<times> 'p) list \<Rightarrow> 'p tracked_path \<Rightarrow> rust_str option \<Rightarrow>
     'p tracked_path \<Rightarrow> rust_str option \<Rightarrow> rust_str option" where
  "render_diff E roots lp lc rp rc =
     (if lc = rc then None
      else let left_display = to_slashes (display_path E roots lp);
               right_display = to_slashes (display_path E roots rp);
               mode_line = (case (lc, rc) of
                    (None, Some _) \<Rightarrow> ''new file mode 100644'' @ [newline]
                  | (Some _, None) \<Rightarrow> ''deleted file mode 100644'' @ [newline]
                  | _ \<Rightarrow> []);
               old_header = (if lc \<noteq> None then ''a/'' @ left_display else ''/dev/null'');
               new_header = (if rc \<noteq> None then ''b/'' @ right_display else ''/dev/null'')
           in Some (''diff --git a/'' @ left_display @ '' b/'' @ right_display @ [newline] @ mode_line @
                ''index '' @ oid_of E lc @ ''..'' @ oid_of E rc @ [newline] @
                unified E old_header new_header (case lc of Some s \<Rightarrow> s | None \<Rightarrow> [])
                  (case rc of Some s \<Rightarrow> s | None \<Rightarrow> [])))"

definition rename_pairs :: "'p turn_diff_tracker \<Rightarrow> ('p tracked_path \<times> 'p tracked_path) list" where
  "rename_pairs t =
     fold (\<lambda>(dest, origin) acc.
        if dest = origin \<or> map_of (current_by_path t) origin \<noteq> None \<or> map_of (current_by_path t) dest = None
           \<or> map_of (baseline_by_path t) origin = None \<or> map_of (baseline_by_path t) dest \<noteq> None
        then acc else AList.update origin dest acc)
       (origin_by_current_path t) []"

record 'p refresh_state =
  handled :: "'p tracked_path list"
  previous_diffs :: "('p diff_cache_key \<times> rust_str option) list"
  fresh_diffs :: "('p diff_cache_key \<times> rust_str option) list"
  aggregated :: rust_str

definition add_diff :: "rust_str option \<Rightarrow> rust_str \<Rightarrow> rust_str" where
  "add_diff rendered agg =
     (case rendered of
        None \<Rightarrow> agg
      | Some diff \<Rightarrow> let agg = agg @ diff in if ends_with agg [newline] then agg else agg @ [newline])"

definition content_at :: "('p tracked_path \<times> tracked_content) list \<Rightarrow> 'p tracked_path \<Rightarrow> rust_str option" where
  "content_at m p = map_option content (map_of m p)"

definition cache_key :: "'p turn_diff_tracker \<Rightarrow> 'p tracked_path \<Rightarrow> 'p tracked_path \<Rightarrow> 'p diff_cache_key" where
  "cache_key t lp rp =
     \<lparr>left_path = lp, left_revision = map_option revision (map_of (baseline_by_path t) lp),
      right_path = rp, right_revision = map_option revision (map_of (current_by_path t) rp)\<rparr>"

definition render_pair ::
    "'p diff_env \<Rightarrow> 'p turn_diff_tracker \<Rightarrow> 'p tracked_path \<Rightarrow> 'p tracked_path \<Rightarrow> rust_str option" where
  "render_pair E t lp rp =
     render_diff E (display_roots_by_environment t) lp (content_at (baseline_by_path t) lp)
       rp (content_at (current_by_path t) rp)"

text \<open>One iteration of the loop over the sorted paths.\<close>

definition refresh_path ::
    "'p diff_env \<Rightarrow> 'p turn_diff_tracker \<Rightarrow> ('p tracked_path \<times> 'p tracked_path) list \<Rightarrow>
     'p tracked_path \<Rightarrow> 'p refresh_state \<Rightarrow> 'p refresh_state" where
  "refresh_path E t pairs p s =
     (if p \<in> set (handled s) then s
      else let s = s\<lparr>handled := p # handled s\<rparr>
           in if p \<in> set (map snd pairs) then s
              else let rp = (case map_of pairs p of Some dest \<Rightarrow> dest | None \<Rightarrow> p);
                       s = (case map_of pairs p of Some dest \<Rightarrow> s\<lparr>handled := dest # handled s\<rparr> | None \<Rightarrow> s);
                       key = cache_key t p rp;
                       rendered = (case map_of (previous_diffs s) key of
                                     Some r \<Rightarrow> r | None \<Rightarrow> render_pair E t p rp)
                   in s\<lparr>previous_diffs := AList.delete key (previous_diffs s),
                        fresh_diffs := AList.update key rendered (fresh_diffs s),
                        aggregated := add_diff rendered (aggregated s)\<rparr>)"

definition refresh_paths :: "'p diff_env \<Rightarrow> 'p turn_diff_tracker \<Rightarrow> 'p tracked_path list" where
  "refresh_paths E t =
     remdups_adj (sort_key (display_path E (display_roots_by_environment t))
       (map fst (baseline_by_path t) @ map fst (current_by_path t)))"

definition refresh_unified_diff :: "'p diff_env \<Rightarrow> 'p turn_diff_tracker \<Rightarrow> 'p turn_diff_tracker" where
  "refresh_unified_diff E t =
     (let s = fold (refresh_path E t (rename_pairs t)) (refresh_paths E t)
                \<lparr>handled = [], previous_diffs = rendered_diffs t, fresh_diffs = [], aggregated = []\<rparr>
      in t\<lparr>rendered_diffs := fresh_diffs s,
           unified_diff := (if aggregated s = [] then None else Some (aggregated s))\<rparr>)"

subsection \<open>Tracking\<close>

definition insert_baseline :: "'p tracked_path \<Rightarrow> rust_str \<Rightarrow> 'p turn_diff_tracker \<Rightarrow> 'p turn_diff_tracker" where
  "insert_baseline p c t =
     t\<lparr>baseline_by_path := AList.update p \<lparr>content = c, revision = next_revision t\<rparr> (baseline_by_path t),
       next_revision := next_revision t + 1\<rparr>"

definition insert_current :: "'p tracked_path \<Rightarrow> rust_str \<Rightarrow> 'p turn_diff_tracker \<Rightarrow> 'p turn_diff_tracker" where
  "insert_current p c t =
     t\<lparr>current_by_path := AList.update p \<lparr>content = c, revision = next_revision t\<rparr> (current_by_path t),
       next_revision := next_revision t + 1\<rparr>"

definition untracked :: "'p turn_diff_tracker \<Rightarrow> 'p tracked_path \<Rightarrow> bool" where
  "untracked t p \<longleftrightarrow> map_of (current_by_path t) p = None \<and> map_of (baseline_by_path t) p = None"

text \<open>First sight of a path fixes its baseline.\<close>

definition note_baseline :: "'p tracked_path \<Rightarrow> rust_str option \<Rightarrow> 'p turn_diff_tracker \<Rightarrow> 'p turn_diff_tracker" where
  "note_baseline p c t =
     (case c of Some s \<Rightarrow> if untracked t p then insert_baseline p s t else t | None \<Rightarrow> t)"

definition forget_origin :: "'p tracked_path \<Rightarrow> 'p turn_diff_tracker \<Rightarrow> 'p turn_diff_tracker" where
  "forget_origin p t = t\<lparr>origin_by_current_path := AList.delete p (origin_by_current_path t)\<rparr>"

definition remove_current :: "'p tracked_path \<Rightarrow> 'p turn_diff_tracker \<Rightarrow> 'p turn_diff_tracker" where
  "remove_current p t = t\<lparr>current_by_path := AList.delete p (current_by_path t)\<rparr>"

definition apply_add :: "'p tracked_path \<Rightarrow> rust_str \<Rightarrow> rust_str option \<Rightarrow> 'p turn_diff_tracker \<Rightarrow> 'p turn_diff_tracker" where
  "apply_add p c overwritten t =
     insert_current p c (note_baseline p overwritten (forget_origin p t))"

definition apply_delete :: "'p tracked_path \<Rightarrow> rust_str \<Rightarrow> 'p turn_diff_tracker \<Rightarrow> 'p turn_diff_tracker" where
  "apply_delete p c t =
     forget_origin p
       (let t' = remove_current p t
        in if map_of (current_by_path t) p = None \<and> map_of (baseline_by_path t') p = None
           then insert_baseline p c t' else t')"

definition apply_update ::
    "'p tracked_path \<Rightarrow> 'p tracked_path option \<Rightarrow> rust_str \<Rightarrow> rust_str option \<Rightarrow> rust_str \<Rightarrow>
     'p turn_diff_tracker \<Rightarrow> 'p turn_diff_tracker" where
  "apply_update src mv old overwritten new t =
     (let t = note_baseline src (Some old) t
      in case mv of
           None \<Rightarrow> insert_current src new t
         | Some dest \<Rightarrow>
             (let t = note_baseline dest overwritten t;
                  origin = (case map_of (origin_by_current_path t) src of Some o' \<Rightarrow> o' | None \<Rightarrow> src);
                  t = remove_current src (forget_origin src t);
                  t = forget_origin dest (insert_current dest new t)
              in if dest \<noteq> origin
                 then t\<lparr>origin_by_current_path := AList.update dest origin (origin_by_current_path t)\<rparr>
                 else t))"

definition tracker_apply_change ::
    "rust_str \<Rightarrow> 'p applied_patch_change \<Rightarrow> 'p turn_diff_tracker \<Rightarrow> 'p turn_diff_tracker" where
  "tracker_apply_change env c t =
     (let src = tracked_at env (change_path c)
      in case file_change c of
           Add s overwritten \<Rightarrow> apply_add src s overwritten t
         | Delete s \<Rightarrow> apply_delete src s t
         | Update mv old overwritten new \<Rightarrow>
             apply_update src (map_option (tracked_at env) mv) old overwritten new t)"

definition invalidate :: "'p turn_diff_tracker \<Rightarrow> 'p turn_diff_tracker" where
  "invalidate t = t\<lparr>valid := False, rendered_diffs := [], unified_diff := None\<rparr>"

definition track_delta ::
    "'p diff_env \<Rightarrow> rust_str \<Rightarrow> 'p applied_patch_delta \<Rightarrow> 'p turn_diff_tracker \<Rightarrow> 'p turn_diff_tracker" where
  "track_delta E env d t =
     (if \<not> valid t then t
      else if \<not> exact d then invalidate t
      else refresh_unified_diff E (fold (tracker_apply_change env) (changes d) t))"

end
