(* ===== verification/Turn_Diff_Props.thy ===== *)
theory Turn_Diff_Props
  imports Turn_Diff
begin

text \<open>
  The tracker's maps describe the workspace, its cache is invisible, and it reports a diff exactly
  when something changed.
\<close>

section \<open>What the maps say about the files\<close>

text \<open>
  The files according to the tracker, given the files \<open>base\<close> of all environments at the start of
  the turn: a path it never saw is as it was, a path with a baseline but no current content is
  gone. A recorded baseline is the content from the start, and a path that is tracked without a
  baseline did not exist then.
\<close>

abbreviation base_map :: "'p turn_diff_tracker \<Rightarrow> 'p tracked_path \<Rightarrow> rust_str option" where
  "base_map t \<equiv> content_at (baseline_by_path t)"

abbreviation cur_map :: "'p turn_diff_tracker \<Rightarrow> 'p tracked_path \<Rightarrow> rust_str option" where
  "cur_map t \<equiv> content_at (current_by_path t)"

definition tracker_view ::
    "('p tracked_path \<Rightarrow> rust_str option) \<Rightarrow> 'p turn_diff_tracker \<Rightarrow> 'p tracked_path \<Rightarrow> rust_str option" where
  "tracker_view base t q =
     (if cur_map t q \<noteq> None then cur_map t q else if base_map t q = None then base q else None)"

definition tracker_inv :: "('p tracked_path \<Rightarrow> rust_str option) \<Rightarrow> 'p turn_diff_tracker \<Rightarrow> bool" where
  "tracker_inv base t \<longleftrightarrow>
     (\<forall>q c. base_map t q = Some c \<longrightarrow> base q = Some c) \<and>
     (\<forall>q. base_map t q = None \<and> cur_map t q \<noteq> None \<longrightarrow> base q = None)"

lemma tracker_invD:
  "tracker_inv base t \<Longrightarrow> base_map t q = Some c \<Longrightarrow> base q = Some c"
  "tracker_inv base t \<Longrightarrow> base_map t q = None \<Longrightarrow> cur_map t q = Some c \<Longrightarrow> base q = None"
  by (auto simp: tracker_inv_def)

lemma tracker_maps_cong:
  "base_map t' = base_map t \<Longrightarrow> cur_map t' = cur_map t \<Longrightarrow>
     tracker_view base t' = tracker_view base t \<and> tracker_inv base t' = tracker_inv base t"
  by (simp add: tracker_view_def tracker_inv_def fun_eq_iff cong: if_cong)

lemma map_of_None_content: "map_of m p = None \<longleftrightarrow> content_at m p = None"
  by (simp add: content_at_def)

lemma content_at_simps [simp]:
  "content_at [] = (\<lambda>_. None)"
  "content_at (AList.update p \<lparr>content = c, revision = r\<rparr> m) = (content_at m)(p \<mapsto> c)"
  "content_at (AList.delete p m) = (content_at m)(p := None)"
  by (simp_all add: content_at_def update_conv' delete_conv' fun_eq_iff)

lemma tracker_op_maps [simp]:
  "base_map (insert_baseline p c t) = (base_map t)(p \<mapsto> c)"
  "cur_map (insert_baseline p c t) = cur_map t"
  "base_map (insert_current p c t) = base_map t"
  "cur_map (insert_current p c t) = (cur_map t)(p \<mapsto> c)"
  "base_map (remove_current p t) = base_map t"
  "cur_map (remove_current p t) = (cur_map t)(p := None)"
  "base_map (forget_origin p t) = base_map t"
  "cur_map (forget_origin p t) = cur_map t"
  by (simp_all add: insert_baseline_def insert_current_def remove_current_def forget_origin_def)

lemma note_baseline_maps [simp]:
  "base_map (note_baseline p c t) =
     (if cur_map t p = None \<and> base_map t p = None then (base_map t)(p := c) else base_map t)"
  "cur_map (note_baseline p c t) = cur_map t"
proof -
  have "untracked t p \<longleftrightarrow> cur_map t p = None \<and> base_map t p = None"
    by (simp add: untracked_def content_at_def)
  then show "base_map (note_baseline p c t) =
     (if cur_map t p = None \<and> base_map t p = None then (base_map t)(p := c) else base_map t)"
    "cur_map (note_baseline p c t) = cur_map t"
    by (auto simp: note_baseline_def fun_upd_idem split: option.split)
qed

lemma apply_delete_maps:
  "base_map (apply_delete p c t) =
     (if cur_map t p = None \<and> base_map t p = None then (base_map t)(p \<mapsto> c) else base_map t)"
  "cur_map (apply_delete p c t) = (cur_map t)(p := None)"
  by (simp_all add: apply_delete_def Let_def map_of_None_content)

lemma apply_update_maps:
  "base_map (apply_update src (Some d) old ov new t) =
     base_map (note_baseline d ov (note_baseline src (Some old) t))"
  "cur_map (apply_update src (Some d) old ov new t) = ((cur_map t)(src := None))(d \<mapsto> new)"
proof -
  let ?t = "forget_origin d (insert_current d new (remove_current src (forget_origin src
    (note_baseline d ov (note_baseline src (Some old) t)))))"
  have "base_map (apply_update src (Some d) old ov new t) = base_map ?t \<and>
    cur_map (apply_update src (Some d) old ov new t) = cur_map ?t"
    unfolding apply_update_def Let_def by (simp del: note_baseline_maps)
  then show "base_map (apply_update src (Some d) old ov new t) =
      base_map (note_baseline d ov (note_baseline src (Some old) t))"
    "cur_map (apply_update src (Some d) old ov new t) = ((cur_map t)(src := None))(d \<mapsto> new)" by simp_all
qed

lemma add_view:
  assumes "tracker_inv base t" "tracker_view base t p = ov"
  shows "tracker_inv base (apply_add p new ov t) \<and>
    tracker_view base (apply_add p new ov t) = (tracker_view base t)(p \<mapsto> new)"
  using assms unfolding apply_add_def tracker_inv_def tracker_view_def fun_eq_iff
  by (cases "cur_map t p"; cases "base_map t p"; auto)

lemma delete_view:
  assumes "tracker_inv base t" "tracker_view base t p = Some c"
  shows "tracker_inv base (apply_delete p c t) \<and>
    tracker_view base (apply_delete p c t) = (tracker_view base t)(p := None)"
  using assms unfolding apply_delete_maps tracker_inv_def tracker_view_def fun_eq_iff
  by (cases "cur_map t p"; cases "base_map t p"; auto)

lemma update_view:
  assumes "tracker_inv base t" "tracker_view base t p = Some old"
  shows "tracker_inv base (apply_update p None old ov new t) \<and>
    tracker_view base (apply_update p None old ov new t) = (tracker_view base t)(p \<mapsto> new)"
  using add_view[OF assms, of new] tracker_maps_cong[of "apply_update p None old ov new t" "apply_add p new (Some old) t"]
  by (simp add: apply_update_def apply_add_def)

lemma move_view:
  assumes "tracker_inv base t" "tracker_view base t src = Some old" "d \<noteq> src" "tracker_view base t d = ov"
  shows "tracker_inv base (apply_update src (Some d) old ov new t) \<and>
    tracker_view base (apply_update src (Some d) old ov new t) = ((tracker_view base t)(d \<mapsto> new))(src := None)"
  using assms unfolding apply_update_maps tracker_inv_def tracker_view_def fun_eq_iff
  by (cases "cur_map t src"; cases "base_map t src"; cases "cur_map t d"; cases "base_map t d"; auto)

text \<open>The files of one environment according to the tracker.\<close>

abbreviation env_view where
  "env_view base t env \<equiv> \<lambda>p. tracker_view base t (tracked_at env p)"

lemma tracker_change_view:
  assumes "tracker_inv base t" "records (env_view base t env) c"
  shows "tracker_inv base (tracker_apply_change env c t) \<and>
    env_view base (tracker_apply_change env c t) env = replay_change c (env_view base t env) \<and>
    (\<forall>q. tp_environment_id q \<noteq> env \<longrightarrow>
       tracker_view base (tracker_apply_change env c t) q = tracker_view base t q)"
proof (cases "file_change c")
  case (Add s ov)
  then show ?thesis using add_view[OF assms(1), of "tracked_at env (change_path c)" ov s] assms(2)
    by (auto simp: tracker_apply_change_def records_def replay_change_def fun_eq_iff Let_def)
next
  case (Delete s)
  then show ?thesis using delete_view[OF assms(1), of "tracked_at env (change_path c)" s] assms(2)
    by (auto simp: tracker_apply_change_def records_def replay_change_def fun_eq_iff Let_def)
next
  case (Update mv old ov new)
  then show ?thesis
    using update_view[OF assms(1), of "tracked_at env (change_path c)" old ov new] assms(2)
      move_view[OF assms(1), of "tracked_at env (change_path c)" old "tracked_at env (the mv)" ov new]
    by (cases mv) (auto simp: tracker_apply_change_def records_def replay_change_def fun_eq_iff Let_def)
qed

lemma tracker_run_view:
  assumes "tracker_inv base t" "delta_run cs (env_view base t env) m'"
  shows "tracker_inv base (fold (tracker_apply_change env) cs t) \<and>
    env_view base (fold (tracker_apply_change env) cs t) env = m' \<and>
    (\<forall>q. tp_environment_id q \<noteq> env \<longrightarrow>
       tracker_view base (fold (tracker_apply_change env) cs t) q = tracker_view base t q)"
  using assms
proof (induction cs arbitrary: t)
  case (Cons c cs)
  note s = tracker_change_view[OF Cons.prems(1), of env c]
  show ?case using Cons.IH[of "tracker_apply_change env c t"] Cons.prems(2) s by auto
qed auto

lemma refresh_maps [simp]:
  "baseline_by_path (refresh_unified_diff E t) = baseline_by_path t"
  "current_by_path (refresh_unified_diff E t) = current_by_path t"
  by (simp_all add: refresh_unified_diff_def Let_def)

lemma track_delta_view:
  assumes "valid t" "exact d" "tracker_inv base t" "delta_run (changes d) (env_view base t env) m'"
  shows "tracker_inv base (track_delta E env d t)" "env_view base (track_delta E env d t) env = m'"
    "tp_environment_id q \<noteq> env \<Longrightarrow> tracker_view base (track_delta E env d t) q = tracker_view base t q"
proof -
  let ?t = "fold (tracker_apply_change env) (changes d) t"
  have "tracker_view base (track_delta E env d t) = tracker_view base ?t \<and>
    tracker_inv base (track_delta E env d t) = tracker_inv base ?t"
    using assms(1,2) by (intro tracker_maps_cong) (simp_all add: track_delta_def)
  with tracker_run_view[OF assms(3,4)] show "tracker_inv base (track_delta E env d t)"
    "env_view base (track_delta E env d t) env = m'"
    "tp_environment_id q \<noteq> env \<Longrightarrow> tracker_view base (track_delta E env d t) q = tracker_view base t q"
    by auto
qed

section \<open>The cache\<close>

text \<open>
  The diff without a cache: the pairs to show, in order of their first occurrence among the
  sorted paths, rendered and concatenated.
\<close>

fun firsts :: "'a set \<Rightarrow> 'a list \<Rightarrow> 'a list" where
  "firsts seen [] = []"
| "firsts seen (x # xs) = (if x \<in> seen then firsts seen xs else x # firsts (insert x seen) xs)"

lemma set_firsts: "set (firsts seen xs) = set xs - seen"
  by (induction seen xs rule: firsts.induct) auto

lemma filter_firsts_cong:
  "(\<And>x. Q x \<Longrightarrow> x \<in> S \<longleftrightarrow> x \<in> S') \<Longrightarrow> filter Q (firsts S xs) = filter Q (firsts S' xs)"
proof (induction xs arbitrary: S S')
  case (Cons x xs)
  have "filter Q (firsts A xs) = filter Q (firsts B xs)"
    if "A \<in> {S, insert x S}" "B \<in> {S', insert x S'}" "(x \<in> A \<longleftrightarrow> x \<in> B) \<or> \<not> Q x" for A B
    using that Cons.prems by (intro Cons.IH) auto
  then show ?case using Cons.prems[of x] by auto
qed simp

definition shown_target :: "('p tracked_path \<times> 'p tracked_path) list \<Rightarrow> 'p tracked_path \<Rightarrow> 'p tracked_path" where
  "shown_target pairs p = (case map_of pairs p of Some dest \<Rightarrow> dest | None \<Rightarrow> p)"

definition shown_paths :: "'p diff_env \<Rightarrow> 'p turn_diff_tracker \<Rightarrow> 'p tracked_path list" where
  "shown_paths E t = filter (\<lambda>p. p \<notin> set (map snd (rename_pairs t))) (firsts {} (refresh_paths E t))"

definition net_diff :: "'p diff_env \<Rightarrow> 'p turn_diff_tracker \<Rightarrow> rust_str" where
  "net_diff E t =
     fold add_diff (map (\<lambda>p. render_pair E t p (shown_target (rename_pairs t) p)) (shown_paths E t)) []"

definition cache_good :: "'p diff_env \<Rightarrow> 'p turn_diff_tracker \<Rightarrow> ('p diff_cache_key \<times> rust_str option) list \<Rightarrow> bool" where
  "cache_good E t m \<longleftrightarrow> (\<forall>lp rp r. map_of m (cache_key t lp rp) = Some r \<longrightarrow> r = render_pair E t lp rp)"

lemma refresh_path_step:
  assumes "cache_good E t (previous_diffs s)"
  shows "refresh_path E t pairs p s =
    (if p \<in> set (handled s) then s
     else if p \<in> set (map snd pairs) then s\<lparr>handled := p # handled s\<rparr>
     else let rp = shown_target pairs p; key = cache_key t p rp; r = render_pair E t p rp
          in \<lparr>handled = (case map_of pairs p of Some d \<Rightarrow> [d] | None \<Rightarrow> []) @ p # handled s,
              previous_diffs = AList.delete key (previous_diffs s),
              fresh_diffs = AList.update key r (fresh_diffs s),
              aggregated = add_diff r (aggregated s)\<rparr>)"
  using assms
  by (auto simp: refresh_path_def Let_def shown_target_def cache_good_def split: option.splits)

lemma fold_refresh:
  assumes "cache_good E t (previous_diffs s)"
  shows "aggregated (fold (refresh_path E t pairs) ps s) =
    fold add_diff (map (\<lambda>p. render_pair E t p (shown_target pairs p))
      (filter (\<lambda>p. p \<notin> set (map snd pairs)) (firsts (set (handled s)) ps))) (aggregated s)"
  using assms
proof (induction ps arbitrary: s)
  case (Cons p ps)
  let ?Q = "\<lambda>p. p \<notin> set (map snd pairs)"
  let ?s = "refresh_path E t pairs p s"
  have good: "cache_good E t (previous_diffs ?s)"
    using Cons.prems by (auto simp: refresh_path_step[OF Cons.prems] Let_def cache_good_def delete_conv')
  note step = refresh_path_step[OF Cons.prems, of pairs p]
  consider "p \<in> set (handled s)" | "p \<notin> set (handled s)" "\<not> ?Q p" | "p \<notin> set (handled s)" "?Q p" by blast
  then show ?case
  proof cases
    case 3
    have dest: "d \<in> set (map snd pairs)" if "map_of pairs p = Some d" for d
      using map_of_SomeD[OF that] by force
    have "filter ?Q (firsts (set (handled ?s)) ps) = filter ?Q (firsts (insert p (set (handled s))) ps)"
      using 3 step dest by (intro filter_firsts_cong) (auto simp: Let_def split: option.splits)
    then show ?thesis using Cons.IH[OF good] 3 step by (simp add: Let_def)
  qed (use Cons.IH[OF good] step in auto)
qed simp

lemma refresh_is_net_diff:
  assumes "cache_good E t (rendered_diffs t)"
  shows "unified_diff (refresh_unified_diff E t) = (if net_diff E t = [] then None else Some (net_diff E t))"
  using fold_refresh[of E t "\<lparr>handled = [], previous_diffs = rendered_diffs t, fresh_diffs = [], aggregated = []\<rparr>"
      "rename_pairs t" "refresh_paths E t"] assms
  by (simp add: refresh_unified_diff_def Let_def net_diff_def shown_paths_def)

text \<open>
  Why cached entries stay right: a revision number names one content for ever, so that a key
  determines what it renders.
\<close>

definition cache_entry_ok ::
    "'p diff_env \<Rightarrow> (rust_str \<times> 'p) list \<Rightarrow> (nat \<Rightarrow> rust_str) \<Rightarrow> nat \<Rightarrow> 'p diff_cache_key \<Rightarrow> rust_str option \<Rightarrow> bool" where
  "cache_entry_ok E roots \<kappa> n k r \<longleftrightarrow>
     (\<forall>i. left_revision k = Some i \<or> right_revision k = Some i \<longrightarrow> i < n) \<and>
     r = render_diff E roots (left_path k) (map_option \<kappa> (left_revision k))
           (right_path k) (map_option \<kappa> (right_revision k))"

definition contents_ok :: "(nat \<Rightarrow> rust_str) \<Rightarrow> nat \<Rightarrow> ('p tracked_path \<times> tracked_content) list \<Rightarrow> bool" where
  "contents_ok \<kappa> n m \<longleftrightarrow>
     (\<forall>p tc. map_of m p = Some tc \<longrightarrow> revision tc < n \<and> content tc = \<kappa> (revision tc))"

definition cache_inv_for :: "'p diff_env \<Rightarrow> (nat \<Rightarrow> rust_str) \<Rightarrow> 'p turn_diff_tracker \<Rightarrow> bool" where
  "cache_inv_for E \<kappa> t \<longleftrightarrow>
     contents_ok \<kappa> (next_revision t) (baseline_by_path t) \<and>
     contents_ok \<kappa> (next_revision t) (current_by_path t) \<and>
     (\<forall>k r. map_of (rendered_diffs t) k = Some r \<longrightarrow>
        cache_entry_ok E (display_roots_by_environment t) \<kappa> (next_revision t) k r)"

definition cache_inv :: "'p diff_env \<Rightarrow> 'p turn_diff_tracker \<Rightarrow> bool" where
  "cache_inv E t \<longleftrightarrow> (\<exists>\<kappa>. cache_inv_for E \<kappa> t)"

lemma contents_ok_at: "contents_ok \<kappa> n m \<Longrightarrow> map_option \<kappa> (map_option revision (map_of m p)) = content_at m p"
  by (cases "map_of m p") (auto simp: contents_ok_def content_at_def)

lemma cache_inv_key:
  assumes "cache_inv_for E \<kappa> t"
  shows "cache_entry_ok E (display_roots_by_environment t) \<kappa> (next_revision t) (cache_key t lp rp) r
    \<longleftrightarrow> r = render_pair E t lp rp"
  using assms contents_ok_at[of \<kappa> "next_revision t" "baseline_by_path t" lp]
    contents_ok_at[of \<kappa> "next_revision t" "current_by_path t" rp]
  by (auto simp: cache_inv_for_def cache_entry_ok_def cache_key_def render_pair_def contents_ok_def)

lemma cache_inv_good: "cache_inv E t \<Longrightarrow> cache_good E t (rendered_diffs t)"
  using cache_inv_key unfolding cache_inv_def cache_good_def by (metis cache_inv_for_def)

lemma fold_refresh_entries:
  assumes "cache_inv_for E \<kappa> t" "cache_good E t (previous_diffs s)"
    "\<forall>k r. map_of (fresh_diffs s) k = Some r \<longrightarrow>
       cache_entry_ok E (display_roots_by_environment t) \<kappa> (next_revision t) k r"
  shows "\<forall>k r. map_of (fresh_diffs (fold (refresh_path E t pairs) ps s)) k = Some r \<longrightarrow>
       cache_entry_ok E (display_roots_by_environment t) \<kappa> (next_revision t) k r"
  using assms(2,3)
proof (induction ps arbitrary: s)
  case (Cons p ps)
  have "cache_good E t (previous_diffs (refresh_path E t pairs p s))"
    using Cons.prems by (auto simp: refresh_path_step Let_def cache_good_def delete_conv')
  moreover have "\<forall>k r. map_of (fresh_diffs (refresh_path E t pairs p s)) k = Some r \<longrightarrow>
       cache_entry_ok E (display_roots_by_environment t) \<kappa> (next_revision t) k r"
    using Cons.prems cache_inv_key[OF assms(1)] by (auto simp: refresh_path_step Let_def update_conv')
  ultimately show ?case using Cons.IH by simp
qed simp

lemma refresh_cache_inv: "cache_inv E t \<Longrightarrow> cache_inv E (refresh_unified_diff E t)"
proof -
  assume inv: "cache_inv E t"
  then obtain \<kappa> where \<kappa>: "cache_inv_for E \<kappa> t" by (auto simp: cache_inv_def)
  from fold_refresh_entries[OF this, of "\<lparr>handled = [], previous_diffs = rendered_diffs t, fresh_diffs = [],
      aggregated = []\<rparr>" "rename_pairs t" "refresh_paths E t"] cache_inv_good[OF inv] \<kappa>
  show ?thesis unfolding cache_inv_def
    by (intro exI[of _ \<kappa>]) (simp add: cache_inv_for_def refresh_unified_diff_def Let_def)
qed

lemma contents_ok_update:
  "contents_ok \<kappa> n m \<Longrightarrow> contents_ok (\<kappa>(n := c)) (Suc n) m"
  "contents_ok \<kappa> n m \<Longrightarrow> contents_ok (\<kappa>(n := c)) (Suc n) (AList.update p \<lparr>content = c, revision = n\<rparr> m)"
  "contents_ok \<kappa> n m \<Longrightarrow> contents_ok \<kappa> n (AList.delete p m)"
  by (auto simp: contents_ok_def update_conv' delete_conv' less_Suc_eq split: if_splits)

lemma cache_entry_ok_update:
  assumes "cache_entry_ok E roots \<kappa> n k r"
  shows "cache_entry_ok E roots (\<kappa>(n := c)) (Suc n) k r"
proof -
  have "map_option (\<kappa>(n := c)) (left_revision k) = map_option \<kappa> (left_revision k)"
    "map_option (\<kappa>(n := c)) (right_revision k) = map_option \<kappa> (right_revision k)"
    using assms by (auto simp: cache_entry_ok_def map_option_case split: option.splits)
  then show ?thesis using assms by (auto simp: cache_entry_ok_def less_Suc_eq)
qed

lemma insert_cache_inv:
  assumes "cache_inv_for E \<kappa> t"
  shows "cache_inv_for E (\<kappa>(next_revision t := c)) (insert_baseline p c t)"
    "cache_inv_for E (\<kappa>(next_revision t := c)) (insert_current p c t)"
  using assms
  by (simp_all add: cache_inv_for_def insert_baseline_def insert_current_def contents_ok_update cache_entry_ok_update)

lemma op_cache_inv:
  assumes "cache_inv E t"
  shows "cache_inv E (insert_baseline p c t)" "cache_inv E (insert_current p c t)"
    "cache_inv E (remove_current p t)" "cache_inv E (t\<lparr>origin_by_current_path := os\<rparr>)"
proof -
  obtain \<kappa> where \<kappa>: "cache_inv_for E \<kappa> t" using assms by (auto simp: cache_inv_def)
  have "cache_inv_for E \<kappa> (remove_current p t)" "cache_inv_for E \<kappa> (t\<lparr>origin_by_current_path := os\<rparr>)"
    using \<kappa> by (simp_all add: cache_inv_for_def remove_current_def contents_ok_update)
  with insert_cache_inv[OF \<kappa>] show "cache_inv E (insert_baseline p c t)" "cache_inv E (insert_current p c t)"
    "cache_inv E (remove_current p t)" "cache_inv E (t\<lparr>origin_by_current_path := os\<rparr>)"
    unfolding cache_inv_def by blast+
qed

lemma note_cache_inv:
  "cache_inv E t \<Longrightarrow> cache_inv E (note_baseline p c t)"
  "cache_inv E t \<Longrightarrow> cache_inv E (forget_origin p t)"
  by (auto simp: note_baseline_def forget_origin_def op_cache_inv split: option.splits)

lemma change_cache_inv: "cache_inv E t \<Longrightarrow> cache_inv E (tracker_apply_change env c t)"
  by (auto simp: tracker_apply_change_def apply_add_def apply_delete_def apply_update_def Let_def
      op_cache_inv note_cache_inv split: applied_patch_file_change.splits option.splits)

lemma fold_change_cache_inv: "cache_inv E t \<Longrightarrow> cache_inv E (fold (tracker_apply_change env) cs t)"
  by (induction cs arbitrary: t) (simp_all add: change_cache_inv)

section \<open>Reachable trackers\<close>

inductive reachable_tracker :: "'p diff_env \<Rightarrow> 'p turn_diff_tracker \<Rightarrow> bool" for E where
  reach_new: "reachable_tracker E (new_tracker roots)"
| reach_track: "reachable_tracker E t \<Longrightarrow> reachable_tracker E (track_delta E env d t)"
| reach_invalidate: "reachable_tracker E t \<Longrightarrow> reachable_tracker E (invalidate t)"

definition diff_of :: "'p diff_env \<Rightarrow> 'p turn_diff_tracker \<Rightarrow> rust_str option" where
  "diff_of E t = (if net_diff E t = [] then None else Some (net_diff E t))"

lemma net_diff_refresh [simp]: "net_diff E (refresh_unified_diff E t) = net_diff E t"
  by (simp add: net_diff_def shown_paths_def refresh_paths_def rename_pairs_def render_pair_def
      refresh_unified_diff_def Let_def)

lemma fold_change_valid: "valid (fold (tracker_apply_change env) cs t) = valid t"
proof (induction cs arbitrary: t)
  case (Cons c cs)
  have "valid (tracker_apply_change env c t) = valid t"
    by (auto simp: tracker_apply_change_def apply_add_def apply_delete_def apply_update_def Let_def
        insert_baseline_def insert_current_def note_baseline_def forget_origin_def remove_current_def
        split: applied_patch_file_change.splits option.splits)
  with Cons show ?case by simp
qed simp

lemma invalidate_cache_inv: "cache_inv E t \<Longrightarrow> cache_inv E (invalidate t)"
  by (auto simp: invalidate_def cache_inv_def cache_inv_for_def)

lemma reachable_tracker_inv:
  "reachable_tracker E t \<Longrightarrow> cache_inv E t \<and> unified_diff t = (if valid t then diff_of E t else None)"
proof (induction rule: reachable_tracker.induct)
  case (reach_new roots)
  then show ?case
    by (auto simp: new_tracker_def cache_inv_def cache_inv_for_def contents_ok_def diff_of_def net_diff_def
        shown_paths_def refresh_paths_def)
next
  case (reach_track t env d)
  let ?t = "fold (tracker_apply_change env) (changes d) t"
  have inv: "cache_inv E ?t" using reach_track by (simp add: fold_change_cache_inv)
  note r = refresh_is_net_diff[OF cache_inv_good[OF inv]]
  have "valid (refresh_unified_diff E ?t) = valid ?t" by (simp add: refresh_unified_diff_def Let_def)
  with reach_track.IH inv r show ?case
    using invalidate_cache_inv[of E t]
    by (auto simp: track_delta_def refresh_cache_inv fold_change_valid diff_of_def invalidate_def[of t])
next
  case (reach_invalidate t)
  then show ?case using invalidate_cache_inv[of E t] by (simp add: invalidate_def)
qed

lemma add_diff_Nil: "add_diff r agg = [] \<longleftrightarrow> agg = [] \<and> r = None"
  by (auto simp: add_diff_def Let_def ends_with_def split: option.splits)

lemma fold_add_diff_Nil: "fold add_diff rs agg = [] \<longleftrightarrow> agg = [] \<and> (\<forall>r \<in> set rs. r = None)"
  by (induction rs arbitrary: agg) (auto simp: add_diff_Nil)

lemma render_pair_None: "render_pair E t lp rp = None \<longleftrightarrow> base_map t lp = cur_map t rp"
  by (simp add: render_pair_def render_diff_def Let_def)

lemma set_shown_paths:
  "p \<in> set (shown_paths E t) \<longleftrightarrow> (base_map t p \<noteq> None \<or> cur_map t p \<noteq> None) \<and> p \<notin> set (map snd (rename_pairs t))"
  by (auto simp: shown_paths_def set_firsts refresh_paths_def content_at_def map_of_eq_None_iff
      simp del: not_None_eq)

section \<open>Properties\<close>

text \<open>
  C36. The cached, incremental refresh equals the reference definition: in every reachable tracker
  the published diff is the net diff rendered from scratch over the sorted paths, and an
  invalidated tracker publishes nothing.
\<close>

theorem published_diff_is_net_diff:
  assumes "reachable_tracker E t"
  shows "unified_diff t =
    (if valid t \<and> net_diff E t \<noteq> [] then Some (net_diff E t) else None)"
  using reachable_tracker_inv[OF assms] by (auto simp: diff_of_def)

definition sample_env :: "abs_path diff_env" where
  "sample_env = \<lparr>relative_path_from = (\<lambda>p base. if prefix base p then Some (join_with ''/'' (drop (length base) p)) else None),
     path_text = native_path_string (component_paths []), blob_oid = (\<lambda>s. ''oid''),
     unified = (\<lambda>a b x y. ''--- '' @ a @ [newline] @ ''+++ '' @ b @ [newline])\<rparr>"

definition sample_tracker :: "abs_path turn_diff_tracker" where
  "sample_tracker = track_delta sample_env [] (delta sample_state) (new_tracker [([], [])])"

theorem published_diff_is_net_diff_witness:
  "unified_diff sample_tracker = Some (net_diff sample_env sample_tracker)"
proof -
  have "reachable_tracker sample_env sample_tracker"
    unfolding sample_tracker_def by (intro reachable_tracker.intros)
  moreover have "valid sample_tracker \<and> net_diff sample_env sample_tracker \<noteq> []" by code_simp
  ultimately show ?thesis using published_diff_is_net_diff by metis
qed

text \<open>
  A valid tracker publishes no diff exactly when the turn changed nothing: every path that is
  not the target of a rename has the content it started with, and every renamed file has the
  content of its origin.
\<close>

theorem no_diff_iff_no_net_change:
  assumes "reachable_tracker E t" "valid t"
  shows "unified_diff t = None \<longleftrightarrow>
    (\<forall>p. p \<notin> set (map snd (rename_pairs t)) \<longrightarrow>
       (base_map t p \<noteq> None \<or> cur_map t p \<noteq> None) \<longrightarrow>
       base_map t p = cur_map t (shown_target (rename_pairs t) p))"
proof -
  have "unified_diff t = None \<longleftrightarrow> net_diff E t = []"
    using reachable_tracker_inv[OF assms(1)] assms(2) by (simp add: diff_of_def)
  also have "\<dots> \<longleftrightarrow> (\<forall>p \<in> set (shown_paths E t). base_map t p = cur_map t (shown_target (rename_pairs t) p))"
    by (simp add: net_diff_def fold_add_diff_Nil render_pair_None)
  finally show ?thesis unfolding set_shown_paths[of _ E t, symmetric] by (simp add: Ball_def set_shown_paths)
      blast
qed

theorem no_diff_iff_no_net_change_witness:
  "unified_diff (new_tracker [] :: abs_path turn_diff_tracker) = None"
proof -
  have "reachable_tracker sample_env (new_tracker [])" by (rule reach_new)
  moreover have "valid (new_tracker [] :: abs_path turn_diff_tracker)" by (simp add: new_tracker_def)
  ultimately show ?thesis using no_diff_iff_no_net_change by (fastforce simp: new_tracker_def)
qed

end
