(* ===== verification/Exec_Policy.thy ===== *)
theory Exec_Policy
  imports Prelude "HOL-Library.AList" "HOL-Library.List_Lexorder" "HOL-Library.Char_ord"
begin

text \<open>
  The command policy engine: \<open>execpolicy/src/decision.rs\<close>, \<open>rule.rs\<close>, \<open>executable_name.rs\<close> (the
  non-Windows build) and \<open>policy.rs\<close>. \<open>PrefixRule\<close> is the only implementation of the trait
  \<open>Rule\<close>, so a rule is a prefix rule. A \<open>MultiMap\<close> is an association list of non-empty rule lists
  and a \<open>HashMap\<close> an association list. Absolute paths are the interface
  \<open>abs_paths\<close>, resolving a program name to a path and the file name of a path; \<open>Absolute_Path\<close>
  implements it.
  \<open>Evaluation::from_matches\<close> panics on an empty list, which the model returns as \<open>None\<close>.
\<close>

section \<open>Decisions\<close>

datatype decision = Allow | Prompt | Forbidden

text \<open>The derived \<open>Ord\<close>: the order of the constructors.\<close>

instantiation decision :: linorder
begin

fun decision_rank :: "decision \<Rightarrow> nat" where
  "decision_rank Allow = 0"
| "decision_rank Prompt = 1"
| "decision_rank Forbidden = 2"

definition less_eq_decision :: "decision \<Rightarrow> decision \<Rightarrow> bool" where
  "less_eq_decision a b \<longleftrightarrow> decision_rank a \<le> decision_rank b"

definition less_decision :: "decision \<Rightarrow> decision \<Rightarrow> bool" where
  "less_decision a b \<longleftrightarrow> decision_rank a < decision_rank b"

instance
proof
  fix a b :: decision
  show "a \<le> b \<Longrightarrow> b \<le> a \<Longrightarrow> a = b"
    by (cases a; cases b) (simp_all add: less_eq_decision_def)
qed (auto simp: less_eq_decision_def less_decision_def)

end

datatype policy_error =
    InvalidDecision rust_str
  | InvalidPattern rust_str
  | InvalidExample rust_str
  | InvalidRule rust_str
  | ExampleDidNotMatch "rust_str list list"
  | ExampleDidMatch "rust_str list"
  | Starlark rust_str

definition parse_decision :: "rust_str \<Rightarrow> (policy_error, decision) result" where
  "parse_decision raw =
     (if raw = ''allow'' then Ok Allow
      else if raw = ''prompt'' then Ok Prompt
      else if raw = ''forbidden'' then Ok Forbidden
      else Err (InvalidDecision raw))"

section \<open>Rules\<close>

datatype pattern_token = Single rust_str | Alts "rust_str list"

fun token_matches :: "pattern_token \<Rightarrow> rust_str \<Rightarrow> bool" where
  "token_matches (Single expected) token = (expected = token)"
| "token_matches (Alts alternatives) token = list_ex (\<lambda>alt. alt = token) alternatives"

fun token_alternatives :: "pattern_token \<Rightarrow> rust_str list" where
  "token_alternatives (Single expected) = [expected]"
| "token_alternatives (Alts alternatives) = alternatives"

record prefix_pattern =
  first_token :: rust_str
  rest_tokens :: "pattern_token list"

type_synonym command = "rust_str list"

definition matches_prefix :: "prefix_pattern \<Rightarrow> command \<Rightarrow> command option" where
  "matches_prefix p cmd =
     (let pattern_length = length (rest_tokens p) + 1
      in if length cmd < pattern_length \<or> cmd ! 0 \<noteq> first_token p then None
         else if list_all (\<lambda>(pattern_token, cmd_token). token_matches pattern_token cmd_token)
                   (zip (rest_tokens p) (take (pattern_length - 1) (drop 1 cmd)))
         then Some (take pattern_length cmd) else None)"

datatype 'a rule_match =
    PrefixRuleMatch command decision "'a option" "rust_str option"
      \<comment> \<open>matched\_prefix, decision, resolved\_program, justification\<close>
  | HeuristicsRuleMatch command decision

fun match_decision :: "'a rule_match \<Rightarrow> decision" where
  "match_decision (PrefixRuleMatch _ d _ _) = d"
| "match_decision (HeuristicsRuleMatch _ d) = d"

fun with_resolved_program :: "'a \<Rightarrow> 'a rule_match \<Rightarrow> 'a rule_match" where
  "with_resolved_program p (PrefixRuleMatch m d _ j) = PrefixRuleMatch m d (Some p) j"
| "with_resolved_program p other = other"

record prefix_rule =
  pattern :: prefix_pattern
  rule_decision :: decision
  rule_justification :: "rust_str option"

definition rule_program :: "prefix_rule \<Rightarrow> rust_str" where
  "rule_program r = first_token (pattern r)"

definition rule_matches :: "prefix_rule \<Rightarrow> command \<Rightarrow> 'a rule_match option" where
  "rule_matches r cmd =
     map_option (\<lambda>matched. PrefixRuleMatch matched (rule_decision r) None (rule_justification r))
       (matches_prefix (pattern r) cmd)"

section \<open>Network rules\<close>

datatype network_rule_protocol = Http | Https | Socks5Tcp | Socks5Udp

definition parse_protocol :: "rust_str \<Rightarrow> (policy_error, network_rule_protocol) result" where
  "parse_protocol raw =
     (if raw = ''http'' then Ok Http
      else if raw \<in> {''https'', ''https_connect'', ''http-connect''} then Ok Https
      else if raw = ''socks5_tcp'' then Ok Socks5Tcp
      else if raw = ''socks5_udp'' then Ok Socks5Udp
      else Err (InvalidRule (''network_rule protocol must be one of http, https, socks5_tcp, socks5_udp (got '' @
             raw @ '')'')))"

fun as_policy_string :: "network_rule_protocol \<Rightarrow> rust_str" where
  "as_policy_string Http = ''http''"
| "as_policy_string Https = ''https''"
| "as_policy_string Socks5Tcp = ''socks5_tcp''"
| "as_policy_string Socks5Udp = ''socks5_udp''"

record network_rule =
  host :: rust_str
  protocol :: network_rule_protocol
  net_decision :: decision
  net_justification :: "rust_str option"

definition is_ascii_digit :: "char \<Rightarrow> bool" where
  "is_ascii_digit c \<longleftrightarrow> 48 \<le> byte_of c \<and> byte_of c \<le> 57"

definition trim_end_matches :: "char \<Rightarrow> rust_str \<Rightarrow> rust_str" where
  "trim_end_matches c s = rev (dropWhile (\<lambda>x. x = c) (rev s))"

definition split_once :: "char \<Rightarrow> rust_str \<Rightarrow> (rust_str \<times> rust_str) option" where
  "split_once d s =
     (case dropWhile (\<lambda>c. c \<noteq> d) s of [] \<Rightarrow> None | _ # rest \<Rightarrow> Some (takeWhile (\<lambda>c. c \<noteq> d) s, rest))"

definition rsplit_once :: "char \<Rightarrow> rust_str \<Rightarrow> (rust_str \<times> rust_str) option" where
  "rsplit_once d s = map_option (\<lambda>(b, a). (rev a, rev b)) (split_once d (rev s))"

definition is_port :: "rust_str \<Rightarrow> bool" where
  "is_port port \<longleftrightarrow> port \<noteq> [] \<and> list_all is_ascii_digit port"

abbreviation invalid_rule :: "rust_str \<Rightarrow> (policy_error, 'b) result" where
  "invalid_rule msg \<equiv> Err (InvalidRule msg)"

text \<open>The host without brackets and port.\<close>

definition strip_host_port :: "rust_str \<Rightarrow> rust_str \<Rightarrow> (policy_error, rust_str) result" where
  "strip_host_port raw h =
     (case strip_prefix ''['' h of
        Some stripped \<Rightarrow>
          (case split_once CHR '']'' stripped of
             None \<Rightarrow> invalid_rule ''network_rule host has an invalid bracketed IPv6 literal''
           | Some (inside, rest) \<Rightarrow>
               if rest \<noteq> [] \<and> \<not> (case strip_prefix '':'' rest of Some port \<Rightarrow> is_port port | None \<Rightarrow> False)
               then invalid_rule (''network_rule host contains an unsupported suffix: '' @ raw)
               else Ok inside)
      | None \<Rightarrow>
          Ok (if length (filter (\<lambda>c. c = CHR '':'') h) = 1
              then (case rsplit_once CHR '':'' h of
                      Some (candidate, port) \<Rightarrow> if candidate \<noteq> [] \<and> is_port port then candidate else h
                    | None \<Rightarrow> h)
              else h))"

definition normalize_network_rule_host :: "rust_str \<Rightarrow> (policy_error, rust_str) result" where
  "normalize_network_rule_host raw =
     (let h = trim raw
      in if h = [] then invalid_rule ''network_rule host cannot be empty''
         else if sublist ''://'' h \<or> CHR ''/'' \<in> set h \<or> CHR ''?'' \<in> set h \<or> CHR ''#'' \<in> set h
         then invalid_rule ''network_rule host must be a hostname or IP literal (without scheme or path)''
         else bind_result (strip_host_port raw h) (\<lambda>h.
           let normalized = to_ascii_lowercase (trim (trim_end_matches CHR ''.'' h))
           in if normalized = [] then invalid_rule ''network_rule host cannot be empty''
              else if CHR ''*'' \<in> set normalized
              then invalid_rule ''network_rule host must be a specific host; wildcards are not allowed''
              else if list_ex is_whitespace (utf8_chars normalized)
              then invalid_rule ''network_rule host cannot contain whitespace''
              else Ok normalized))"

section \<open>Policies\<close>

record 'a abs_paths =
  to_absolute :: "rust_str \<Rightarrow> 'a option"   \<comment> \<open>\<open>AbsolutePathBuf::try_from\<close>\<close>
  path_file_name :: "'a \<Rightarrow> rust_str option"

definition executable_lookup_key :: "rust_str \<Rightarrow> rust_str" where
  "executable_lookup_key raw = raw"

definition executable_path_lookup_key :: "'a abs_paths \<Rightarrow> 'a \<Rightarrow> rust_str option" where
  "executable_path_lookup_key A p = map_option executable_lookup_key (path_file_name A p)"

record match_options =
  resolve_host_executables :: bool

definition default_options :: match_options where
  "default_options = \<lparr>resolve_host_executables = False\<rparr>"

record 'a policy =
  rules_by_program :: "(rust_str \<times> prefix_rule list) list"
  network_rules :: "network_rule list"
  host_executables_by_name :: "(rust_str \<times> 'a list) list"

definition empty_policy :: "'a policy" where
  "empty_policy = \<lparr>rules_by_program = [], network_rules = [], host_executables_by_name = []\<rparr>"

definition get_vec :: "(rust_str \<times> prefix_rule list) list \<Rightarrow> rust_str \<Rightarrow> prefix_rule list" where
  "get_vec m k = (case map_of m k of Some rs \<Rightarrow> rs | None \<Rightarrow> [])"

definition multimap_insert ::
    "rust_str \<Rightarrow> prefix_rule \<Rightarrow> (rust_str \<times> prefix_rule list) list \<Rightarrow> (rust_str \<times> prefix_rule list) list" where
  "multimap_insert k r m = AList.update k (get_vec m k @ [r]) m"

definition add_prefix_rule :: "command \<Rightarrow> decision \<Rightarrow> 'a policy \<Rightarrow> (policy_error, 'a policy) result" where
  "add_prefix_rule prefx d p =
     (case prefx of
        [] \<Rightarrow> Err (InvalidPattern ''prefix cannot be empty'')
      | t # ts \<Rightarrow>
          Ok (p\<lparr>rules_by_program := multimap_insert t
                 \<lparr>pattern = \<lparr>first_token = t, rest_tokens = map Single ts\<rparr>, rule_decision = d,
                  rule_justification = None\<rparr> (rules_by_program p)\<rparr>))"

definition justification_ok :: "rust_str option \<Rightarrow> bool" where
  "justification_ok j = (case j of Some raw \<Rightarrow> trim raw \<noteq> [] | None \<Rightarrow> True)"

definition add_network_rule ::
    "rust_str \<Rightarrow> network_rule_protocol \<Rightarrow> decision \<Rightarrow> rust_str option \<Rightarrow> 'a policy \<Rightarrow>
     (policy_error, 'a policy) result" where
  "add_network_rule raw pr d j p =
     bind_result (normalize_network_rule_host raw) (\<lambda>h.
       if \<not> justification_ok j then invalid_rule ''justification cannot be empty''
       else Ok (p\<lparr>network_rules := network_rules p @
              [\<lparr>host = h, protocol = pr, net_decision = d, net_justification = j\<rparr>]\<rparr>))"

definition set_host_executable_paths :: "rust_str \<Rightarrow> 'a list \<Rightarrow> 'a policy \<Rightarrow> 'a policy" where
  "set_host_executable_paths name paths p =
     p\<lparr>host_executables_by_name := AList.update name paths (host_executables_by_name p)\<rparr>"

definition merge_overlay :: "'a policy \<Rightarrow> 'a policy \<Rightarrow> 'a policy" where
  "merge_overlay p overlay =
     \<lparr>rules_by_program =
        fold (\<lambda>(program, rules) m. fold (multimap_insert program) rules m)
          (rules_by_program overlay) (rules_by_program p),
      network_rules = network_rules p @ network_rules overlay,
      host_executables_by_name =
        fold (\<lambda>(name, paths). AList.update name paths)
          (host_executables_by_name overlay) (host_executables_by_name p)\<rparr>"

definition upsert_domain :: "rust_str \<Rightarrow> rust_str list \<Rightarrow> rust_str list" where
  "upsert_domain h entries = filter (\<lambda>entry. entry \<noteq> h) entries @ [h]"

definition compile_domain ::
    "network_rule \<Rightarrow> rust_str list \<times> rust_str list \<Rightarrow> rust_str list \<times> rust_str list" where
  "compile_domain r acc =
     (case acc of (allowed, denied) \<Rightarrow>
        (case net_decision r of
           Allow \<Rightarrow> (upsert_domain (host r) allowed, filter (\<lambda>entry. entry \<noteq> host r) denied)
         | Forbidden \<Rightarrow> (filter (\<lambda>entry. entry \<noteq> host r) allowed, upsert_domain (host r) denied)
         | Prompt \<Rightarrow> (allowed, denied)))"

definition compiled_network_domains :: "'a policy \<Rightarrow> rust_str list \<times> rust_str list" where
  "compiled_network_domains p = fold compile_domain (network_rules p) ([], [])"

definition render_pattern_token :: "pattern_token \<Rightarrow> rust_str" where
  "render_pattern_token t =
     (case t of Single v \<Rightarrow> v | Alts alternatives \<Rightarrow> ''['' @ join_with ''|'' alternatives @ '']'')"

definition get_allowed_prefixes :: "'a policy \<Rightarrow> command list" where
  "get_allowed_prefixes p =
     remdups_adj (sort (concat (map (\<lambda>(_, rules).
       map (\<lambda>r. first_token (pattern r) # map render_pattern_token (rest_tokens (pattern r)))
         (filter (\<lambda>r. rule_decision r = Allow) rules)) (rules_by_program p))))"

section \<open>Matching\<close>

definition match_exact_rules :: "'a policy \<Rightarrow> command \<Rightarrow> 'a rule_match list option" where
  "match_exact_rules p cmd =
     (case cmd of
        [] \<Rightarrow> None
      | c # _ \<Rightarrow> Some (List.map_filter (\<lambda>r. rule_matches r cmd) (get_vec (rules_by_program p) c)))"

definition match_host_executable_rules :: "'a abs_paths \<Rightarrow> 'a policy \<Rightarrow> command \<Rightarrow> 'a rule_match list" where
  "match_host_executable_rules A p cmd =
     (case cmd of
        [] \<Rightarrow> []
      | c # args \<Rightarrow>
          (case to_absolute A c of
             None \<Rightarrow> []
           | Some program \<Rightarrow>
               (case executable_path_lookup_key A program of
                  None \<Rightarrow> []
                | Some basename \<Rightarrow>
                    (case map_of (rules_by_program p) basename of
                       None \<Rightarrow> []
                     | Some rules \<Rightarrow>
                         if (case map_of (host_executables_by_name p) basename of
                               Some paths \<Rightarrow> program \<notin> set paths | None \<Rightarrow> False)
                         then []
                         else map (with_resolved_program program)
                                (List.map_filter (\<lambda>r. rule_matches r (basename # args)) rules)))))"

definition matches_for_command_with_options ::
    "'a abs_paths \<Rightarrow> 'a policy \<Rightarrow> command \<Rightarrow> (command \<Rightarrow> decision) option \<Rightarrow> match_options \<Rightarrow>
     'a rule_match list" where
  "matches_for_command_with_options A p cmd heuristics_fallback options =
     (let matched_rules =
            (case match_exact_rules p cmd of
               Some (m # ms) \<Rightarrow> m # ms
             | _ \<Rightarrow> if resolve_host_executables options then match_host_executable_rules A p cmd else [])
      in case heuristics_fallback of
           Some fallback \<Rightarrow>
             if matched_rules = [] then [HeuristicsRuleMatch cmd (fallback cmd)] else matched_rules
         | None \<Rightarrow> matched_rules)"

record 'a evaluation =
  eval_decision :: decision
  matched_rules :: "'a rule_match list"

text \<open>\<open>None\<close> is the panic of \<open>expect\<close>.\<close>

definition from_matches :: "'a rule_match list \<Rightarrow> 'a evaluation option" where
  "from_matches ms =
     (case map match_decision ms of
        [] \<Rightarrow> None
      | d # ds \<Rightarrow> Some \<lparr>eval_decision = fold max ds d, matched_rules = ms\<rparr>)"

definition is_match :: "'a evaluation \<Rightarrow> bool" where
  "is_match e = list_ex (\<lambda>m. case m of HeuristicsRuleMatch _ _ \<Rightarrow> False | _ \<Rightarrow> True) (matched_rules e)"

definition check_with_options ::
    "'a abs_paths \<Rightarrow> 'a policy \<Rightarrow> command \<Rightarrow> (command \<Rightarrow> decision) \<Rightarrow> match_options \<Rightarrow> 'a evaluation option" where
  "check_with_options A p cmd fallback options =
     from_matches (matches_for_command_with_options A p cmd (Some fallback) options)"

definition check :: "'a abs_paths \<Rightarrow> 'a policy \<Rightarrow> command \<Rightarrow> (command \<Rightarrow> decision) \<Rightarrow> 'a evaluation option" where
  "check A p cmd fallback = check_with_options A p cmd fallback default_options"

definition check_multiple_with_options ::
    "'a abs_paths \<Rightarrow> 'a policy \<Rightarrow> command list \<Rightarrow> (command \<Rightarrow> decision) \<Rightarrow> match_options \<Rightarrow> 'a evaluation option" where
  "check_multiple_with_options A p commands fallback options =
     from_matches (concat (map (\<lambda>c. matches_for_command_with_options A p c (Some fallback) options) commands))"

end
