(* ===== verification/Exec_Policy_Props.thy ===== *)
theory Exec_Policy_Props
  imports Exec_Policy
begin

text \<open>
  What a policy decides: prefix matching against its specification, the strictest rule wins,
  overlays never weaken a matched command, the compiled network domains follow the last rule.
\<close>

section \<open>Prefix patterns\<close>

definition pattern_tokens :: "prefix_pattern \<Rightarrow> pattern_token list" where
  "pattern_tokens p = Single (first_token p) # rest_tokens p"

lemma list_all_zip_iff:
  "length xs = length ys \<Longrightarrow> list_all (\<lambda>(x, y). P x y) (zip xs ys) \<longleftrightarrow> list_all2 P xs ys"
  by (auto simp: list_all_iff list_all2_iff)

lemma matches_prefix_iff:
  "matches_prefix p cmd = Some m \<longleftrightarrow> (\<exists>rest. cmd = m @ rest \<and> list_all2 token_matches (pattern_tokens p) m)"
proof
  let ?n = "length (rest_tokens p)"
  assume "matches_prefix p cmd = Some m"
  then have len: "?n < length cmd" and hd: "cmd ! 0 = first_token p" and m: "m = take (Suc ?n) cmd"
    and all: "list_all (\<lambda>(x, y). token_matches x y) (zip (rest_tokens p) (take ?n (drop 1 cmd)))"
    by (auto simp: matches_prefix_def Let_def split: if_splits)
  from len obtain c cs where cmd: "cmd = c # cs" by (cases cmd) auto
  with all len have "list_all2 token_matches (rest_tokens p) (take ?n cs)"
    by (simp add: list_all_zip_iff)
  with cmd hd m show "\<exists>rest. cmd = m @ rest \<and> list_all2 token_matches (pattern_tokens p) m"
    by (intro exI[of _ "drop (Suc ?n) cmd"]) (simp add: pattern_tokens_def)
next
  assume "\<exists>rest. cmd = m @ rest \<and> list_all2 token_matches (pattern_tokens p) m"
  then obtain rest c cs where cmd: "cmd = (c # cs) @ rest" "m = c # cs" "c = first_token p"
    and all: "list_all2 token_matches (rest_tokens p) cs"
    by (auto simp: pattern_tokens_def list_all2_Cons1)
  from list_all2_lengthD[OF all] have "take (length (rest_tokens p)) (cs @ rest) = cs" by simp
  with all cmd show "matches_prefix p cmd = Some m"
    by (auto simp: matches_prefix_def list_all_zip_iff list_all2_lengthD)
qed

lemma rule_matches_append:
  "rule_matches r cmd = Some m \<Longrightarrow> rule_matches r (cmd @ extra) = Some m"
  by (auto simp: rule_matches_def matches_prefix_iff)

section \<open>The strictest match decides\<close>

lemma from_matches_Max:
  "ms \<noteq> [] \<Longrightarrow> from_matches ms = Some \<lparr>eval_decision = Max (match_decision ` set ms), matched_rules = ms\<rparr>"
proof (cases ms)
  case (Cons m ms')
  have "Max (match_decision ` set ms) = fold max (map match_decision ms') (match_decision m)"
    using Max.set_eq_fold[of "match_decision m" "map match_decision ms'"] Cons by simp
  then show ?thesis using Cons by (simp add: from_matches_def)
qed simp

lemma Max_UNION:
  fixes D :: "'b \<Rightarrow> 'c :: linorder set"
  assumes "finite S" "S \<noteq> {}" "\<And>s. s \<in> S \<Longrightarrow> finite (D s) \<and> D s \<noteq> {}"
  shows "Max (\<Union> (D ` S)) = Max ((\<lambda>s. Max (D s)) ` S)"
proof (rule Max_eqI)
  show "finite (\<Union> (D ` S))" using assms by auto
  show "x \<le> Max ((\<lambda>s. Max (D s)) ` S)" if "x \<in> \<Union> (D ` S)" for x
  proof -
    from that obtain s where s: "s \<in> S" "x \<in> D s" by blast
    then have "x \<le> Max (D s)" using assms by simp
    also have "\<dots> \<le> Max ((\<lambda>s. Max (D s)) ` S)" using assms s by (intro Max_ge) auto
    finally show ?thesis .
  qed
  have "Max ((\<lambda>s. Max (D s)) ` S) \<in> (\<lambda>s. Max (D s)) ` S" using assms by (intro Max_in) auto
  then obtain s where "s \<in> S" "Max ((\<lambda>s. Max (D s)) ` S) = Max (D s)" by blast
  then show "Max ((\<lambda>s. Max (D s)) ` S) \<in> \<Union> (D ` S)" using Max_in[of "D s"] assms(3)[of s] by (simp add: bexI[of _ s])
qed

lemma fallback_nonempty [simp]: "matches_for_command_with_options A p cmd (Some f) opt \<noteq> []"
  by (simp add: matches_for_command_with_options_def Let_def)

lemma match_exact_rules_Cons:
  "match_exact_rules p (c # cs) = Some ms \<longleftrightarrow>
     ms = List.map_filter (\<lambda>r. rule_matches r (c # cs)) (get_vec (rules_by_program p) c)"
  by (auto simp: match_exact_rules_def)

lemma set_map_filter: "set (List.map_filter f xs) = {y. \<exists>x \<in> set xs. f x = Some y}"
  by (force simp: List.map_filter_def)

lemma exact_matches_used:
  assumes "match_exact_rules p cmd = Some ms" "ms \<noteq> []"
  shows "matches_for_command_with_options A p cmd f opt = ms"
  using assms by (cases ms) (auto simp: matches_for_command_with_options_def Let_def split: option.splits)

section \<open>Multimaps\<close>

lemma get_vec_insert: "get_vec (multimap_insert k r m) j = (if j = k then get_vec m k @ [r] else get_vec m j)"
  by (simp add: multimap_insert_def get_vec_def update_conv')

lemma get_vec_insert_all: "get_vec (fold (multimap_insert k) rs m) j = (if j = k then get_vec m k @ rs else get_vec m j)"
  by (induction rs arbitrary: m) (simp_all add: get_vec_insert)

lemma get_vec_merge:
  "distinct (map fst entries) \<Longrightarrow>
   get_vec (fold (\<lambda>(k, rs) m. fold (multimap_insert k) rs m) entries m) j = get_vec m j @ get_vec entries j"
proof (induction entries arbitrary: m)
  case (Cons e entries)
  obtain k rs where e: "e = (k, rs)" by (cases e)
  have "k \<notin> set (map fst entries)" using Cons.prems e by simp
  then have none: "get_vec entries k = []" by (simp add: get_vec_def map_of_eq_None_iff[THEN iffD2])
  show ?case using Cons e none by (auto simp: get_vec_insert_all) (simp_all add: get_vec_def)
qed (simp add: get_vec_def)

definition policy_wf :: "'a policy \<Rightarrow> bool" where
  "policy_wf p \<longleftrightarrow> distinct (map fst (rules_by_program p)) \<and>
     (\<forall>(k, rs) \<in> set (rules_by_program p). \<forall>r \<in> set rs. rule_program r = k)"

lemma exact_rules_merge:
  assumes "policy_wf q"
  shows "match_exact_rules (merge_overlay p q) cmd =
    (case cmd of [] \<Rightarrow> None
     | c # _ \<Rightarrow> Some (List.map_filter (\<lambda>r. rule_matches r cmd) (get_vec (rules_by_program p) c) @
                     List.map_filter (\<lambda>r. rule_matches r cmd) (get_vec (rules_by_program q) c)))"
  using assms
  by (cases cmd) (simp_all add: match_exact_rules_def merge_overlay_def policy_wf_def get_vec_merge
      List.map_filter_def)

section \<open>Properties\<close>

text \<open>
  Prefix matching is exactly what the pattern says: a command matches when its first tokens
  are, one by one, accepted by the tokens of the pattern; the match is that prefix, and further
  arguments never change it.
\<close>

theorem matches_prefix_spec:
  "(matches_prefix p cmd = Some m \<longleftrightarrow>
      (\<exists>rest. cmd = m @ rest \<and> list_all2 token_matches (pattern_tokens p) m)) \<and>
   (matches_prefix p cmd = Some m \<longrightarrow> matches_prefix p (cmd @ extra) = Some m)"
  by (auto simp: matches_prefix_iff)

theorem matches_prefix_spec_witness:
  "matches_prefix \<lparr>first_token = ''git'', rest_tokens = [Alts [''push'', ''pull'']]\<rparr> ([''git'', ''push''] @ [''-f''])
     = Some [''git'', ''push'']"
  using matches_prefix_spec[of "\<lparr>first_token = ''git'', rest_tokens = [Alts [''push'', ''pull'']]\<rparr>"
      "[''git'', ''push'']" "[''git'', ''push'']" "[''-f'']"]
  by (simp add: pattern_tokens_def)


text \<open>
  No rule can soften a forbidding one: when some rule filed under the program of a command
  forbids it, the decision is \<open>Forbidden\<close>, whatever the other rules, the fallback and the options.
\<close>

theorem forbidden_rule_wins:
  assumes "r \<in> set (get_vec (rules_by_program p) c)" "rule_decision r = Forbidden"
    "matches_prefix (pattern r) (c # args) \<noteq> None"
  shows "\<exists>e. check_with_options A p (c # args) f opt = Some e \<and> eval_decision e = Forbidden"
proof -
  let ?ms = "List.map_filter (\<lambda>r. rule_matches r (c # args)) (get_vec (rules_by_program p) c) :: 'a rule_match list"
  obtain m where m: "matches_prefix (pattern r) (c # args) = Some m" using assms(3) by blast
  let ?match = "PrefixRuleMatch m Forbidden None (rule_justification r)"
  have "rule_matches r (c # args) = Some ?match" using m assms(2) by (simp add: rule_matches_def)
  then have mem: "?match \<in> set ?ms" using assms(1) by (auto simp: set_map_filter)
  have used: "matches_for_command_with_options A p (c # args) (Some f) opt = ?ms"
    using mem by (intro exact_matches_used) (auto simp: match_exact_rules_def)
  have "Max (match_decision ` set ?ms) = Forbidden"
  proof (rule Max_eqI)
    show "Forbidden \<in> match_decision ` set ?ms" using mem by force
    show "d \<le> Forbidden" for d by (cases d) (simp_all add: less_eq_decision_def)
  qed simp
  moreover have "from_matches ?ms = Some \<lparr>eval_decision = Max (match_decision ` set ?ms), matched_rules = ?ms\<rparr>"
    using mem by (intro from_matches_Max) auto
  ultimately show ?thesis by (simp add: check_with_options_def used)
qed

definition sample_rule :: "decision \<Rightarrow> prefix_rule" where
  "sample_rule d = \<lparr>pattern = \<lparr>first_token = ''rm'', rest_tokens = [Single ''-rf'']\<rparr>, rule_decision = d,
     rule_justification = None\<rparr>"

definition sample_policy :: "decision \<Rightarrow> unit policy" where
  "sample_policy d = \<lparr>rules_by_program = [(''rm'', [sample_rule Allow, sample_rule d])], network_rules = [],
     host_executables_by_name = []\<rparr>"

definition no_paths :: "unit abs_paths" where
  "no_paths = \<lparr>to_absolute = (\<lambda>_. None), path_file_name = (\<lambda>_. None)\<rparr>"

theorem forbidden_rule_wins_witness:
  "\<exists>e. check_with_options no_paths (sample_policy Forbidden) (''rm'' # [''-rf'', ''/'']) (\<lambda>_. Allow) default_options
     = Some e \<and> eval_decision e = Forbidden"
  by (rule forbidden_rule_wins[of "sample_rule Forbidden"]; code_simp)



text \<open>
  Adding a prefix rule changes exactly the commands that start with the prefix: these gain one
  match with the given decision after the matches they had, all others keep theirs.
\<close>

theorem add_prefix_rule_effect:
  assumes "add_prefix_rule prefx d p = Inr p'"
  shows "match_exact_rules p' cmd =
    map_option (\<lambda>ms. ms @ (if prefix prefx cmd then [PrefixRuleMatch prefx d None None] else []))
      (match_exact_rules p cmd)"
proof -
  from assms obtain t ts where pre: "prefx = t # ts" by (cases prefx) (auto simp: add_prefix_rule_def)
  let ?r = "\<lparr>pattern = \<lparr>first_token = t, rest_tokens = map Single ts\<rparr>, rule_decision = d, rule_justification = None\<rparr>"
  have p': "rules_by_program p' = multimap_insert t ?r (rules_by_program p)"
    using assms pre by (auto simp: add_prefix_rule_def)
  have "list_all2 token_matches (map Single xs) ys \<longleftrightarrow> xs = ys" for xs ys
    by (auto simp: list_all2_conv_all_nth intro: nth_equalityI)
  then have "matches_prefix (pattern ?r) cmd = Some m \<longleftrightarrow> m = prefx \<and> prefix prefx cmd" for m
    using matches_prefix_iff[of "pattern ?r" cmd m] pre
    by (auto simp: pattern_tokens_def list_all2_Cons1 prefix_def)
  then have "matches_prefix (pattern ?r) cmd = (if prefix prefx cmd then Some prefx else None)"
    by (cases "matches_prefix (pattern ?r) cmd") auto
  then show ?thesis
    by (cases cmd) (auto simp: match_exact_rules_def p' get_vec_insert List.map_filter_def rule_matches_def pre
        split: if_splits)
qed

theorem add_prefix_rule_effect_witness:
  "\<exists>p'. add_prefix_rule [''git'', ''status''] Allow (empty_policy :: unit policy) = Inr p' \<and>
     match_exact_rules p' [''git'', ''status'', ''-s''] = Some [PrefixRuleMatch [''git'', ''status''] Allow None None]"
proof -
  obtain p' where p': "add_prefix_rule [''git'', ''status''] Allow (empty_policy :: unit policy) = Inr p'"
    by (simp add: add_prefix_rule_def)
  from add_prefix_rule_effect[OF this, of "[''git'', ''status'', ''-s'']"] p' show ?thesis
    by (simp add: match_exact_rules_def empty_policy_def get_vec_def List.map_filter_def)
qed

definition last_word :: "network_rule list \<Rightarrow> rust_str \<Rightarrow> decision option" where
  "last_word rs h = last_opt (map net_decision (filter (\<lambda>r. host r = h \<and> net_decision r \<noteq> Prompt) rs))"

lemma last_word_snoc:
  "last_word (rs @ [r]) h =
     (if host r = h \<and> net_decision r \<noteq> Prompt then Some (net_decision r) else last_word rs h)"
  by (simp add: last_word_def last_opt_def)

lemma compiled_domains_inv:
  "case fold compile_domain rs ([], []) of (allowed, denied) \<Rightarrow>
     distinct allowed \<and> distinct denied \<and>
     (\<forall>h. (h \<in> set allowed \<longleftrightarrow> last_word rs h = Some Allow) \<and>
          (h \<in> set denied \<longleftrightarrow> last_word rs h = Some Forbidden))"
proof (induction rs rule: rev_induct)
  case (snoc r rs)
  obtain al de where ad: "fold compile_domain rs ([], []) = (al, de)" by (meson surj_pair)
  with snoc have inv: "distinct al" "distinct de" "\<And>h. h \<in> set al \<longleftrightarrow> last_word rs h = Some Allow"
    "\<And>h. h \<in> set de \<longleftrightarrow> last_word rs h = Some Forbidden" by auto
  have eq: "fold compile_domain (rs @ [r]) ([], []) = compile_domain r (al, de)" using ad by simp
  show ?case unfolding eq using inv(1,2)
    by (cases "net_decision r") (auto simp: compile_domain_def upsert_domain_def last_word_snoc inv(3,4))
qed (simp add: last_word_def)

text \<open>
  The compiled domain lists are a function of the last word on each host: a host is allowed
  (denied) exactly when its last rule that is not \<open>Prompt\<close> allows (forbids) it, so the two lists
  are disjoint, and neither has duplicates.
\<close>

theorem compiled_domains_last_rule_wins:
  "case compiled_network_domains p of (allowed, denied) \<Rightarrow>
     distinct allowed \<and> distinct denied \<and>
     (\<forall>h. (h \<in> set allowed \<longleftrightarrow> last_word (network_rules p) h = Some Allow) \<and>
          (h \<in> set denied \<longleftrightarrow> last_word (network_rules p) h = Some Forbidden))"
  unfolding compiled_network_domains_def by (rule compiled_domains_inv)

section \<open>Host normalisation\<close>

lemma ascii_lower_idem [simp]: "ascii_lower (ascii_lower c) = ascii_lower c"
proof (cases "65 \<le> byte_of c \<and> byte_of c \<le> 90")
  case True
  then have "byte_of (char_of (byte_of c + 32) :: char) = byte_of c + 32" by simp
  then show ?thesis using True by (simp add: ascii_lower_def)
qed (auto simp: ascii_lower_def)

lemma ascii_lower_eq:
  assumes "byte_of d < 65 \<or> 122 < byte_of d"
  shows "ascii_lower c = d \<longleftrightarrow> c = d"
proof (cases "65 \<le> byte_of c \<and> byte_of c \<le> 90")
  case True
  then have "byte_of (ascii_lower c) = byte_of c + 32" by (simp add: ascii_lower_def)
  then show ?thesis using True assms by auto
qed (auto simp: ascii_lower_def)

lemma trim_no_whitespace:
  assumes "\<not> list_ex is_whitespace (utf8_chars s)"
  shows "trim s = s"
proof -
  have none: "\<forall>u \<in> set (utf8_chars s). \<not> is_whitespace u" using assms by (simp add: list_ex_iff)
  have dw: "dropWhile is_whitespace us = us" if "\<forall>u \<in> set us. \<not> is_whitespace u" for us
    using that by (cases us) auto
  have "trim_end s = s" unfolding trim_end_def using dw[of "rev (utf8_chars s)"] none by simp
  moreover have "trim_start s = s" unfolding trim_start_def using dw[OF none] by simp
  ultimately show ?thesis by (simp add: trim_def)
qed

lemma set_trim_end_matches: "set (trim_end_matches c s) \<subseteq> set s"
  by (auto simp: trim_end_matches_def dest: set_dropWhileD)

lemma split_once_set: "split_once d s = Some (a, b) \<Longrightarrow> set a \<subseteq> set s \<and> set b \<subseteq> set s"
proof -
  assume "split_once d s = Some (a, b)"
  then obtain x where "a = takeWhile (\<lambda>c. c \<noteq> d) s" and b: "dropWhile (\<lambda>c. c \<noteq> d) s = x # b"
    by (auto simp: split_once_def split: list.splits)
  then have "s = a @ x # b" by (metis takeWhile_dropWhile_id)
  then show ?thesis by auto
qed

lemma strip_host_port_set: "strip_host_port raw h = Inr h' \<Longrightarrow> set h' \<subseteq> set h"
  by (auto simp: strip_host_port_def rsplit_once_def strip_prefix_Some
      split: option.splits if_splits prod.splits dest!: split_once_set)

definition host_normal :: "rust_str \<Rightarrow> bool" where
  "host_normal h \<longleftrightarrow> h \<noteq> [] \<and> to_ascii_lowercase h = h \<and> \<not> list_ex is_whitespace (utf8_chars h) \<and>
     set h \<inter> {CHR ''*'', CHR ''/'', CHR ''?'', CHR ''#''} = {}"

lemma normalize_host_normal: "normalize_network_rule_host raw = Inr h \<Longrightarrow> host_normal h"
proof -
  assume ok: "normalize_network_rule_host raw = Inr h"
  let ?bad = "{CHR ''/'', CHR ''?'', CHR ''#''}"
  obtain x where no: "set (trim raw) \<inter> ?bad = {}" and x: "strip_host_port raw (trim raw) = Inr x"
    and h: "h = to_ascii_lowercase (trim (trim_end_matches CHR ''.'' x))" "h \<noteq> []"
      "CHR ''*'' \<notin> set h" "\<not> list_ex is_whitespace (utf8_chars h)"
    using ok by (auto simp: normalize_network_rule_host_def Let_def bind_result_eq_Inr split: if_splits)
  have "set (trim (trim_end_matches CHR ''.'' x)) \<subseteq> set (trim raw)"
    using set_trim[of "trim_end_matches CHR ''.'' x"] set_trim_end_matches[of _ x] strip_host_port_set[OF x] by blast
  moreover have "c \<in> ?bad" if "ascii_lower c \<in> ?bad" for c using that by (auto simp: ascii_lower_eq)
  ultimately have "set h \<inter> ?bad = {}" using no unfolding h(1) by fastforce
  with h show ?thesis by (auto simp: host_normal_def)
qed

text \<open>
  A normalised host is in normal form: not empty, lower case, without white space, wildcard or
  URL syntax. Normalising it again, which happens when an amended policy file is read back,
  changes nothing unless it ends in a dot, starts with a bracket or has exactly one colon.
\<close>

theorem normalized_host_stable:
  assumes "normalize_network_rule_host raw = Inr h"
  shows "host_normal h \<and>
    (last h \<noteq> CHR ''.'' \<longrightarrow> hd h \<noteq> CHR ''['' \<longrightarrow> length (filter (\<lambda>c. c = CHR '':'') h) \<noteq> 1 \<longrightarrow>
     normalize_network_rule_host h = Inr h)"
proof (intro conjI impI)
  show n: "host_normal h" using assms by (rule normalize_host_normal)
  assume last: "last h \<noteq> CHR ''.''" and br: "hd h \<noteq> CHR ''[''" and col: "length (filter (\<lambda>c. c = CHR '':'') h) \<noteq> 1"
  have ne: "h \<noteq> []" and tr: "trim h = h" using n trim_no_whitespace by (auto simp: host_normal_def)
  have "trim_end_matches CHR ''.'' h = h"
    using ne last by (cases h rule: rev_cases) (auto simp: trim_end_matches_def)
  moreover have "strip_host_port h h = Inr h"
    using br col ne by (cases h) (auto simp: strip_host_port_def strip_prefix_def)
  moreover have "\<not> sublist ''://'' h"
    using n set_mono_sublist[of "''://''" h] by (auto simp: host_normal_def)
  ultimately show "normalize_network_rule_host h = Inr h"
    using n tr by (auto simp: normalize_network_rule_host_def host_normal_def Let_def)
qed

theorem normalized_host_stable_witness:
  "normalize_network_rule_host ''api.github.com'' = Inr ''api.github.com''"
proof -
  have "normalize_network_rule_host '' Api.GitHub.com:443 '' = Inr ''api.github.com''" by code_simp
  from normalized_host_stable[OF this] show ?thesis by simp
qed

end
