(* ===== verification/Policy_Parser.thy ===== *)
theory Policy_Parser
  imports Exec_Policy_Props
begin

text \<open>
  \<open>execpolicy/src/parser.rs\<close>: the builtins that a policy file calls and the builder they fill. The
  Starlark evaluator (a third-party crate) is the parameter \<open>starlark\<close>: it turns the text of a
  policy file into a syntax error or the sequence of builtin calls that the module makes, with the
  error that ends it, if any. The builtins return nothing, so the sequence cannot depend on them;
  a builtin that fails ends the evaluation. \<open>shlex_split\<close> stands for \<open>shlex::split\<close>. Source
  locations are not modelled.
\<close>

section \<open>Values and calls\<close>

datatype starlark_value = VStr rust_str | VList "starlark_value list" | VOther rust_str

fun value_type :: "starlark_value \<Rightarrow> rust_str" where
  "value_type (VStr _) = ''string''"
| "value_type (VList _) = ''list''"
| "value_type (VOther ty) = ty"

datatype builtin_call =
    PrefixRuleCall "starlark_value list" "rust_str option" "starlark_value list option"
      "starlark_value list option" "rust_str option"
      \<comment> \<open>pattern, decision, match, not\_match, justification\<close>
  | NetworkRuleCall rust_str rust_str rust_str "rust_str option"
      \<comment> \<open>host, protocol, decision, justification\<close>
  | HostExecutableCall rust_str "starlark_value list"

type_synonym starlark_eval =
  "rust_str \<Rightarrow> rust_str \<Rightarrow> (policy_error, builtin_call list \<times> policy_error option) result"

text \<open>\<open>collect::<Result<Vec<_>, _>>\<close>: all values, or the first error.\<close>

fun collect_results :: "('a \<Rightarrow> ('e, 'b) result) \<Rightarrow> 'a list \<Rightarrow> ('e, 'b list) result" where
  "collect_results f [] = Ok []"
| "collect_results f (x # xs) =
     bind_result (f x) (\<lambda>y. bind_result (collect_results f xs) (\<lambda>ys. Ok (y # ys)))"

section \<open>The builder\<close>

record pending_example_validation =
  pending_rules :: "prefix_rule list"
  pending_matches :: "command list"
  pending_not_matches :: "command list"

record 'a policy_builder = "'a policy" +
  pending_example_validations :: "pending_example_validation list"

definition new_builder :: "'a policy_builder" where
  "new_builder = \<lparr>rules_by_program = [], network_rules = [], host_executables_by_name = [],
     pending_example_validations = []\<rparr>"

definition add_rule :: "prefix_rule \<Rightarrow> 'a policy_builder \<Rightarrow> 'a policy_builder" where
  "add_rule r b = b\<lparr>rules_by_program := multimap_insert (rule_program r) r (rules_by_program b)\<rparr>"

definition builder_add_network_rule :: "network_rule \<Rightarrow> 'a policy_builder \<Rightarrow> 'a policy_builder" where
  "builder_add_network_rule r b = b\<lparr>network_rules := network_rules b @ [r]\<rparr>"

definition add_host_executable :: "rust_str \<Rightarrow> 'a list \<Rightarrow> 'a policy_builder \<Rightarrow> 'a policy_builder" where
  "add_host_executable name paths b =
     b\<lparr>host_executables_by_name := AList.update name paths (host_executables_by_name b)\<rparr>"

definition add_pending_example_validation ::
    "prefix_rule list \<Rightarrow> command list \<Rightarrow> command list \<Rightarrow> 'a policy_builder \<Rightarrow> 'a policy_builder" where
  "add_pending_example_validation rules ms nms b =
     b\<lparr>pending_example_validations := pending_example_validations b @
         [\<lparr>pending_rules = rules, pending_matches = ms, pending_not_matches = nms\<rparr>]\<rparr>"

definition build :: "'a policy_builder \<Rightarrow> 'a policy" where
  "build b = policy.truncate b"

section \<open>Examples\<close>

abbreviation resolving_options :: match_options where
  "resolving_options \<equiv> \<lparr>resolve_host_executables = True\<rparr>"

definition validate_match_examples :: "'a abs_paths \<Rightarrow> 'a policy \<Rightarrow> command list \<Rightarrow> (policy_error, unit) result" where
  "validate_match_examples A p ms =
     (let unmatched_examples = filter (\<lambda>ex. matches_for_command_with_options A p ex None resolving_options = []) ms
      in if unmatched_examples = [] then Ok () else Err (ExampleDidNotMatch unmatched_examples))"

fun validate_not_match_examples :: "'a abs_paths \<Rightarrow> 'a policy \<Rightarrow> command list \<Rightarrow> (policy_error, unit) result" where
  "validate_not_match_examples A p [] = Ok ()"
| "validate_not_match_examples A p (ex # exs) =
     (if matches_for_command_with_options A p ex None resolving_options \<noteq> [] then Err (ExampleDidMatch ex)
      else validate_not_match_examples A p exs)"

definition rules_policy :: "prefix_rule list \<Rightarrow> (rust_str \<times> 'a list) list \<Rightarrow> 'a policy" where
  "rules_policy rules hosts =
     \<lparr>rules_by_program = fold (\<lambda>r. multimap_insert (rule_program r) r) rules [], network_rules = [],
      host_executables_by_name = hosts\<rparr>"

fun validate_pending ::
    "'a abs_paths \<Rightarrow> (rust_str \<times> 'a list) list \<Rightarrow> pending_example_validation list \<Rightarrow> (policy_error, unit) result" where
  "validate_pending A hosts [] = Ok ()"
| "validate_pending A hosts (v # vs) =
     (let p = rules_policy (pending_rules v) hosts
      in bind_result (validate_not_match_examples A p (pending_not_matches v)) (\<lambda>_.
         bind_result (validate_match_examples A p (pending_matches v)) (\<lambda>_.
         validate_pending A hosts vs)))"

definition validate_pending_examples_from ::
    "'a abs_paths \<Rightarrow> 'a policy_builder \<Rightarrow> nat \<Rightarrow> (policy_error, unit) result" where
  "validate_pending_examples_from A b start =
     validate_pending A (host_executables_by_name b) (drop start (pending_example_validations b))"

section \<open>Parsing arguments\<close>

definition unpack_str :: "starlark_value \<Rightarrow> rust_str option" where
  "unpack_str v = (case v of VStr s \<Rightarrow> Some s | _ \<Rightarrow> None)"

definition parse_pattern_token :: "starlark_value \<Rightarrow> (policy_error, pattern_token) result" where
  "parse_pattern_token v =
     (case v of
        VStr s \<Rightarrow> Ok (Single s)
      | VList vs \<Rightarrow>
          bind_result (collect_results (\<lambda>v. case unpack_str v of
              Some s \<Rightarrow> Ok s
            | None \<Rightarrow> Err (InvalidPattern (''pattern alternative must be a string (got '' @ value_type v @ '')''))) vs)
            (\<lambda>tokens. case tokens of
               [] \<Rightarrow> Err (InvalidPattern ''pattern alternatives cannot be empty'')
             | [single] \<Rightarrow> Ok (Single single)
             | _ \<Rightarrow> Ok (Alts tokens))
      | VOther ty \<Rightarrow>
          Err (InvalidPattern (''pattern element must be a string or list of strings (got '' @ ty @ '')'')))"

definition parse_pattern :: "starlark_value list \<Rightarrow> (policy_error, pattern_token list) result" where
  "parse_pattern vs = bind_result (collect_results parse_pattern_token vs) (\<lambda>tokens.
     if tokens = [] then Err (InvalidPattern ''pattern cannot be empty'') else Ok tokens)"

definition parse_string_example :: "(rust_str \<Rightarrow> command option) \<Rightarrow> rust_str \<Rightarrow> (policy_error, command) result" where
  "parse_string_example shlex_split raw =
     (case shlex_split raw of
        None \<Rightarrow> Err (InvalidExample ''example string has invalid shell syntax'')
      | Some tokens \<Rightarrow>
          if tokens = [] then Err (InvalidExample ''example cannot be an empty string'') else Ok tokens)"

definition parse_list_example :: "starlark_value list \<Rightarrow> (policy_error, command) result" where
  "parse_list_example vs =
     bind_result (collect_results (\<lambda>v. case unpack_str v of
         Some s \<Rightarrow> Ok s
       | None \<Rightarrow> Err (InvalidExample (''example tokens must be strings (got '' @ value_type v @ '')''))) vs)
       (\<lambda>tokens. if tokens = [] then Err (InvalidExample ''example cannot be an empty list'') else Ok tokens)"

definition parse_example :: "(rust_str \<Rightarrow> command option) \<Rightarrow> starlark_value \<Rightarrow> (policy_error, command) result" where
  "parse_example shlex_split v =
     (case v of
        VStr raw \<Rightarrow> parse_string_example shlex_split raw
      | VList vs \<Rightarrow> parse_list_example vs
      | VOther ty \<Rightarrow> Err (InvalidExample (''example must be a string or list of strings (got '' @ ty @ '')'')))"

definition parse_examples ::
    "(rust_str \<Rightarrow> command option) \<Rightarrow> starlark_value list option \<Rightarrow> (policy_error, command list) result" where
  "parse_examples shlex_split vs =
     (case vs of None \<Rightarrow> Ok [] | Some vs \<Rightarrow> collect_results (parse_example shlex_split) vs)"

definition parse_network_rule_decision :: "rust_str \<Rightarrow> (policy_error, decision) result" where
  "parse_network_rule_decision raw = (if raw = ''deny'' then Ok Forbidden else parse_decision raw)"

text \<open>
  A bare executable name is a path of one component whose file name is the name itself: no
  separator, and neither \<open>.\<close> nor \<open>..\<close>.
\<close>

definition validate_host_executable_name :: "rust_str \<Rightarrow> (policy_error, unit) result" where
  "validate_host_executable_name name =
     (if name = [] then invalid_rule ''host_executable name cannot be empty''
      else if CHR ''/'' \<in> set name \<or> name = ''.'' \<or> name = ''..''
      then invalid_rule (''host_executable name must be a bare executable name (got '' @ name @ '')'')
      else Ok ())"

definition parse_literal_absolute_path :: "'a abs_paths \<Rightarrow> rust_str \<Rightarrow> (policy_error, 'a) result" where
  "parse_literal_absolute_path A raw =
     (if raw = [] \<or> hd raw \<noteq> CHR ''/''
      then invalid_rule (''host_executable paths must be absolute (got '' @ raw @ '')'')
      else (case to_absolute A raw of
              Some p \<Rightarrow> Ok p
            | None \<Rightarrow> invalid_rule (''invalid absolute path `'' @ raw @ ''`'')))"

section \<open>The builtins\<close>

definition prefix_rule_call ::
    "(rust_str \<Rightarrow> command option) \<Rightarrow> starlark_value list \<Rightarrow> rust_str option \<Rightarrow> starlark_value list option \<Rightarrow>
     starlark_value list option \<Rightarrow> rust_str option \<Rightarrow> 'a policy_builder \<Rightarrow> (policy_error, 'a policy_builder) result" where
  "prefix_rule_call shlex_split pat dec mtch not_mtch j b =
     bind_result (case dec of Some raw \<Rightarrow> parse_decision raw | None \<Rightarrow> Ok Allow) (\<lambda>d.
     if \<not> justification_ok j then invalid_rule ''justification cannot be empty''
     else bind_result (parse_pattern pat) (\<lambda>tokens.
     bind_result (parse_examples shlex_split mtch) (\<lambda>ms.
     bind_result (parse_examples shlex_split not_mtch) (\<lambda>nms.
       case tokens of
         [] \<Rightarrow> Err (InvalidPattern ''pattern cannot be empty'')
       | t # ts \<Rightarrow>
           let rules = map (\<lambda>head. \<lparr>pattern = \<lparr>first_token = head, rest_tokens = ts\<rparr>, rule_decision = d,
                               rule_justification = j\<rparr>) (token_alternatives t)
           in Ok (fold add_rule rules (add_pending_example_validation rules ms nms b))))))"

definition network_rule_call ::
    "rust_str \<Rightarrow> rust_str \<Rightarrow> rust_str \<Rightarrow> rust_str option \<Rightarrow> 'a policy_builder \<Rightarrow> (policy_error, 'a policy_builder) result" where
  "network_rule_call h pr dec j b =
     bind_result (parse_protocol pr) (\<lambda>pr.
     bind_result (parse_network_rule_decision dec) (\<lambda>d.
     if \<not> justification_ok j then invalid_rule ''justification cannot be empty''
     else bind_result (normalize_network_rule_host h) (\<lambda>h.
       Ok (builder_add_network_rule \<lparr>host = h, protocol = pr, net_decision = d, net_justification = j\<rparr> b))))"

fun host_executable_paths ::
    "'a abs_paths \<Rightarrow> rust_str \<Rightarrow> 'a list \<Rightarrow> starlark_value list \<Rightarrow> (policy_error, 'a list) result" where
  "host_executable_paths A name parsed [] = Ok parsed"
| "host_executable_paths A name parsed (v # vs) =
     (case unpack_str v of
        None \<Rightarrow> invalid_rule (''host_executable paths must be strings (got '' @ value_type v @ '')'')
      | Some raw \<Rightarrow>
          bind_result (parse_literal_absolute_path A raw) (\<lambda>path.
            if executable_path_lookup_key A path \<noteq> Some (executable_lookup_key name)
            then invalid_rule (''host_executable path `'' @ raw @ ''` must have basename `'' @ name @ ''`'')
            else host_executable_paths A name (if path \<in> set parsed then parsed else parsed @ [path]) vs))"

definition host_executable_call ::
    "'a abs_paths \<Rightarrow> rust_str \<Rightarrow> starlark_value list \<Rightarrow> 'a policy_builder \<Rightarrow> (policy_error, 'a policy_builder) result" where
  "host_executable_call A name paths b =
     bind_result (validate_host_executable_name name) (\<lambda>_.
     bind_result (host_executable_paths A name [] paths) (\<lambda>parsed.
       Ok (add_host_executable (executable_lookup_key name) parsed b)))"

definition run_call ::
    "'a abs_paths \<Rightarrow> (rust_str \<Rightarrow> command option) \<Rightarrow> builtin_call \<Rightarrow> 'a policy_builder \<Rightarrow>
     (policy_error, 'a policy_builder) result" where
  "run_call A shlex_split c b =
     (case c of
        PrefixRuleCall pat dec m nm j \<Rightarrow> prefix_rule_call shlex_split pat dec m nm j b
      | NetworkRuleCall h pr dec j \<Rightarrow> network_rule_call h pr dec j b
      | HostExecutableCall name paths \<Rightarrow> host_executable_call A name paths b)"

fun run_calls ::
    "'a abs_paths \<Rightarrow> (rust_str \<Rightarrow> command option) \<Rightarrow> builtin_call list \<Rightarrow> 'a policy_builder \<Rightarrow>
     (policy_error, unit) result \<times> 'a policy_builder" where
  "run_calls A shlex_split [] b = (Ok (), b)"
| "run_calls A shlex_split (c # cs) b =
     (case run_call A shlex_split c b of
        Inl e \<Rightarrow> (Err e, b)
      | Inr b' \<Rightarrow> run_calls A shlex_split cs b')"

text \<open>The parser keeps what the calls before a failure have added.\<close>

definition parse_policy ::
    "'a abs_paths \<Rightarrow> (rust_str \<Rightarrow> command option) \<Rightarrow> starlark_eval \<Rightarrow> rust_str \<Rightarrow> rust_str \<Rightarrow> 'a policy_builder \<Rightarrow>
     (policy_error, unit) result \<times> 'a policy_builder" where
  "parse_policy A shlex_split starlark policy_identifier contents b =
     (let pending_validation_count = length (pending_example_validations b)
      in case starlark policy_identifier contents of
           Inl e \<Rightarrow> (Err e, b)
         | Inr (calls, end_error) \<Rightarrow>
             (case run_calls A shlex_split calls b of
                (Inl e, b') \<Rightarrow> (Err e, b')
              | (Inr _, b') \<Rightarrow>
                  (case end_error of
                     Some e \<Rightarrow> (Err e, b')
                   | None \<Rightarrow> (validate_pending_examples_from A b' pending_validation_count, b'))))"

section \<open>Lemmas\<close>

lemma get_vec_rules_policy:
  "get_vec (rules_by_program (rules_policy rules hosts)) k = filter (\<lambda>r. rule_program r = k) rules"
proof -
  have "get_vec (fold (\<lambda>r. multimap_insert (rule_program r) r) rules m) k =
      get_vec m k @ filter (\<lambda>r. rule_program r = k) rules" for m
    by (induction rules arbitrary: m) (simp_all add: get_vec_insert)
  then show ?thesis by (simp add: rules_policy_def get_vec_def)
qed

lemma build_fields [simp]:
  "rules_by_program (build b) = rules_by_program b"
  "network_rules (build b) = network_rules b"
  "host_executables_by_name (build b) = host_executables_by_name b"
  by (simp_all add: build_def policy.truncate_def)

lemma get_vec_Some: "get_vec m k \<noteq> [] \<Longrightarrow> map_of m k = Some (get_vec m k)"
  by (simp add: get_vec_def split: option.splits)

lemma exact_nonempty:
  "(\<exists>ms. match_exact_rules p cmd = Some ms \<and> ms \<noteq> []) \<longleftrightarrow>
     (\<exists>c cs. cmd = c # cs \<and> (\<exists>r \<in> set (get_vec (rules_by_program p) c). matches_prefix (pattern r) cmd \<noteq> None))"
  by (cases cmd) (auto simp: match_exact_rules_def List.map_filter_def rule_matches_def filter_empty_conv)

lemma host_nonempty:
  "match_host_executable_rules A p cmd \<noteq> [] \<longleftrightarrow>
     (\<exists>c cs program basename. cmd = c # cs \<and> to_absolute A c = Some program \<and>
        executable_path_lookup_key A program = Some basename \<and>
        (\<forall>paths. map_of (host_executables_by_name p) basename = Some paths \<longrightarrow> program \<in> set paths) \<and>
        (\<exists>r \<in> set (get_vec (rules_by_program p) basename). matches_prefix (pattern r) (basename # cs) \<noteq> None))"
  by (cases cmd) (auto simp: match_host_executable_rules_def get_vec_def List.map_filter_def rule_matches_def
      filter_empty_conv split: option.splits)

lemma resolved_nonempty:
  "matches_for_command_with_options A p cmd None resolving_options \<noteq> [] \<longleftrightarrow>
     (\<exists>ms. match_exact_rules p cmd = Some ms \<and> ms \<noteq> []) \<or> match_host_executable_rules A p cmd \<noteq> []"
  by (auto simp: matches_for_command_with_options_def Let_def split: option.splits list.splits)

text \<open>More rules under the same host executables match at least the same commands.\<close>

lemma more_rules_match:
  assumes "\<And>k. set (get_vec (rules_by_program p) k) \<subseteq> set (get_vec (rules_by_program q) k)"
    "host_executables_by_name q = host_executables_by_name p"
    "matches_for_command_with_options A p cmd None resolving_options \<noteq> []"
  shows "matches_for_command_with_options A q cmd None resolving_options \<noteq> []"
proof -
  have up: "\<exists>r \<in> set (get_vec (rules_by_program q) k). matches_prefix (pattern r) cs \<noteq> None"
    if "\<exists>r \<in> set (get_vec (rules_by_program p) k). matches_prefix (pattern r) cs \<noteq> None" for k cs
    using that assms(1)[of k] by blast
  from assms(3) consider (exact) "\<exists>ms. match_exact_rules p cmd = Some ms \<and> ms \<noteq> []"
    | (host) "match_host_executable_rules A p cmd \<noteq> []" unfolding resolved_nonempty by argo
  then show ?thesis
  proof cases
    case exact
    then obtain c cs where c: "cmd = c # cs" and
      r: "\<exists>r \<in> set (get_vec (rules_by_program p) c). matches_prefix (pattern r) cmd \<noteq> None"
      unfolding exact_nonempty by blast
    have "\<exists>ms. match_exact_rules q cmd = Some ms \<and> ms \<noteq> []"
      by (rule exact_nonempty[THEN iffD2]) (intro exI conjI; fact c up[OF r])
    then show ?thesis by (simp only: resolved_nonempty simp_thms)
  next
    case host
    then obtain c cs program basename where h: "cmd = c # cs" "to_absolute A c = Some program"
      "executable_path_lookup_key A program = Some basename"
      "\<forall>paths. map_of (host_executables_by_name p) basename = Some paths \<longrightarrow> program \<in> set paths"
      and r: "\<exists>r \<in> set (get_vec (rules_by_program p) basename). matches_prefix (pattern r) (basename # cs) \<noteq> None"
      unfolding host_nonempty by blast
    have "match_host_executable_rules A q cmd \<noteq> []"
      by (rule host_nonempty[THEN iffD2], unfold assms(2)) (intro exI conjI; fact h up[OF r])
    then show ?thesis by (simp only: resolved_nonempty simp_thms)
  qed
qed

section \<open>The builder files every rule under its program\<close>

definition pending_filed :: "'a policy_builder \<Rightarrow> bool" where
  "pending_filed b \<longleftrightarrow>
     (\<forall>v \<in> set (pending_example_validations b). \<forall>r \<in> set (pending_rules v).
        r \<in> set (get_vec (rules_by_program b) (rule_program r)))"

lemma fold_add_rule:
  "rules_by_program (fold add_rule rs b) = fold (\<lambda>r. multimap_insert (rule_program r) r) rs (rules_by_program b)"
  "pending_example_validations (fold add_rule rs b) = pending_example_validations b"
  "host_executables_by_name (fold add_rule rs b) = host_executables_by_name b"
  by (induction rs arbitrary: b) (simp_all add: add_rule_def)

lemma set_get_vec_fold_insert:
  "set (get_vec (fold (\<lambda>r. multimap_insert (rule_program r) r) rs m) k) =
     set (get_vec m k) \<union> {r \<in> set rs. rule_program r = k}"
  by (induction rs arbitrary: m) (auto simp: get_vec_insert)

lemma prefix_rule_call_cases:
  assumes "prefix_rule_call sp pat dec m nm j b = Inr b'"
  obtains d t ts ms nms where "(case dec of Some raw \<Rightarrow> parse_decision raw | None \<Rightarrow> Ok Allow) = Inr d"
    "parse_pattern pat = Inr (t # ts)"
    "b' = (let rules = map (\<lambda>head. \<lparr>pattern = \<lparr>first_token = head, rest_tokens = ts\<rparr>, rule_decision = d,
        rule_justification = j\<rparr>) (token_alternatives t)
      in fold add_rule rules (add_pending_example_validation rules ms nms b))"
proof -
  from assms obtain d tokens where dec: "(case dec of Some raw \<Rightarrow> parse_decision raw | None \<Rightarrow> Ok Allow) = Inr d"
    and pat: "parse_pattern pat = Inr tokens"
    by (auto simp: prefix_rule_call_def bind_result_eq_Inr split: if_splits)
  from pat obtain t ts where tokens: "tokens = t # ts"
    by (cases tokens) (auto simp: parse_pattern_def bind_result_eq_Inr split: if_splits)
  from assms dec pat tokens that show ?thesis
    by (auto simp: prefix_rule_call_def bind_result_eq_Inr Let_def split: if_splits)
qed

lemma prefix_rule_call_effect:
  assumes "prefix_rule_call sp pat dec m nm j b = Inr b'"
  shows "\<exists>rules ms nms. pending_example_validations b' = pending_example_validations b @
      [\<lparr>pending_rules = rules, pending_matches = ms, pending_not_matches = nms\<rparr>] \<and>
    (\<forall>k. set (get_vec (rules_by_program b') k) = set (get_vec (rules_by_program b) k) \<union> {r \<in> set rules. rule_program r = k})"
  using assms
proof (rule prefix_rule_call_cases)
  fix d t ts ms nms
  assume b': "b' = (let rules = map (\<lambda>head. \<lparr>pattern = \<lparr>first_token = head, rest_tokens = ts\<rparr>, rule_decision = d,
        rule_justification = j\<rparr>) (token_alternatives t)
      in fold add_rule rules (add_pending_example_validation rules ms nms b))"
  show ?thesis
    unfolding b' Let_def fold_add_rule add_pending_example_validation_def set_get_vec_fold_insert
    by (intro exI conjI) auto
qed

lemma run_call_filed:
  assumes "pending_filed b" "run_call A sp c b = Inr b'"
  shows "pending_filed b' \<and> length (pending_example_validations b) \<le> length (pending_example_validations b')"
proof (cases c)
  case (PrefixRuleCall pat dec m nm j)
  with assms(2) have "prefix_rule_call sp pat dec m nm j b = Inr b'" by (simp add: run_call_def)
  from prefix_rule_call_effect[OF this] assms(1) show ?thesis by (auto simp: pending_filed_def)
next
  case (NetworkRuleCall h pr dec j)
  with assms show ?thesis
    by (auto simp: run_call_def network_rule_call_def bind_result_eq_Inr builder_add_network_rule_def
        pending_filed_def split: if_splits)
next
  case (HostExecutableCall name paths)
  with assms show ?thesis
    by (auto simp: run_call_def host_executable_call_def bind_result_eq_Inr add_host_executable_def pending_filed_def)
qed

lemma run_calls_filed:
  "pending_filed b \<Longrightarrow> run_calls A sp cs b = (r, b') \<Longrightarrow> pending_filed b'"
  by (induction cs arbitrary: b) (auto split: sum.splits dest: run_call_filed)

lemma validate_not_match_Inr:
  "validate_not_match_examples A p exs = Inr u \<longleftrightarrow>
     (\<forall>ex \<in> set exs. matches_for_command_with_options A p ex None resolving_options = [])"
  by (induction exs) auto

lemma validate_pending_Inr:
  "validate_pending A hosts vs = Inr u \<longleftrightarrow> (\<forall>v \<in> set vs.
     (\<forall>ex \<in> set (pending_not_matches v).
        matches_for_command_with_options A (rules_policy (pending_rules v) hosts) ex None resolving_options = []) \<and>
     (\<forall>ex \<in> set (pending_matches v).
        matches_for_command_with_options A (rules_policy (pending_rules v) hosts) ex None resolving_options \<noteq> []))"
  by (induction vs) (auto simp: Let_def bind_result_eq_Inr validate_not_match_Inr validate_match_examples_def
      filter_empty_conv)

lemma parse_new_inv:
  assumes "parse_policy A sp starlark ident text new_builder = (Inr u, b)"
  shows "pending_filed b" "validate_pending A (host_executables_by_name b) (pending_example_validations b) = Inr u"
proof -
  from assms obtain calls r where "run_calls A sp calls new_builder = (r, b)"
    and v: "validate_pending A (host_executables_by_name b) (pending_example_validations b) = Inr u"
    by (auto simp: parse_policy_def Let_def validate_pending_examples_from_def new_builder_def
        split: sum.splits prod.splits option.splits)
  moreover have "pending_filed (new_builder :: 'a policy_builder)" by (simp add: pending_filed_def new_builder_def)
  ultimately show "pending_filed b" using run_calls_filed by blast
  show "validate_pending A (host_executables_by_name b) (pending_example_validations b) = Inr u" by (rule v)
qed

section \<open>Properties\<close>

text \<open>
  The examples of a policy file keep their promise in the policy that is built from it: once
  the file has been accepted, every \<open>match\<close> example is matched by some rule of the whole policy,
  so that it never falls through to the heuristics, and no \<open>not_match\<close> example is matched by the
  rules of its own statement.
\<close>

theorem accepted_examples_hold:
  assumes "parse_policy A sp starlark ident text new_builder = (Inr u, b)"
    "v \<in> set (pending_example_validations b)"
  shows "(\<forall>ex \<in> set (pending_matches v).
      matches_for_command_with_options A (build b) ex None resolving_options \<noteq> []) \<and>
    (\<forall>ex \<in> set (pending_not_matches v).
      matches_for_command_with_options A (rules_policy (pending_rules v) (host_executables_by_name (build b)))
        ex None resolving_options = [])"
proof -
  note inv = parse_new_inv[OF assms(1)]
  let ?p = "rules_policy (pending_rules v) (host_executables_by_name b)"
  have own: "matches_for_command_with_options A ?p ex None resolving_options \<noteq> []" if "ex \<in> set (pending_matches v)" for ex
    using inv(2) assms(2) that by (auto simp: validate_pending_Inr)
  have "set (get_vec (rules_by_program ?p) k) \<subseteq> set (get_vec (rules_by_program (build b)) k)" for k
    using inv(1) assms(2) by (auto simp: get_vec_rules_policy pending_filed_def)
  moreover have "host_executables_by_name (build b) = host_executables_by_name ?p" by (simp add: rules_policy_def)
  ultimately have "matches_for_command_with_options A (build b) ex None resolving_options \<noteq> []"
    if "ex \<in> set (pending_matches v)" for ex
    using more_rules_match own[OF that] by blast
  then show ?thesis using inv(2) assms(2) by (auto simp: validate_pending_Inr)
qed

definition sample_calls :: "builtin_call list" where
  "sample_calls = [PrefixRuleCall [VList [VStr ''git'', VStr ''hg''], VStr ''push''] (Some ''prompt'')
     (Some [VList [VStr ''hg'', VStr ''push'', VStr ''-f'']]) (Some [VList [VStr ''git'', VStr ''pull'']]) None]"

abbreviation sample_parse :: "(policy_error, unit) result \<times> unit policy_builder" where
  "sample_parse \<equiv> parse_policy no_paths (\<lambda>_. None) (\<lambda>_ _. Ok (sample_calls, None)) ''x'' '''' new_builder"

theorem accepted_examples_hold_witness:
  "matches_for_command_with_options no_paths (build (snd sample_parse)) [''hg'', ''push'', ''-f''] None resolving_options \<noteq> []"
proof -
  have "fst sample_parse = Inr ()" by code_simp
  then have "sample_parse = (Inr (), snd sample_parse)" by (metis prod.collapse)
  moreover have "hd (pending_example_validations (snd sample_parse)) \<in> set (pending_example_validations (snd sample_parse))"
    by code_simp
  ultimately have "\<forall>ex \<in> set (pending_matches (hd (pending_example_validations (snd sample_parse)))).
      matches_for_command_with_options no_paths (build (snd sample_parse)) ex None resolving_options \<noteq> []"
    using accepted_examples_hold by blast
  moreover have "[''hg'', ''push'', ''-f''] \<in> set (pending_matches (hd (pending_example_validations (snd sample_parse))))"
    by code_simp
  ultimately show ?thesis by blast
qed

lemma leading_tokens_iff:
  "(\<exists>front rest. c # cs = front @ rest \<and> list_all2 token_matches (t # ts) front) \<longleftrightarrow>
     token_matches t c \<and> matches_prefix (pattern \<lparr>pattern = \<lparr>first_token = c, rest_tokens = ts\<rparr>,
       rule_decision = d, rule_justification = j\<rparr>) (c # cs) \<noteq> None"
proof -
  have "(\<exists>m rest. c # cs = m @ rest \<and> list_all2 token_matches (Single c # ts) m) \<longleftrightarrow>
      (\<exists>m' rest. cs = m' @ rest \<and> list_all2 token_matches ts m')"
    by (auto simp: list_all2_Cons1) (metis append_Cons)+
  moreover have "(\<exists>m rest. c # cs = m @ rest \<and> list_all2 token_matches (t # ts) m) \<longleftrightarrow>
      token_matches t c \<and> (\<exists>m' rest. cs = m' @ rest \<and> list_all2 token_matches ts m')"
    by (auto simp: list_all2_Cons1) (metis append_Cons)+
  ultimately show ?thesis by (simp add: matches_prefix_iff pattern_tokens_def)
qed

text \<open>
  The expansion of alternatives in the first position loses nothing: after a successful
  \<open>prefix_rule\<close> call a command is matched exactly if it was matched before, or its leading tokens
  are accepted one by one by the tokens of the pattern.
\<close>

theorem prefix_rule_call_semantics:
  assumes "prefix_rule_call sp pat dec m nm j b = Inr b'" "parse_pattern pat = Inr tokens"
  shows "(\<exists>ms. match_exact_rules (build b') cmd = Some ms \<and> ms \<noteq> []) \<longleftrightarrow>
    (\<exists>ms. match_exact_rules (build b) cmd = Some ms \<and> ms \<noteq> []) \<or>
    (\<exists>front rest. cmd = front @ rest \<and> list_all2 token_matches tokens front)"
  using assms(1)
proof (rule prefix_rule_call_cases)
  fix d t ts ms nms
  let ?rule = "\<lambda>head. \<lparr>pattern = \<lparr>first_token = head, rest_tokens = ts\<rparr>, rule_decision = d, rule_justification = j\<rparr>"
  assume tk: "parse_pattern pat = Inr (t # ts)" and b': "b' = (let rules = map ?rule (token_alternatives t)
      in fold add_rule rules (add_pending_example_validation rules ms nms b))"
  have vec: "set (get_vec (rules_by_program b') k) = set (get_vec (rules_by_program b) k) \<union>
      (if token_matches t k then {?rule k} else {})" for k
    unfolding b' Let_def fold_add_rule set_get_vec_fold_insert
    by (cases t) (auto simp: add_pending_example_validation_def rule_program_def list_ex_iff)
  have tokens: "tokens = t # ts" using assms(2) tk by simp
  have pm: "(\<exists>front rest. c # cs = front @ rest \<and> list_all2 token_matches tokens front) \<longleftrightarrow>
      token_matches t c \<and> matches_prefix (pattern (?rule c)) (c # cs) \<noteq> None" for c cs
    unfolding tokens by (rule leading_tokens_iff)
  show ?thesis
  proof (cases cmd)
    case Nil
    then show ?thesis by (simp add: match_exact_rules_def tokens)
  next
    case (Cons c cs)
    show ?thesis unfolding exact_nonempty build_fields vec Cons pm by auto
  qed
qed

theorem prefix_rule_call_semantics_witness:
  "\<exists>ms. match_exact_rules (build (snd sample_parse)) [''git'', ''push''] = Some ms \<and> ms \<noteq> []"
proof -
  let ?pat = "[VList [VStr ''git'', VStr ''hg''], VStr ''push'']"
  let ?call = "prefix_rule_call (\<lambda>_. None) ?pat (Some ''prompt'') (Some [VList [VStr ''hg'', VStr ''push'', VStr ''-f'']])
     (Some [VList [VStr ''git'', VStr ''pull'']]) None (new_builder :: unit policy_builder)"
  have "?call = Inr (snd sample_parse)" by code_simp
  moreover have "parse_pattern ?pat = Inr [Alts [''git'', ''hg''], Single ''push'']" by code_simp
  moreover have "[''git'', ''push''] = [''git'', ''push''] @ [] \<and>
      list_all2 token_matches [Alts [''git'', ''hg''], Single ''push''] [''git'', ''push'']" by simp
  ultimately show ?thesis using prefix_rule_call_semantics by blast
qed

end
