(* ===== verification/Policy_Amend.thy ===== *)
theory Policy_Amend
  imports Exec_Policy_Props Executor_Fs
begin

text \<open>
  \<open>execpolicy/src/amend.rs\<close> and \<open>sandbox_migration.rs\<close>: appending rules to a policy file, and the
  one-shot migration that removes banned ones. The files live in the operating system model of
  \<open>Executor_Fs\<close>; locks and seeks always succeed there. \<open>serde_json\<close> is a parameter: \<open>to_json\<close>
  prints a string literal and \<open>from_json\<close> reads an array of strings.
\<close>

section \<open>Appending rules\<close>

datatype amend_error =
    EmptyPrefix
  | InvalidNetworkRule rust_str
  | MissingParent abs_path
  | CreatePolicyDir abs_path io_error
  | OpenPolicyFile abs_path io_error
  | ReadPolicyFile abs_path io_error

fun policy_error_message :: "policy_error \<Rightarrow> rust_str" where
  "policy_error_message (InvalidDecision s) = ''invalid decision: '' @ s"
| "policy_error_message (InvalidPattern s) = ''invalid pattern element: '' @ s"
| "policy_error_message (InvalidExample s) = ''invalid example: '' @ s"
| "policy_error_message (InvalidRule s) = ''invalid rule: '' @ s"
| "policy_error_message (ExampleDidNotMatch _) = ''expected every example to match at least one rule''"
| "policy_error_message (ExampleDidMatch _) = ''expected example to not match rule''"
| "policy_error_message (Starlark s) = ''starlark error: '' @ s"

text \<open>\<open>OpenOptions\<close> with \<open>create\<close>, \<open>read\<close> and \<open>append\<close>: the resolved path, and a new empty file.\<close>

definition os_open_append :: "os_world \<Rightarrow> abs_path \<Rightarrow> (io_error, abs_path) result \<times> os_world" where
  "os_open_append w p =
     (case os_resolve w p of
        Inl e \<Rightarrow> (Err e, w)
      | Inr q \<Rightarrow>
          (case os_lookup w q of
             Some Directory \<Rightarrow> (Err eisdir, w)
           | Some _ \<Rightarrow> (Ok q, w)
           | None \<Rightarrow>
               (case os_write w q [] of (Inl e, w') \<Rightarrow> (Err e, w') | (Inr _, w') \<Rightarrow> (Ok q, w'))))"

text \<open>The contents after the line has been added.\<close>

definition with_line :: "rust_str \<Rightarrow> rust_str \<Rightarrow> rust_str" where
  "with_line contents line =
     (if line \<in> set (str_lines contents) then contents
      else contents @ (if contents \<noteq> [] \<and> \<not> ends_with contents [newline] then [newline] else []) @
        line @ [newline])"

definition append_locked_line :: "os_world \<Rightarrow> abs_path \<Rightarrow> rust_str \<Rightarrow> (amend_error, unit) result \<times> os_world" where
  "append_locked_line w policy_path line =
     (case os_open_append w policy_path of
        (Inl e, w1) \<Rightarrow> (Err (OpenPolicyFile policy_path e), w1)
      | (Inr q, w1) \<Rightarrow>
          (case os_lookup w1 q of
             Some (RegularFile bytes) \<Rightarrow>
               (case from_utf8 bytes of
                  Inl _ \<Rightarrow> (Err (ReadPolicyFile policy_path (io_err InvalidData ''stream did not contain valid UTF-8'')), w1)
                | Inr contents \<Rightarrow>
                    if line \<in> set (str_lines contents) then (Ok (), w1)
                    else (Ok (), AList.update q (RegularFile (with_line contents line)) w1))
           | _ \<Rightarrow> (Err (ReadPolicyFile policy_path eisdir), w1)))"

definition append_rule_line :: "os_world \<Rightarrow> abs_path \<Rightarrow> rust_str \<Rightarrow> (amend_error, unit) result \<times> os_world" where
  "append_rule_line w policy_path rule =
     (if policy_path = [] then (Err (MissingParent policy_path), w)
      else let dir = butlast policy_path
           in case os_mkdir w dir of
                (Inr _, w1) \<Rightarrow> append_locked_line w1 policy_path rule
              | (Inl e, w1) \<Rightarrow>
                  if e = eexist then append_locked_line w1 policy_path rule
                  else (Err (CreatePolicyDir dir e), w1))"

definition allow_rule_line :: "(rust_str \<Rightarrow> rust_str) \<Rightarrow> command \<Rightarrow> rust_str" where
  "allow_rule_line to_json prefx =
     ''prefix_rule(pattern=['' @ join_with '', '' (map to_json prefx) @ ''], decision='' @
     [CHR 34] @ ''allow'' @ [CHR 34] @ '')''"

definition blocking_append_allow_prefix_rule ::
    "(rust_str \<Rightarrow> rust_str) \<Rightarrow> os_world \<Rightarrow> abs_path \<Rightarrow> command \<Rightarrow> (amend_error, unit) result \<times> os_world" where
  "blocking_append_allow_prefix_rule to_json w policy_path prefx =
     (if prefx = [] then (Err EmptyPrefix, w)
      else append_rule_line w policy_path (allow_rule_line to_json prefx))"

fun decision_word :: "decision \<Rightarrow> rust_str" where
  "decision_word Allow = ''allow''"
| "decision_word Prompt = ''prompt''"
| "decision_word Forbidden = ''deny''"

definition network_rule_line ::
    "(rust_str \<Rightarrow> rust_str) \<Rightarrow> rust_str \<Rightarrow> network_rule_protocol \<Rightarrow> decision \<Rightarrow> rust_str option \<Rightarrow> rust_str" where
  "network_rule_line to_json h pr d j =
     ''network_rule('' @ join_with '', ''
       ([''host='' @ to_json h, ''protocol='' @ to_json (as_policy_string pr),
         ''decision='' @ to_json (decision_word d)] @
        (case j of Some s \<Rightarrow> [''justification='' @ to_json s] | None \<Rightarrow> [])) @ '')''"

definition blocking_append_network_rule ::
    "(rust_str \<Rightarrow> rust_str) \<Rightarrow> os_world \<Rightarrow> abs_path \<Rightarrow> rust_str \<Rightarrow> network_rule_protocol \<Rightarrow> decision \<Rightarrow>
     rust_str option \<Rightarrow> (amend_error, unit) result \<times> os_world" where
  "blocking_append_network_rule to_json w policy_path h pr d j =
     (case normalize_network_rule_host h of
        Inl e \<Rightarrow> (Err (InvalidNetworkRule (policy_error_message e)), w)
      | Inr h \<Rightarrow>
          if \<not> justification_ok j then (Err (InvalidNetworkRule ''justification cannot be empty''), w)
          else append_rule_line w policy_path (network_rule_line to_json h pr d j))"

section \<open>Removing banned rules\<close>

text \<open>\<open>split_inclusive('\n')\<close>: the lines with their terminators.\<close>

fun split_inclusive :: "rust_str \<Rightarrow> rust_str list" where
  "split_inclusive [] = []"
| "split_inclusive (c # cs) =
     (if c = newline then [c] # split_inclusive cs
      else (case split_inclusive cs of [] \<Rightarrow> [[c]] | l # ls \<Rightarrow> (c # l) # ls))"

definition strip_suffix_or :: "rust_str \<Rightarrow> rust_str \<Rightarrow> rust_str" where
  "strip_suffix_or suf s = (case strip_suffix suf s of Some s' \<Rightarrow> s' | None \<Rightarrow> s)"

definition should_remove_rule ::
    "(rust_str \<Rightarrow> command option) \<Rightarrow> command list \<Rightarrow> rust_str \<Rightarrow> bool" where
  "should_remove_rule from_json banned line =
     (let line = strip_suffix_or [carriage_return] (strip_suffix_or [newline] line)
      in case Option.bind (strip_prefix ''prefix_rule(pattern='' line)
                (strip_suffix ('', decision='' @ [CHR 34] @ ''allow'' @ [CHR 34] @ '')'')) of
           None \<Rightarrow> False
         | Some pat \<Rightarrow>
             (case from_json pat of
                None \<Rightarrow> False
              | Some prefx \<Rightarrow> map to_ascii_lowercase prefx \<in> set banned))"

definition strip_banned_allow_rules ::
    "(rust_str \<Rightarrow> command option) \<Rightarrow> command list \<Rightarrow> rust_str \<Rightarrow> rust_str" where
  "strip_banned_allow_rules from_json banned_prefixes contents =
     (let banned = map (map to_ascii_lowercase) banned_prefixes
      in concat (filter (\<lambda>line. \<not> should_remove_rule from_json banned line) (split_inclusive contents)))"

section \<open>Lines\<close>

lemma split_on_append:
  "split_on d (s @ t) = butlast (split_on d s) @ (last (split_on d s) @ hd (split_on d t)) # tl (split_on d t)"
proof (induction s)
  case (Cons c s)
  show ?case
  proof (cases "split_on d s")
    case (Cons l ls)
    with Cons.IH show ?thesis by (cases ls) auto
  qed simp
qed simp

lemma split_on_terminated: "d \<notin> set l \<Longrightarrow> split_on d (l @ [d]) = [l, []]"
  using split_on_append_sep[of d l "[]"] by simp

lemma last_split_on_Nil: "last (split_on d s) = [] \<longleftrightarrow> s = [] \<or> suffix [d] s"
proof (cases s rule: rev_cases)
  case (snoc s' c)
  show ?thesis by (cases "c = d") (simp_all add: snoc split_on_append)
qed simp

lemma suffix_last_split: "suffix (last (split_on d s)) s"
proof (induction s rule: rev_induct)
  case (snoc c s)
  then show ?case by (cases "c = d") (auto simp: split_on_append suffix_def)
qed simp

lemma str_lines_terminated:
  assumes "s = [] \<or> suffix [newline] s" "newline \<notin> set l" "\<not> suffix [carriage_return] l"
  shows "str_lines (s @ l @ [newline]) = str_lines s @ [l]"
proof -
  have "last (split_on newline s) = []" using assms(1) by (simp add: last_split_on_Nil)
  then show ?thesis
    using assms(2,3)
    by (simp add: str_lines_def Let_def split_on_append split_on_single strip_cr_id butlast_append)
qed

lemma str_lines_add_newline:
  assumes "s \<noteq> []" "\<not> suffix [newline] s" "\<not> suffix [carriage_return] s"
  shows "str_lines (s @ [newline]) = str_lines s"
proof -
  let ?l = "last (split_on newline s)"
  have ne: "?l \<noteq> []" using assms by (simp add: last_split_on_Nil)
  have "\<not> suffix [carriage_return] ?l"
    using assms(3) suffix_last_split suffix_order.trans by blast
  then have "map strip_cr (split_on newline s) = map strip_cr (butlast (split_on newline s)) @ [?l]"
    by (metis append_butlast_last_id list.simps(8,9) map_append split_on_ne strip_cr_id)
  then show ?thesis using ne by (simp add: str_lines_def Let_def split_on_append butlast_append)
qed

lemma str_lines_with_line:
  assumes "newline \<notin> set line" "\<not> suffix [carriage_return] line" "\<not> suffix [carriage_return] contents"
  shows "str_lines (with_line contents line) =
    (if line \<in> set (str_lines contents) then str_lines contents else str_lines contents @ [line])"
proof (cases "contents = [] \<or> suffix [newline] contents")
  case True
  with str_lines_terminated[OF this assms(1,2)] show ?thesis by (auto simp: with_line_def ends_with_def)
next
  case False
  then have "str_lines ((contents @ [newline]) @ line @ [newline]) = str_lines contents @ [line]"
    using str_lines_terminated[of "contents @ [newline]" line] str_lines_add_newline[of contents] assms
    by (auto simp: suffix_def)
  with False show ?thesis by (auto simp: with_line_def ends_with_def)
qed

lemma with_line_in_lines:
  "newline \<notin> set line \<Longrightarrow> \<not> suffix [carriage_return] line \<Longrightarrow> line \<in> set (str_lines (with_line contents line))"
proof (cases "line \<in> set (str_lines contents)")
  case False
  assume l: "newline \<notin> set line" "\<not> suffix [carriage_return] line"
  let ?c = "contents @ (if contents \<noteq> [] \<and> \<not> ends_with contents [newline] then [newline] else [])"
  have "?c = [] \<or> suffix [newline] ?c" by (auto simp: ends_with_def suffix_def)
  from str_lines_terminated[OF this l] False show ?thesis by (auto simp: with_line_def)
qed (simp add: with_line_def)

lemma with_line_idem:
  "newline \<notin> set line \<Longrightarrow> \<not> suffix [carriage_return] line \<Longrightarrow>
     with_line (with_line contents line) line = with_line contents line"
  using with_line_in_lines[of line contents] by (simp add: with_line_def[of "with_line contents line"])

lemma concat_split_inclusive [simp]: "concat (split_inclusive s) = s"
  by (induction s) (auto split: list.splits)

text \<open>Every piece but the last ends with a newline, and none has one inside.\<close>

fun pieces_ok :: "rust_str list \<Rightarrow> bool" where
  "pieces_ok [] \<longleftrightarrow> True"
| "pieces_ok [l] \<longleftrightarrow> l \<noteq> [] \<and> newline \<notin> set (butlast l)"
| "pieces_ok (l # ls) \<longleftrightarrow> l \<noteq> [] \<and> last l = newline \<and> newline \<notin> set (butlast l) \<and> pieces_ok ls"

lemma pieces_ok_Cons:
  "pieces_ok (l # ls) \<longleftrightarrow> l \<noteq> [] \<and> newline \<notin> set (butlast l) \<and> (ls \<noteq> [] \<longrightarrow> last l = newline) \<and> pieces_ok ls"
  by (cases ls) auto

lemma split_inclusive_ok: "pieces_ok (split_inclusive s)"
proof (induction s)
  case (Cons c s)
  then show ?case by (cases "split_inclusive s") (auto simp: pieces_ok_Cons)
qed simp

lemma split_inclusive_piece:
  "l \<noteq> [] \<Longrightarrow> newline \<notin> set (butlast l) \<Longrightarrow> last l = newline \<Longrightarrow> split_inclusive (l @ s) = l # split_inclusive s"
proof (induction l)
  case (Cons c l)
  then show ?case by (cases l) auto
qed simp

lemma split_inclusive_unterminated: "l \<noteq> [] \<Longrightarrow> newline \<notin> set l \<Longrightarrow> split_inclusive l = [l]"
proof (induction l)
  case (Cons c l)
  then show ?case by (cases l) auto
qed simp

lemma split_inclusive_concat: "pieces_ok ls \<Longrightarrow> split_inclusive (concat ls) = ls"
proof (induction ls)
  case (Cons l ls)
  then show ?case
  proof (cases "last l = newline")
    case False
    with Cons.prems have "ls = []" "newline \<notin> set l"
      by (auto simp: pieces_ok_Cons) (metis append_butlast_last_id in_set_conv_decomp not_Cons_self rotate1.simps(2) set_rotate1 set_ConsD)
    then show ?thesis using Cons.prems by (simp add: pieces_ok_Cons split_inclusive_unterminated)
  qed (auto simp: pieces_ok_Cons split_inclusive_piece)
qed simp

lemma pieces_ok_filter: "pieces_ok ls \<Longrightarrow> pieces_ok (filter P ls)"
  by (induction ls) (auto simp: pieces_ok_Cons)

section \<open>Properties\<close>

lemma append_locked_files:
  assumes "link_free w" "p \<noteq> []" "append_locked_line w p line = (Inr u, w')"
  shows "os_files w' = (os_files w)(p \<mapsto> with_line (case os_files w p of Some c \<Rightarrow> c | None \<Rightarrow> []) line)"
proof (cases "os_lookup w p")
  case None
  then have "os_open_append w p = (case os_lookup w (butlast p) of
      Some Directory \<Rightarrow> (Ok p, AList.update p (RegularFile []) w) | Some _ \<Rightarrow> (Err enotdir, w) | None \<Rightarrow> (Err enoent, w))"
    by (simp add: os_open_append_def os_resolve_id[OF assms(1)] os_write_def split: option.splits node.splits)
  with None assms(2,3) show ?thesis
    by (auto simp: append_locked_line_def os_files_update from_utf8_def str_lines_def os_files_def[of w p]
        split: option.splits node.splits)
next
  case (Some n)
  with assms show ?thesis
    by (cases n) (auto simp: append_locked_line_def os_open_append_def os_resolve_id os_files_update from_utf8_def
        os_files_def[of w p] with_line_def fun_upd_idem split: option.splits if_splits)
qed

text \<open>
  Appending a rule to a policy file writes that file and no other, and adds one line: the lines
  afterwards are the lines before followed by the rule, unless the rule was there already, and
  appending it again changes nothing. The rule is a single line and the file does not end in a
  bare carriage return.
\<close>

theorem append_rule_effect:
  assumes "link_free w" "append_rule_line w p line = (Inr u, w')"
    "newline \<notin> set line" "\<not> suffix [carriage_return] line" "\<not> suffix [carriage_return] old"
    "old = (case os_files w p of Some c \<Rightarrow> c | None \<Rightarrow> [])"
  shows "\<exists>new. os_files w' = (os_files w)(p \<mapsto> new) \<and> with_line new line = new \<and>
    str_lines new = (if line \<in> set (str_lines old) then str_lines old else str_lines old @ [line])"
proof -
  from assms(2) obtain w1 r1 where ne: "p \<noteq> []" and dir: "os_mkdir w (butlast p) = (r1, w1)"
    and app: "append_locked_line w1 p line = (Inr u, w')"
    by (auto simp: append_rule_line_def Let_def split: if_splits prod.splits sum.splits)
  have w1: "link_free w1" "os_files w1 = os_files w"
    using os_mkdir_step[OF dir] assms(1)
    by (auto simp: link_free_update os_files_update os_files_def[of w "butlast p"] fun_upd_idem)
  show ?thesis
    using append_locked_files[OF w1(1) ne app] str_lines_with_line[OF assms(3,4,5)] with_line_idem[OF assms(3,4)]
    by (intro exI[of _ "with_line old line"]) (simp add: w1(2) assms(6))
qed

definition sample_policy_world :: os_world where
  "sample_policy_world = [([''rules''], Directory), ([''rules'', ''default.rules''], RegularFile ''a'')]"

theorem append_rule_effect_witness:
  "\<exists>new. os_files (snd (append_rule_line sample_policy_world [''rules'', ''default.rules''] ''b'')) =
      (os_files sample_policy_world)([''rules'', ''default.rules''] \<mapsto> new) \<and> str_lines new = [''a'', ''b'']"
proof -
  let ?p = "[''rules'', ''default.rules'']" let ?run = "append_rule_line sample_policy_world ?p ''b''"
  have "fst ?run = Inr ()" by code_simp
  then have run: "?run = (Inr (), snd ?run)" by (metis prod.collapse)
  have w: "link_free sample_policy_world" by code_simp
  have old: "''a'' = (case os_files sample_policy_world ?p of Some c \<Rightarrow> c | None \<Rightarrow> [])" by code_simp
  have "newline \<notin> set ''b''" "\<not> suffix [carriage_return] ''b''" "\<not> suffix [carriage_return] ''a''"
    by (simp_all add: suffix_single)
  from append_rule_effect[OF w run this old] obtain new where
    "os_files (snd ?run) = (os_files sample_policy_world)(?p \<mapsto> new)"
    "str_lines new = (if ''b'' \<in> set (str_lines ''a'') then str_lines ''a'' else str_lines ''a'' @ [''b''])"
    by blast
  moreover have "str_lines ''a'' = [''a'']" by code_simp
  ultimately show ?thesis by auto
qed

text \<open>
  The migration removes exactly the banned rules: the remaining text is the concatenation of
  the lines that are not banned, each with its own terminator, no banned line is left in it, and
  running the migration again changes nothing.
\<close>

theorem migration_removes_exactly_banned:
  "split_inclusive (strip_banned_allow_rules from_json banned_prefixes contents) =
     filter (\<lambda>line. \<not> should_remove_rule from_json (map (map to_ascii_lowercase) banned_prefixes) line)
       (split_inclusive contents) \<and>
   strip_banned_allow_rules from_json banned_prefixes (strip_banned_allow_rules from_json banned_prefixes contents) =
     strip_banned_allow_rules from_json banned_prefixes contents"
  by (simp add: strip_banned_allow_rules_def Let_def split_inclusive_concat pieces_ok_filter split_inclusive_ok)

end
