(* ===== verification/Stream_Text.thy ===== *)
theory Stream_Text
  imports Utf8
begin

text \<open>
  \<open>utils/stream-parser/src/stream_text.rs\<close> and \<open>inline_hidden_tag.rs\<close>: parsers that consume
  streamed text and emit visible text plus extracted payloads. What a client may rely on is the
  locale \<open>stream_parser\<close>: how the text is cut into chunks does not matter, up to a normalisation
  of the extracted payloads (a parser may report one payload in several parts).
\<close>

section \<open>Chunks and the parser interface\<close>

record 'x stream_text_chunk =
  visible_text :: rust_str
  extracted :: "'x list"

definition empty_chunk :: "'x stream_text_chunk" where
  "empty_chunk = \<lparr>visible_text = [], extracted = []\<rparr>"

definition chunk_is_empty_out :: "'x stream_text_chunk \<Rightarrow> bool" where
  "chunk_is_empty_out c \<longleftrightarrow> visible_text c = [] \<and> extracted c = []"

text \<open>One output after another.\<close>

definition chunk_append :: "'x stream_text_chunk \<Rightarrow> 'x stream_text_chunk \<Rightarrow> 'x stream_text_chunk" where
  "chunk_append a b = \<lparr>visible_text = visible_text a @ visible_text b, extracted = extracted a @ extracted b\<rparr>"

lemma chunk_append_simps [simp]:
  "visible_text (chunk_append a b) = visible_text a @ visible_text b"
  "extracted (chunk_append a b) = extracted a @ extracted b"
  "chunk_append empty_chunk a = a" "chunk_append a empty_chunk = a"
  "chunk_append (chunk_append a b) c = chunk_append a (chunk_append b c)"
  by (simp_all add: chunk_append_def empty_chunk_def)

fun push_all :: "('s \<Rightarrow> rust_str \<Rightarrow> 'x stream_text_chunk \<times> 's) \<Rightarrow> 's \<Rightarrow> rust_str list \<Rightarrow> 'x stream_text_chunk \<times> 's" where
  "push_all push s [] = (empty_chunk, s)"
| "push_all push s (c # cs) =
     (case push s c of (out, s') \<Rightarrow> (case push_all push s' cs of (out', s'') \<Rightarrow> (chunk_append out out', s'')))"

text \<open>A whole streamed message: every chunk is pushed, then the parser is finished.\<close>

definition collect_chunks ::
    "('s \<Rightarrow> rust_str \<Rightarrow> 'x stream_text_chunk \<times> 's) \<Rightarrow> ('s \<Rightarrow> 'x stream_text_chunk \<times> 's) \<Rightarrow> 's \<Rightarrow>
     rust_str list \<Rightarrow> 'x stream_text_chunk" where
  "collect_chunks push finish s cs =
     (case push_all push s cs of (out, s') \<Rightarrow> chunk_append out (fst (finish s')))"

lemma collect_chunks_simps:
  "collect_chunks push finish s [] = fst (finish s)"
  "collect_chunks push finish s (c # cs) =
     (case push s c of (out, s') \<Rightarrow> chunk_append out (collect_chunks push finish s' cs))"
  by (simp_all add: collect_chunks_def split: prod.splits)

locale stream_parser =
  fixes push :: "'s \<Rightarrow> rust_str \<Rightarrow> 'x stream_text_chunk \<times> 's"
    and inv :: "'s \<Rightarrow> bool" and norm :: "'x list \<Rightarrow> 'x list"
  assumes push_inv: "inv s \<Longrightarrow> utf8_valid a \<Longrightarrow> inv (snd (push s a))"
    and push_Nil: "inv s \<Longrightarrow> push s [] = (empty_chunk, s)"
    and push_visible: "inv s \<Longrightarrow> utf8_valid a \<Longrightarrow> utf8_valid (visible_text (fst (push s a)))"
    and push_append: "inv s \<Longrightarrow> utf8_valid a \<Longrightarrow> utf8_valid b \<Longrightarrow> push s a = (o1, s1) \<Longrightarrow> push s1 b = (o2, s2) \<Longrightarrow>
      \<exists>out. push s (a @ b) = (out, s2) \<and> visible_text out = visible_text o1 @ visible_text o2 \<and>
        norm (extracted out) = norm (extracted o1 @ extracted o2)"
    and norm_left: "norm (norm xs @ ys) = norm (xs @ ys)"
    and norm_right: "norm (xs @ norm ys) = norm (xs @ ys)"
begin

lemma push_all_inv:
  "inv s \<Longrightarrow> list_all utf8_valid cs \<Longrightarrow> inv (snd (push_all push s cs))"
proof (induction cs arbitrary: s)
  case (Cons c cs)
  then have "inv (snd (push s c))" using push_inv by simp
  with Cons show ?case by (auto split: prod.splits) (metis snd_conv)
qed simp

text \<open>Any cut of the text gives the final state, the visible text and the payloads of one push.\<close>

lemma push_all_concat:
  assumes "inv s" "list_all utf8_valid cs" "push s (concat cs) = (out, s')"
  shows "\<exists>out'. push_all push s cs = (out', s') \<and> visible_text out' = visible_text out \<and>
    norm (extracted out') = norm (extracted out)"
  using assms
proof (induction cs arbitrary: s out s')
  case Nil
  then show ?case using push_Nil by auto
next
  case (Cons c cs)
  obtain o1 s1 where 1: "push s c = (o1, s1)" by fastforce
  obtain o2 s2 where 2: "push s1 (concat cs) = (o2, s2)" by fastforce
  have i1: "inv s1" using push_inv[of s c] 1 Cons.prems by simp
  have v: "utf8_valid c" "utf8_valid (concat cs)"
    using Cons.prems(2) by (simp_all add: utf8_valid_concat)
  obtain o12 where 12: "push s (c @ concat cs) = (o12, s2)" "visible_text o12 = visible_text o1 @ visible_text o2"
    "norm (extracted o12) = norm (extracted o1 @ extracted o2)"
    using push_append[OF Cons.prems(1) v 1 2] by blast
  obtain o2' where second: "push_all push s1 cs = (o2', s2)" "visible_text o2' = visible_text o2"
    "norm (extracted o2') = norm (extracted o2)"
    using Cons.IH[OF i1 _ 2] Cons.prems(2) by auto
  have "norm (extracted o1 @ extracted o2') = norm (extracted o1 @ extracted o2)"
    using norm_right[of "extracted o1" "extracted o2'"] norm_right[of "extracted o1" "extracted o2"] second(3) by simp
  then show ?case using Cons.prems(3) 1 second 12 by auto
qed

end

section \<open>Searching\<close>

text \<open>\<open>str::find\<close>\<close>

fun str_find :: "rust_str \<Rightarrow> rust_str \<Rightarrow> nat option" where
  "str_find needle [] = (if needle = [] then Some 0 else None)"
| "str_find needle (c # cs) =
     (if prefix needle (c # cs) then Some 0 else map_option Suc (str_find needle cs))"

definition is_char_boundary :: "rust_str \<Rightarrow> nat \<Rightarrow> bool" where
  "is_char_boundary s k \<longleftrightarrow> k = 0 \<or> k = length s \<or> (k < length s \<and> \<not> continuation (s ! k))"

definition longest_suffix_prefix_len :: "rust_str \<Rightarrow> rust_str \<Rightarrow> nat" where
  "longest_suffix_prefix_len s needle =
     (let m = min (length s) (length needle - 1)
      in case find (\<lambda>k. is_char_boundary needle k \<and> suffix (take k needle) s) (rev [1 ..< Suc m]) of
           Some k \<Rightarrow> k | None \<Rightarrow> 0)"

section \<open>\<open>InlineHiddenTagParser\<close>\<close>

record 't extracted_inline_tag =
  ext_tag :: 't
  ext_content :: rust_str

record 't inline_tag_spec =
  spec_tag :: 't
  spec_open :: rust_str
  spec_close :: rust_str

record 't active_tag =
  act_tag :: 't
  act_close :: rust_str
  act_content :: rust_str

record 't inline_hidden_tag_parser =
  specs :: "'t inline_tag_spec list"
  pending :: rust_str
  active :: "'t active_tag option"

text \<open>\<open>None\<close> is a failed assertion of the constructor.\<close>

definition new_inline_parser :: "'t inline_tag_spec list \<Rightarrow> 't inline_hidden_tag_parser option" where
  "new_inline_parser ss =
     (if ss = [] \<or> list_ex (\<lambda>s. spec_open s = [] \<or> spec_close s = []) ss then None
      else Some \<lparr>specs = ss, pending = [], active = None\<rparr>)"

definition better_open :: "nat \<times> nat \<times> nat \<Rightarrow> nat \<times> nat \<times> nat \<Rightarrow> bool" where
  "better_open a b =
     (case a of (pos_a, len_a, idx_a) \<Rightarrow> case b of (pos_b, len_b, idx_b) \<Rightarrow>
        pos_a < pos_b \<or> pos_a = pos_b \<and> (len_b < len_a \<or> len_a = len_b \<and> idx_a < idx_b))"

definition find_next_open :: "'t inline_hidden_tag_parser \<Rightarrow> (nat \<times> nat) option" where
  "find_next_open p =
     (let candidates = List.map_filter (\<lambda>(idx, s).
            map_option (\<lambda>pos. (pos, length (spec_open s), idx)) (str_find (spec_open s) (pending p)))
            (enumerate 0 (specs p))
      in case candidates of
           [] \<Rightarrow> None
         | c # cs \<Rightarrow> (case fold (\<lambda>x best. if better_open x best then x else best) cs c of
                       (pos, _, idx) \<Rightarrow> Some (pos, idx)))"

definition max_open_prefix_suffix_len :: "'t inline_hidden_tag_parser \<Rightarrow> nat" where
  "max_open_prefix_suffix_len p =
     fold max (map (\<lambda>s. longest_suffix_prefix_len (pending p) (spec_open s)) (specs p)) 0"

abbreviation show_text :: "rust_str \<Rightarrow> 'x stream_text_chunk" where
  "show_text t \<equiv> \<lparr>visible_text = t, extracted = []\<rparr>"

abbreviation show_tag :: "'x \<Rightarrow> 'x stream_text_chunk" where
  "show_tag x \<equiv> \<lparr>visible_text = [], extracted = [x]\<rparr>"

text \<open>
  The loop of \<open>push_str\<close>. An empty delimiter, which the constructor refuses, would make it run
  for ever; the model stops there.
\<close>

function drain_pending ::
    "'t inline_hidden_tag_parser \<Rightarrow> 't extracted_inline_tag stream_text_chunk \<times> 't inline_hidden_tag_parser" where
  "drain_pending p =
     (case active p of
        Some a \<Rightarrow>
          (case str_find (act_close a) (pending p) of
             Some close_idx \<Rightarrow>
               if act_close a = [] then (empty_chunk, p)
               else (case drain_pending (p\<lparr>active := None,
                            pending := drop (close_idx + length (act_close a)) (pending p)\<rparr>) of
                       (out, p') \<Rightarrow>
                         (chunk_append (show_tag \<lparr>ext_tag = act_tag a,
                            ext_content = act_content a @ take close_idx (pending p)\<rparr>) out, p'))
           | None \<Rightarrow>
               (let n = length (pending p) - longest_suffix_prefix_len (pending p) (act_close a)
                in (empty_chunk,
                    p\<lparr>active := Some (a\<lparr>act_content := act_content a @ take n (pending p)\<rparr>),
                      pending := drop n (pending p)\<rparr>)))
      | None \<Rightarrow>
          (case find_next_open p of
             Some (open_idx, spec_idx) \<Rightarrow>
               (let spec = specs p ! spec_idx
                in if spec_open spec = [] \<or> pending p = [] then (empty_chunk, p)
                   else (case drain_pending (p\<lparr>active := Some \<lparr>act_tag = spec_tag spec,
                                act_close = spec_close spec, act_content = []\<rparr>,
                                pending := drop (open_idx + length (spec_open spec)) (pending p)\<rparr>) of
                           (out, p') \<Rightarrow> (chunk_append (show_text (take open_idx (pending p))) out, p')))
           | None \<Rightarrow>
               (let n = length (pending p) - max_open_prefix_suffix_len p
                in (show_text (take n (pending p)), p\<lparr>pending := drop n (pending p)\<rparr>))))"
  by pat_completeness auto

lemma str_find_Some: "str_find needle s = Some i \<Longrightarrow> i \<le> length s \<and> prefix needle (drop i s)"
  by (induction needle s arbitrary: i rule: str_find.induct) (auto split: if_splits)

lemma str_find_len: "str_find needle s = Some i \<Longrightarrow> i + length needle \<le> length s"
  using str_find_Some[of needle s i] prefix_length_le[of needle "drop i s"] by auto

termination drain_pending
proof (relation "measure (\<lambda>p. length (pending p))")
  fix p :: "'t inline_hidden_tag_parser" and a close_idx
  assume "str_find (act_close a) (pending p) = Some close_idx" "act_close a \<noteq> []"
  then show "(p\<lparr>active := None, pending := drop (close_idx + length (act_close a)) (pending p)\<rparr>, p)
      \<in> measure (\<lambda>p. length (pending p))"
    using str_find_len[of "act_close a" "pending p" close_idx] by (cases "act_close a") auto
qed auto

declare drain_pending.simps [simp del]

definition inline_push ::
    "'t inline_hidden_tag_parser \<Rightarrow> rust_str \<Rightarrow>
     't extracted_inline_tag stream_text_chunk \<times> 't inline_hidden_tag_parser" where
  "inline_push p chunk = drain_pending (p\<lparr>pending := pending p @ chunk\<rparr>)"

definition inline_finish ::
    "'t inline_hidden_tag_parser \<Rightarrow> 't extracted_inline_tag stream_text_chunk \<times> 't inline_hidden_tag_parser" where
  "inline_finish p =
     (case active p of
        Some a \<Rightarrow> (show_tag \<lparr>ext_tag = act_tag a, ext_content = act_content a @ pending p\<rparr>,
                  p\<lparr>active := None, pending := []\<rparr>)
      | None \<Rightarrow> (show_text (pending p), p\<lparr>pending := []\<rparr>))"

end
