(* ===== verification/Inline_Tags.thy ===== *)
theory Inline_Tags
  imports Stream_Text
begin

text \<open>
  The inline tag parser with one tag does not depend on how the text is cut; \<open>citation.rs\<close> is
  built on it. The argument is about the first occurrence of a delimiter and the longest suffix
  that may still become one.
\<close>

section \<open>First occurrences\<close>

lemma str_find_first: "str_find n s = Some i \<Longrightarrow> j < i \<Longrightarrow> \<not> prefix n (drop j s)"
proof (induction n s arbitrary: i j rule: str_find.induct)
  case (2 n c cs)
  then show ?case by (cases j) (auto split: if_splits)
qed (auto split: if_splits)

lemma str_find_None: "str_find n s = None \<Longrightarrow> \<not> prefix n (drop j s)"
proof (induction n s arbitrary: j rule: str_find.induct)
  case (2 n c cs)
  then show ?case by (cases j) (auto split: if_splits)
qed (auto split: if_splits)

lemma str_find_skip:
  "\<forall>j < m. \<not> prefix n (drop j x) \<Longrightarrow> m \<le> length x \<Longrightarrow>
     str_find n x = map_option ((+) m) (str_find n (drop m x))"
proof (induction m arbitrary: x)
  case 0
  then show ?case by (simp add: option.map_ident)
next
  case (Suc m)
  then obtain c cs where x: "x = c # cs" by (cases x) auto
  have "\<forall>j < m. \<not> prefix n (drop j cs)" using Suc.prems(1) x by auto
  from Suc.IH[OF this] Suc.prems x have "str_find n cs = map_option ((+) m) (str_find n (drop m cs))" by simp
  moreover have "\<not> prefix n x" using Suc.prems(1) by force
  ultimately show ?case using x by (simp add: option.map_comp comp_def)
qed

lemma str_find_at: "prefix n (drop i s) \<Longrightarrow> i \<le> length s \<Longrightarrow> \<forall>j < i. \<not> prefix n (drop j s) \<Longrightarrow> str_find n s = Some i"
  using str_find_skip[of i n s] by (cases "drop i s") auto

lemma str_find_append: "str_find n p = Some i \<Longrightarrow> str_find n (p @ b) = Some i"
proof -
  assume f: "str_find n p = Some i"
  have len: "i + length n \<le> length p" by (rule str_find_len[OF f])
  have pre: "prefix n (drop j (p @ b)) \<longleftrightarrow> prefix n (drop j p)" if "j \<le> i" for j
  proof -
    have "drop j (p @ b) = drop j p @ b" "length n \<le> length (drop j p)" using that len by simp_all
    then show ?thesis by (auto simp: prefix_append dest: prefix_length_le)
  qed
  show ?thesis
    using str_find_Some[OF f] str_find_first[OF f] pre len by (intro str_find_at) auto
qed

section \<open>Possible beginnings of a delimiter\<close>

lemma ascii_boundary: "ascii n \<Longrightarrow> k \<le> length n \<Longrightarrow> is_char_boundary n k"
  by (cases "k < length n") (auto simp: is_char_boundary_def ascii_def list_all_length not_le)

lemma find_rev_upt:
  "(case find P (rev [1 ..< Suc m]) of Some k \<Rightarrow> k | None \<Rightarrow> 0) = (if \<exists>k. 1 \<le> k \<and> k \<le> m \<and> P k then GREATEST k. 1 \<le> k \<and> k \<le> m \<and> P k else 0)"
proof (induction m)
  case (Suc m)
  show ?case
  proof (cases "P (Suc m)")
    case True
    then have "(GREATEST k. 1 \<le> k \<and> k \<le> Suc m \<and> P k) = Suc m" by (intro Greatest_equality) auto
    with True show ?thesis by auto
  next
    case False
    then have same: "(\<lambda>k. 1 \<le> k \<and> k \<le> Suc m \<and> P k) = (\<lambda>k. 1 \<le> k \<and> k \<le> m \<and> P k)"
      by (auto simp: fun_eq_iff le_Suc_eq)
    have "find P (rev [1 ..< Suc (Suc m)]) = find P (rev [1 ..< Suc m])" using False by simp
    then show ?thesis unfolding same using Suc by simp
  qed
qed simp

lemma lsp_spec:
  assumes "ascii n"
  shows "longest_suffix_prefix_len s n \<le> length s"
    "suffix (take (longest_suffix_prefix_len s n) n) s"
    "n \<noteq> [] \<Longrightarrow> longest_suffix_prefix_len s n < length n"
    "j \<le> length s \<Longrightarrow> j < length n \<Longrightarrow> suffix (take j n) s \<Longrightarrow> j \<le> longest_suffix_prefix_len s n"
proof -
  let ?m = "min (length s) (length n - 1)"
  let ?P = "\<lambda>k. is_char_boundary n k \<and> suffix (take k n) s"
  let ?Q = "\<lambda>k. 1 \<le> k \<and> k \<le> ?m \<and> ?P k"
  have def: "longest_suffix_prefix_len s n = (if \<exists>k. ?Q k then GREATEST k. ?Q k else 0)"
    unfolding longest_suffix_prefix_len_def Let_def by (rule find_rev_upt)
  have great: "?Q (GREATEST k. ?Q k)" if "\<exists>k. ?Q k"
    using that GreatestI_ex_nat[of ?Q ?m] by blast
  have le: "j \<le> (GREATEST k. ?Q k)" if "?Q j" for j
    using that Greatest_le_nat[of ?Q j ?m] by blast
  have cases: "longest_suffix_prefix_len s n = 0 \<or> ?Q (longest_suffix_prefix_len s n)"
    using great unfolding def by presburger
  then show "longest_suffix_prefix_len s n \<le> length s" by linarith
  from cases show "suffix (take (longest_suffix_prefix_len s n) n) s" by (elim disjE) simp_all
  show "longest_suffix_prefix_len s n < length n" if "n \<noteq> []"
  proof -
    have "0 < length n" using that by simp
    with cases show ?thesis by linarith
  qed
  show "j \<le> longest_suffix_prefix_len s n" if "j \<le> length s" "j < length n" "suffix (take j n) s"
  proof (cases "j = 0")
    case False
    then have "?Q j" using that assms ascii_boundary[of n j] by auto
    then have ex: "\<exists>k. ?Q k" by blast
    show ?thesis unfolding def if_P[OF ex] by (rule le) fact
  qed simp
qed

section \<open>Splitting off text that is decided\<close>

text \<open>The part of the buffer a search without a hit releases, and the part it keeps.\<close>

definition decided_text :: "rust_str \<Rightarrow> rust_str \<Rightarrow> rust_str" where
  "decided_text n p = take (length p - longest_suffix_prefix_len p n) p"

definition kept_text :: "rust_str \<Rightarrow> rust_str \<Rightarrow> rust_str" where
  "kept_text n p = drop (length p - longest_suffix_prefix_len p n) p"

lemma decided_kept: "decided_text n p @ kept_text n p = p"
  by (simp add: decided_text_def kept_text_def)

locale needle =
  fixes n :: rust_str
  assumes ascii: "ascii n" and nonempty: "n \<noteq> []"
begin

abbreviation "kept p \<equiv> drop (length p - longest_suffix_prefix_len p n) p"
abbreviation "decided p \<equiv> take (length p - longest_suffix_prefix_len p n) p"

lemma no_match_in_decided:
  assumes "str_find n p = None" "j < length p - longest_suffix_prefix_len p n"
  shows "\<not> prefix n (drop j (p @ b))"
proof
  assume pre: "prefix n (drop j (p @ b))"
  have dj: "drop j (p @ b) = drop j p @ b" using assms(2) by simp
  show False
  proof (cases "length n \<le> length p - j")
    case True
    then have "prefix n (drop j p)" using pre dj by (auto simp: prefix_append dest: prefix_length_le)
    then show False using str_find_None[OF assms(1)] by blast
  next
    case False
    then have "prefix (drop j p) n"
      using pre dj prefix_same_cases[of n "drop j p @ b" "drop j p"] prefix_length_le[of n "drop j p"] by auto
    then have "drop j p = take (length p - j) n" by (auto simp: prefix_def)
    then have "suffix (take (length p - j) n) p" by (metis suffix_drop)
    with lsp_spec(4)[OF ascii, of "length p - j" p] False assms(2) show False by auto
  qed
qed

lemma find_after_decided:
  assumes "str_find n p = None"
  shows "str_find n (p @ b) = map_option ((+) (length (decided p))) (str_find n (kept p @ b))"
  using str_find_skip[where m = "length p - longest_suffix_prefix_len p n" and n = n and x = "p @ b"] no_match_in_decided[OF assms, where b = b]
  by simp

lemma lsp_after_decided:
  "longest_suffix_prefix_len (p @ b) n = longest_suffix_prefix_len (kept p @ b) n"
proof (rule antisym)
  let ?k = "longest_suffix_prefix_len (p @ b) n"
  note spec = lsp_spec[OF ascii, where s = "p @ b"]
  have "?k \<le> length (kept p @ b)"
  proof (rule ccontr)
    assume long: "\<not> ?k \<le> length (kept p @ b)"
    then have kb: "length b < ?k" by simp
    from spec(2) obtain x where "p @ b = x @ take ?k n" by (auto simp: suffix_def)
    then have "take (length (p @ b) - length b) (p @ b) = take (length (p @ b) - length b) (x @ take ?k n)" by simp
    moreover have len: "length (p @ b) = length x + ?k"
      using \<open>p @ b = x @ take ?k n\<close> spec(3)[OF nonempty] by (metis length_append length_take min.absorb2 less_imp_le)
    moreover have "min (length p - length x) ?k = ?k - length b" "length p - length x = ?k - length b"
      using len kb by auto
    ultimately have "p = x @ take (?k - length b) n"
      using kb spec(3)[OF nonempty] by simp
    then have "suffix (take (?k - length b) n) p" by (auto simp: suffix_def)
    moreover have "?k - length b \<le> length p" "?k - length b < length n" using len kb spec(3)[OF nonempty] by auto
    ultimately have "?k - length b \<le> longest_suffix_prefix_len p n" using lsp_spec(4)[OF ascii] by blast
    then show False using long lsp_spec(1)[OF ascii, of p] by simp
  qed
  moreover have "suffix (kept p @ b) (p @ b)" by (simp add: suffix_drop)
  ultimately have "suffix (take ?k n) (kept p @ b)"
    using suffix_length_suffix[OF spec(2)] spec(3)[OF nonempty] by simp
  then show "?k \<le> longest_suffix_prefix_len (kept p @ b) n"
    using lsp_spec(4)[OF ascii] \<open>?k \<le> length (kept p @ b)\<close> spec(3)[OF nonempty] by blast
next
  let ?k = "longest_suffix_prefix_len (kept p @ b) n"
  note spec = lsp_spec[OF ascii, where s = "kept p @ b"]
  have "suffix (take ?k n) (p @ b)"
    using spec(2) suffix_order.trans[of "take ?k n" "kept p @ b" "p @ b"] by (simp add: suffix_drop)
  moreover have "?k \<le> length (p @ b)" using spec(1) by simp
  ultimately show "?k \<le> longest_suffix_prefix_len (p @ b) n"
    using lsp_spec(4)[OF ascii] spec(3)[OF nonempty] by blast
qed

lemma decided_append: "decided (p @ b) = decided p @ decided (kept p @ b)" "kept (p @ b) = kept (kept p @ b)"
proof -
  let ?k = "longest_suffix_prefix_len (p @ b) n"
  have k: "?k = longest_suffix_prefix_len (kept p @ b) n" by (rule lsp_after_decided)
  have le: "?k \<le> length (kept p @ b)" unfolding k by (rule lsp_spec(1)[OF ascii])
  have pb: "p @ b = decided p @ (kept p @ b)" by simp
  have len: "length (p @ b) - ?k = length (decided p) + (length (kept p @ b) - ?k)"
    using le arg_cong[OF pb, of length] by simp
  show "decided (p @ b) = decided p @ decided (kept p @ b)"
    unfolding len k[symmetric] by (subst pb) simp
  show "kept (p @ b) = kept (kept p @ b)"
    unfolding len k[symmetric] by (subst pb) simp
qed

lemma split_found:
  "take (length (decided p) + i) (p @ b) = decided p @ take i (kept p @ b)"
  "drop (length (decided p) + i) (p @ b) = drop i (kept p @ b)"
proof -
  have "p @ b = decided p @ (kept p @ b)" by simp
  then show "take (length (decided p) + i) (p @ b) = decided p @ take i (kept p @ b)"
    "drop (length (decided p) + i) (p @ b) = drop i (kept p @ b)"
    by (metis take_add take_all_iff append_eq_conv_conj drop_drop add.commute)+
qed

lemmas split_search = find_after_decided[folded decided_text_def kept_text_def]
  and split_at_hit = split_found[folded decided_text_def kept_text_def]
  and split_text = decided_append[folded decided_text_def kept_text_def]

lemma kept_ascii: "ascii (kept_text n p)"
proof -
  let ?k = "longest_suffix_prefix_len p n"
  obtain x where x: "p = x @ take ?k n" using lsp_spec(2)[OF ascii, of p] by (auto simp: suffix_def)
  have k: "length (take ?k n) = ?k" using lsp_spec(3)[OF ascii nonempty, of p] by simp
  then have "length p - ?k = length x" using arg_cong[OF x, of length] by simp
  then have "kept_text n p = drop (length x) (x @ take ?k n)" unfolding kept_text_def using x by simp
  then show ?thesis using ascii by (simp add: ascii_def list_all_length)
qed

end


section \<open>One tag\<close>

lemma find_next_open_single:
  "specs p = [sp] \<Longrightarrow> find_next_open p = map_option (\<lambda>i. (i, 0)) (str_find (spec_open sp) (pending p))"
  by (cases "str_find (spec_open sp) (pending p)")
     (simp_all add: find_next_open_def List.map_filter_def enumerate_eq_zip)

lemma max_open_single:
  "specs p = [sp] \<Longrightarrow> max_open_prefix_suffix_len p = longest_suffix_prefix_len (pending p) (spec_open sp)"
  by (simp add: max_open_prefix_suffix_len_def)

definition one_tag :: "'t inline_tag_spec \<Rightarrow> 't inline_hidden_tag_parser \<Rightarrow> bool" where
  "one_tag sp p \<longleftrightarrow> specs p = [sp] \<and> (case active p of Some a \<Rightarrow> act_close a = spec_close sp | None \<Rightarrow> True)"

text \<open>
  The states between pushes: what is buffered is a possible beginning of a delimiter, and pushing
  nothing changes nothing.
\<close>

definition settled :: "'t inline_tag_spec \<Rightarrow> 't inline_hidden_tag_parser \<Rightarrow> bool" where
  "settled sp p \<longleftrightarrow> one_tag sp p \<and> ascii (pending p) \<and> drain_pending p = (empty_chunk, p)"

lemma str_find_cut: "str_find n s = Some i \<Longrightarrow> s = take i s @ n @ drop (i + length n) s"
  using str_find_Some[of n s i] by (auto simp: prefix_def) (metis add.commute append_eq_conv_conj append_take_drop_id drop_drop)

locale one_tag_parser =
  fixes sp :: "'t inline_tag_spec"
  assumes open_needle: "needle (spec_open sp)" and close_needle: "needle (spec_close sp)"
begin

sublocale opn: needle "spec_open sp" by (rule open_needle)

sublocale cls: needle "spec_close sp" by (rule close_needle)

lemma drain_inside:
  assumes "specs p = [sp]" "active p = Some a" "act_close a = spec_close sp"
  shows "drain_pending p = (case str_find (spec_close sp) (pending p) of
      Some i \<Rightarrow> (case drain_pending (p\<lparr>active := None, pending := drop (i + length (spec_close sp)) (pending p)\<rparr>) of
        (out, p') \<Rightarrow> (chunk_append (show_tag \<lparr>ext_tag = act_tag a, ext_content = act_content a @ take i (pending p)\<rparr>) out, p'))
    | None \<Rightarrow> (empty_chunk, p\<lparr>active := Some (a\<lparr>act_content := act_content a @ decided_text (spec_close sp) (pending p)\<rparr>),
        pending := kept_text (spec_close sp) (pending p)\<rparr>))"
  using assms cls.nonempty by (subst drain_pending.simps) (simp add: Let_def decided_text_def kept_text_def split: option.split)

lemma drain_outside:
  assumes "specs p = [sp]" "active p = None"
  shows "drain_pending p = (case str_find (spec_open sp) (pending p) of
      Some i \<Rightarrow> (case drain_pending (p\<lparr>active := Some \<lparr>act_tag = spec_tag sp, act_close = spec_close sp, act_content = []\<rparr>,
            pending := drop (i + length (spec_open sp)) (pending p)\<rparr>) of
        (out, p') \<Rightarrow> (chunk_append (show_text (take i (pending p))) out, p'))
    | None \<Rightarrow> (show_text (decided_text (spec_open sp) (pending p)), p\<lparr>pending := kept_text (spec_open sp) (pending p)\<rparr>))"
proof -
  have "str_find (spec_open sp) (pending p) = None" if "pending p = []"
    using that opn.nonempty by simp
  then show ?thesis
    using assms opn.nonempty
    by (subst drain_pending.simps)
       (auto simp: Let_def decided_text_def kept_text_def find_next_open_single max_open_single split: option.split)
qed

text \<open>Text that arrives later does not change what was already decided.\<close>

lemma drain_append:
  assumes "one_tag sp p" "drain_pending p = (o1, p1)" "drain_pending (p1\<lparr>pending := pending p1 @ b\<rparr>) = (o2, p2)"
  shows "drain_pending (p\<lparr>pending := pending p @ b\<rparr>) = (chunk_append o1 o2, p2)"
  using assms
proof (induction "length (pending p)" arbitrary: p o1 p1 rule: less_induct)
  case less
  have sp: "specs p = [sp]" using less.prems(1) by (simp add: one_tag_def)
  show ?case
  proof (cases "active p")
    case None
    note step = drain_outside[OF sp None] drain_outside[of "p\<lparr>pending := pending p @ b\<rparr>"]
    show ?thesis
    proof (cases "str_find (spec_open sp) (pending p)")
      case (Some i)
      let ?q = "p\<lparr>active := Some \<lparr>act_tag = spec_tag sp, act_close = spec_close sp, act_content = []\<rparr>,
            pending := drop (i + length (spec_open sp)) (pending p)\<rparr>"
      obtain o1' where q: "drain_pending ?q = (o1', p1)" "o1 = chunk_append (show_text (take i (pending p))) o1'"
        using less.prems(2) step(1) Some by (auto split: prod.splits)
      have len: "i + length (spec_open sp) \<le> length (pending p)" by (rule str_find_len[OF Some])
      have "drain_pending (?q\<lparr>pending := pending ?q @ b\<rparr>) = (chunk_append o1' o2, p2)"
        using less.hyps[OF _ _ q(1) less.prems(3)] len opn.nonempty sp
        by (cases "spec_open sp") (auto simp: one_tag_def)
      then show ?thesis using step(2) None sp str_find_append[OF Some] len q(2) by simp
    next
      case no: None
      have 1: "o1 = show_text (decided_text (spec_open sp) (pending p))" "p1 = p\<lparr>pending := kept_text (spec_open sp) (pending p)\<rparr>"
        using less.prems(2) step(1) no by auto
      note step3 = drain_outside[of "p1\<lparr>pending := pending p1 @ b\<rparr>"]
      show ?thesis
      proof (cases "str_find (spec_open sp) (kept_text (spec_open sp) (pending p) @ b)")
        case again: None
        then show ?thesis
          using step(2) step3 less.prems(3) None sp 1 opn.split_search[OF no, of b] opn.split_text[of "pending p" b]
          by (auto simp: chunk_append_def)
      next
        case (Some i)
        let ?m = "length (decided_text (spec_open sp) (pending p))"
        have i: "str_find (spec_open sp) (pending p @ b) = Some (?m + i)"
          using Some opn.split_search[OF no, of b] by simp
        have q: "drop (?m + i + length (spec_open sp)) (pending p @ b)
            = drop (i + length (spec_open sp)) (kept_text (spec_open sp) (pending p) @ b)"
          using opn.split_at_hit(2)[of "pending p" "i + length (spec_open sp)" b] by (simp add: add.assoc)
        show ?thesis
          using step(2) step3 less.prems(3) None sp 1 Some
          by (auto simp: i q opn.split_at_hit(1) chunk_append_def simp del: drop_append take_append split: prod.splits)
      qed
    qed
  next
    case (Some a)
    have close: "act_close a = spec_close sp" using less.prems(1) Some by (simp add: one_tag_def)
    note step = drain_inside[OF sp Some close] drain_inside[of "p\<lparr>pending := pending p @ b\<rparr>" a]
    show ?thesis
    proof (cases "str_find (spec_close sp) (pending p)")
      case found: (Some i)
      let ?q = "p\<lparr>active := None, pending := drop (i + length (spec_close sp)) (pending p)\<rparr>"
      let ?tag = "show_tag \<lparr>ext_tag = act_tag a, ext_content = act_content a @ take i (pending p)\<rparr>"
      obtain o1' where q: "drain_pending ?q = (o1', p1)" "o1 = chunk_append ?tag o1'"
        using less.prems(2) step(1) found by (auto split: prod.splits)
      have len: "i + length (spec_close sp) \<le> length (pending p)" by (rule str_find_len[OF found])
      have "drain_pending (?q\<lparr>pending := pending ?q @ b\<rparr>) = (chunk_append o1' o2, p2)"
        using less.hyps[OF _ _ q(1) less.prems(3)] len cls.nonempty sp
        by (cases "spec_close sp") (auto simp: one_tag_def)
      then show ?thesis using step(2) Some close sp str_find_append[OF found] len q(2) by simp
    next
      case no: None
      have 1: "o1 = empty_chunk" "p1 = p\<lparr>active := Some (a\<lparr>act_content := act_content a @ decided_text (spec_close sp) (pending p)\<rparr>),
          pending := kept_text (spec_close sp) (pending p)\<rparr>"
        using less.prems(2) step(1) no by auto
      note step3 = drain_inside[of "p1\<lparr>pending := pending p1 @ b\<rparr>"]
      show ?thesis
      proof (cases "str_find (spec_close sp) (kept_text (spec_close sp) (pending p) @ b)")
        case again: None
        then show ?thesis
          using step(2) step3 less.prems(3) Some close sp 1 cls.split_search[OF no, of b] cls.split_text[of "pending p" b]
          by auto
      next
        case again: (Some i)
        let ?m = "length (decided_text (spec_close sp) (pending p))"
        have i: "str_find (spec_close sp) (pending p @ b) = Some (?m + i)"
          using again cls.split_search[OF no, of b] by simp
        have q: "drop (?m + i + length (spec_close sp)) (pending p @ b)
            = drop (i + length (spec_close sp)) (kept_text (spec_close sp) (pending p) @ b)"
          using cls.split_at_hit(2)[of "pending p" "i + length (spec_close sp)" b] by (simp add: add.assoc)
        show ?thesis
          using step(2) step3 less.prems(3) Some close sp 1 again
          by (simp add: i q cls.split_at_hit(1) del: drop_append take_append split: prod.splits)
      qed
    qed
  qed
qed

text \<open>A step past a delimiter leaves a shorter buffer and cuts valid text into valid parts.\<close>

lemma past_delimiter:
  assumes "str_find n s = Some i" "needle n"
  shows "length (drop (i + length n) s) < length s"
    "utf8_valid s \<Longrightarrow> utf8_valid (take i s) \<and> utf8_valid (drop (i + length n) s)"
proof -
  have "0 < length n" using assms(2) by (simp add: needle_def)
  then show "length (drop (i + length n) s) < length s" using str_find_len[OF assms(1)] by (simp del: length_greater_0_conv)
  show "utf8_valid (take i s) \<and> utf8_valid (drop (i + length n) s)" if "utf8_valid s"
    using utf8_valid_split[of "take i s" n "drop (i + length n) s"] that str_find_cut[OF assms(1)] assms(2)
    by (simp add: needle_def)
qed

lemma drain_one_tag:
  assumes "one_tag sp p" "drain_pending p = (out, p')"
  shows "one_tag sp p' \<and> ascii (pending p') \<and> (utf8_valid (pending p) \<longrightarrow> utf8_valid (visible_text out))"
  using assms
proof (induction "length (pending p)" arbitrary: p out rule: less_induct)
  case less
  have sp: "specs p = [sp]" using less.prems(1) by (simp add: one_tag_def)
  show ?case
  proof (cases "active p")
    case outside: None
    show ?thesis
    proof (cases "str_find (spec_open sp) (pending p)")
      case None
      then show ?thesis
        using less.prems drain_outside[OF sp outside] opn.kept_ascii[of "pending p"]
          utf8_valid_before[of "decided_text (spec_open sp) (pending p)" "kept_text (spec_open sp) (pending p)"]
        by (auto simp: one_tag_def decided_kept)
    next
      case (Some i)
      let ?q = "p\<lparr>active := Some \<lparr>act_tag = spec_tag sp, act_close = spec_close sp, act_content = []\<rparr>,
            pending := drop (i + length (spec_open sp)) (pending p)\<rparr>"
      obtain out' where q: "drain_pending ?q = (out', p')" "out = chunk_append (show_text (take i (pending p))) out'"
        using less.prems(2) drain_outside[OF sp outside] Some by (auto split: prod.splits)
      show ?thesis
        using less.hyps[OF _ _ q(1)] past_delimiter[OF Some open_needle] sp q(2)
        by (auto simp: utf8_valid_append one_tag_def)
    qed
  next
    case inside: (Some a)
    have close: "act_close a = spec_close sp" using less.prems(1) inside by (simp add: one_tag_def)
    show ?thesis
    proof (cases "str_find (spec_close sp) (pending p)")
      case None
      then show ?thesis
        using less.prems drain_inside[OF sp inside close] cls.kept_ascii[of "pending p"]
        by (auto simp: one_tag_def empty_chunk_def close)
    next
      case (Some i)
      let ?q = "p\<lparr>active := None, pending := drop (i + length (spec_close sp)) (pending p)\<rparr>"
      obtain x out' where q: "drain_pending ?q = (out', p')" "out = chunk_append (show_tag x) out'"
        using less.prems(2) drain_inside[OF sp inside close] Some by (auto split: prod.splits)
      show ?thesis
        using less.hyps[OF _ _ q(1)] past_delimiter[OF Some close_needle] sp q(2)
        by (auto simp: one_tag_def)
    qed
  qed
qed

lemma drain_settles: "one_tag sp p \<Longrightarrow> drain_pending p = (out, p') \<Longrightarrow> settled sp p'"
proof -
  assume p: "one_tag sp p" "drain_pending p = (out, p')"
  obtain o2 p2 where again: "drain_pending p' = (o2, p2)" by fastforce
  with drain_append[OF p, of "[]" o2 p2] p have "chunk_append out o2 = out" "p2 = p'" by simp_all
  then have "o2 = empty_chunk" by (cases o2; cases out) (auto simp: chunk_append_def empty_chunk_def)
  with again p drain_one_tag[OF p] \<open>p2 = p'\<close> show ?thesis by (simp add: settled_def)
qed

lemma settled_push:
  assumes "settled sp p" "inline_push p a = (o1, p1)"
  shows "settled sp p1"
    "utf8_valid a \<Longrightarrow> utf8_valid (visible_text o1)"
    "inline_push p1 b = (o2, p2) \<Longrightarrow> inline_push p (a @ b) = (chunk_append o1 o2, p2)"
proof -
  let ?p = "p\<lparr>pending := pending p @ a\<rparr>"
  have one: "one_tag sp ?p" using assms(1) by (simp add: settled_def one_tag_def)
  have d: "drain_pending ?p = (o1, p1)" using assms(2) by (simp add: inline_push_def)
  show "settled sp p1" by (rule drain_settles[OF one d])
  show "utf8_valid a \<Longrightarrow> utf8_valid (visible_text o1)"
    using drain_one_tag[OF one d] assms(1) utf8_valid_append[OF utf8_valid_ascii, of "pending p" a]
    by (simp add: settled_def)
  show "inline_push p1 b = (o2, p2) \<Longrightarrow> inline_push p (a @ b) = (chunk_append o1 o2, p2)"
    using drain_append[OF one d, of b] by (simp add: inline_push_def)
qed

lemma settled_push_Nil: "settled sp p \<Longrightarrow> inline_push p [] = (empty_chunk, p)"
  by (simp add: settled_def inline_push_def)

end

end
