(* ===== verification/Citation.thy ===== *)
theory Citation
  imports Inline_Tags
begin

text \<open>
  \<open>utils/stream-parser/src/citation.rs\<close>: memory citations are hidden from the visible text and
  returned apart. The parser is an instance of the interface \<open>stream_parser\<close>.
\<close>

section \<open>\<open>CitationStreamParser\<close>\<close>

datatype citation_tag = CitationTag

definition citation_open :: rust_str where
  "citation_open = ''<oai-mem-citation>''"

definition citation_close :: rust_str where
  "citation_close = ''</oai-mem-citation>''"

definition citation_spec :: "citation_tag inline_tag_spec" where
  "citation_spec = \<lparr>spec_tag = CitationTag, spec_open = citation_open, spec_close = citation_close\<rparr>"

type_synonym citation_parser = "citation_tag inline_hidden_tag_parser"

definition new_citation_parser :: citation_parser where
  "new_citation_parser = the (new_inline_parser [citation_spec])"

definition citation_bodies :: "citation_tag extracted_inline_tag stream_text_chunk \<Rightarrow> rust_str stream_text_chunk" where
  "citation_bodies c = \<lparr>visible_text = visible_text c, extracted = map ext_content (extracted c)\<rparr>"

definition citation_push :: "citation_parser \<Rightarrow> rust_str \<Rightarrow> rust_str stream_text_chunk \<times> citation_parser" where
  "citation_push p chunk = (case inline_push p chunk of (c, p') \<Rightarrow> (citation_bodies c, p'))"

definition citation_finish :: "citation_parser \<Rightarrow> rust_str stream_text_chunk \<times> citation_parser" where
  "citation_finish p = (case inline_finish p of (c, p') \<Rightarrow> (citation_bodies c, p'))"

definition strip_citations :: "rust_str \<Rightarrow> rust_str \<times> rust_str list" where
  "strip_citations text =
     (case citation_push new_citation_parser text of (out, p) \<Rightarrow>
      case citation_finish p of (tail, _) \<Rightarrow>
        (visible_text out @ visible_text tail, extracted out @ extracted tail))"

section \<open>Chunks do not matter\<close>

lemma citation_delims [simp]:
  "ascii citation_open" "citation_open \<noteq> []" "ascii citation_close" "citation_close \<noteq> []"
  by (simp_all add: citation_open_def citation_close_def)

lemma citation_spec_simps [simp]:
  "spec_tag citation_spec = CitationTag" "spec_open citation_spec = citation_open" "spec_close citation_spec = citation_close"
  by (simp_all add: citation_spec_def)

interpretation tags: one_tag_parser citation_spec
  by unfold_locales (simp_all add: needle_def)

lemma new_citation_parser_eq:
  "new_citation_parser = \<lparr>specs = [citation_spec], pending = [], active = None\<rparr>"
  by (simp add: new_citation_parser_def new_inline_parser_def)

lemma citation_bodies_simps [simp]:
  "citation_bodies empty_chunk = empty_chunk" "visible_text (citation_bodies c) = visible_text c"
  "extracted (citation_bodies c) = map ext_content (extracted c)"
  "citation_bodies (chunk_append c d) = chunk_append (citation_bodies c) (citation_bodies d)"
  by (simp_all add: citation_bodies_def empty_chunk_def chunk_append_def)

interpretation citation: stream_parser citation_push "settled citation_spec" id
proof
  fix s a assume s: "settled citation_spec s" and a: "utf8_valid a"
  obtain c s1 where p: "inline_push s a = (c, s1)" by fastforce
  show "settled citation_spec (snd (citation_push s a))" "utf8_valid (visible_text (fst (citation_push s a)))"
    using tags.settled_push(1,2)[OF s p] a p by (simp_all add: citation_push_def)
next
  fix s a b o1 o2 s1 s2
  assume "settled citation_spec s" "citation_push s a = (o1, s1)" "citation_push s1 b = (o2, s2)"
  then have "citation_push s (a @ b) = (chunk_append o1 o2, s2)"
    using tags.settled_push(3) by (fastforce simp: citation_push_def split: prod.splits)
  then show "\<exists>out. citation_push s (a @ b) = (out, s2) \<and> visible_text out = visible_text o1 @ visible_text o2 \<and>
      id (extracted out) = id (extracted o1 @ extracted o2)"
    by simp
qed (simp_all add: citation_push_def tags.settled_push_Nil)

lemma new_citation_settled: "settled citation_spec new_citation_parser"
  by (simp add: settled_def one_tag_def new_citation_parser_eq tags.drain_outside decided_text_def kept_text_def empty_chunk_def)

text \<open>However the message is cut, streaming it gives what \<open>strip_citations\<close> gives on the whole.\<close>

lemma citation_streamed:
  assumes "list_all utf8_valid cs" "strip_citations (concat cs) = (vis, cits)"
  shows "collect_chunks citation_push citation_finish new_citation_parser cs = \<lparr>visible_text = vis, extracted = cits\<rparr>"
proof -
  obtain out p where whole: "citation_push new_citation_parser (concat cs) = (out, p)" by fastforce
  obtain out' where "push_all citation_push new_citation_parser cs = (out', p)"
    "visible_text out' = visible_text out" "extracted out' = extracted out"
    using citation.push_all_concat[OF new_citation_settled assms(1) whole] by auto
  then show ?thesis
    using assms(2) whole
    by (auto simp: collect_chunks_def strip_citations_def chunk_append_def split: prod.splits)
qed

section \<open>Rendered text\<close>

lemma str_find_border_free:
  assumes "n = c # n'" "c \<notin> set n'" "str_find n v = None"
  shows "str_find n (v @ n @ z) = Some (length v)"
proof (rule str_find_at)
  show "\<forall>j < length v. \<not> prefix n (drop j (v @ n @ z))"
  proof (intro allI impI notI)
    fix j assume j: "j < length v" and pre: "prefix n (drop j (v @ n @ z))"
    let ?k = "length v - j"
    show False
    proof (cases "length n \<le> ?k")
      case True
      then have "prefix n (drop j v)" using prefix_length_prefix[OF pre, of "drop j v"] j by simp
      then show False using str_find_None[OF assms(3)] by blast
    next
      case False
      then obtain i where i: "?k = Suc i" "i < length n'" using j assms(1) by (cases ?k) auto
      obtain ys where "drop j (v @ n @ z) = n @ ys" using pre by (auto simp: prefix_def)
      then have "n ! ?k = drop j (v @ n @ z) ! ?k" using False by (simp add: nth_append)
      also have "\<dots> = c" using j assms(1) by (simp add: nth_append)
      finally have "n' ! i = c" using i assms(1) by simp
      then show False using i(2) assms(2) nth_mem by blast
    qed
  qed
qed simp_all

fun render_citations :: "rust_str \<Rightarrow> (rust_str \<times> rust_str) list \<Rightarrow> rust_str" where
  "render_citations v [] = v"
| "render_citations v ((c, v') # rest) = v @ citation_open @ c @ citation_close @ render_citations v' rest"

lemma drain_rendered:
  assumes "str_find citation_open v = None"
    "list_all (\<lambda>(c, v'). str_find citation_close c = None \<and> str_find citation_open v' = None) rest"
    "r = kept_text citation_open (last (v # map snd rest))"
  shows "\<exists>k tags. drain_pending \<lparr>specs = [citation_spec], pending = render_citations v rest, active = None\<rparr>
      = (\<lparr>visible_text = k, extracted = tags\<rparr>, \<lparr>specs = [citation_spec], pending = r, active = None\<rparr>) \<and>
    k @ r = v @ concat (map snd rest) \<and> map ext_content tags = map fst rest"
  using assms
proof (induction v rest rule: render_citations.induct)
  case (1 v)
  then show ?case by (simp add: tags.drain_outside decided_kept)
next
  case (2 v c v' rest)
  have o: "str_find citation_open (v @ citation_open @ z) = Some (length v)" for z
    using 2(2) by (intro str_find_border_free) (auto simp: citation_open_def)
  have c: "str_find citation_close (c @ citation_close @ z) = Some (length c)" for z
    using 2(3) by (intro str_find_border_free) (auto simp: citation_close_def)
  obtain k tags where IH: "drain_pending \<lparr>specs = [citation_spec], pending = render_citations v' rest, active = None\<rparr>
      = (\<lparr>visible_text = k, extracted = tags\<rparr>, \<lparr>specs = [citation_spec], pending = r, active = None\<rparr>)"
    "k @ r = v' @ concat (map snd rest)" "map ext_content tags = map fst rest"
    using 2 by auto
  show ?case
    using IH by (simp add: tags.drain_outside tags.drain_inside o c chunk_append_def)
qed

text \<open>
  Text with citations in it is taken apart exactly: if no text between citations contains the
  opening tag and no citation body contains the closing tag, \<open>strip_citations\<close> returns the
  concatenation of the texts and the list of the bodies.
\<close>

theorem strip_rendered_citations:
  assumes "str_find citation_open v = None"
    "list_all (\<lambda>(c, v'). str_find citation_close c = None \<and> str_find citation_open v' = None) rest"
  shows "strip_citations (render_citations v rest) = (v @ concat (map snd rest), map fst rest)"
proof -
  obtain k tags where
    "drain_pending \<lparr>specs = [citation_spec], pending = render_citations v rest, active = None\<rparr>
      = (\<lparr>visible_text = k, extracted = tags\<rparr>,
         \<lparr>specs = [citation_spec], pending = kept_text citation_open (last (v # map snd rest)), active = None\<rparr>)"
    "k @ kept_text citation_open (last (v # map snd rest)) = v @ concat (map snd rest)" "map ext_content tags = map fst rest"
    using drain_rendered[OF assms refl] by blast
  then show ?thesis
    by (simp add: strip_citations_def citation_push_def inline_push_def new_citation_parser_eq
        citation_finish_def inline_finish_def)
qed

theorem strip_rendered_citations_witness:
  "strip_citations (render_citations ''see '' [(''doc A'', '' and ''), (''doc < B'', ''.'')])
     = (''see '' @ concat ['' and '', ''.''], [''doc A'', ''doc < B''])"
  using strip_rendered_citations[of "''see ''" "[(''doc A'', '' and ''), (''doc < B'', ''.'')]"]
  by (simp add: citation_open_def citation_close_def)

end
