(* ===== verification/Tagged_Lines.thy ===== *)
theory Tagged_Lines
  imports Stream_Text
begin

text \<open>
  \<open>utils/stream-parser/src/tagged_line_parser.rs\<close>: blocks between tags that stand alone on a
  line. The parser buffers a line only as long as it may still be a tag. The reference definition
  \<open>tagged_reference\<close> looks at whole lines; both give the same segments.
\<close>

section \<open>\<open>TaggedLineParser\<close>\<close>

record 't tag_spec =
  tag_open :: rust_str
  tag_close :: rust_str
  tag_of :: 't

datatype 't tagged_line_segment =
  NormalText rust_str
| TagStart 't
| TagDelta 't rust_str
| TagEnd 't

record 't tagged_line_parser =
  tag_specs :: "'t tag_spec list"
  active_tag :: "'t option"
  detect_tag :: bool
  line_buffer :: rust_str

definition new_tagged_line_parser :: "'t tag_spec list \<Rightarrow> 't tagged_line_parser" where
  "new_tagged_line_parser ss = \<lparr>tag_specs = ss, active_tag = None, detect_tag = True, line_buffer = []\<rparr>"

fun push_segment :: "'t tagged_line_segment \<Rightarrow> 't tagged_line_segment list \<Rightarrow> 't tagged_line_segment list" where
  "push_segment (NormalText delta) segs =
     (if delta = [] then segs
      else case last_opt segs of
        Some (NormalText existing) \<Rightarrow> butlast segs @ [NormalText (existing @ delta)]
      | _ \<Rightarrow> segs @ [NormalText delta])"
| "push_segment (TagDelta tag delta) segs =
     (if delta = [] then segs
      else case last_opt segs of
        Some (TagDelta existing_tag existing) \<Rightarrow>
          if existing_tag = tag then butlast segs @ [TagDelta existing_tag (existing @ delta)]
          else segs @ [TagDelta tag delta]
      | _ \<Rightarrow> segs @ [TagDelta tag delta])"
| "push_segment (TagStart tag) segs = segs @ [TagStart tag]"
| "push_segment (TagEnd tag) segs = segs @ [TagEnd tag]"

definition push_text ::
    "'t option \<Rightarrow> rust_str \<Rightarrow> 't tagged_line_segment list \<Rightarrow> 't tagged_line_segment list" where
  "push_text act text segs =
     (case act of
        Some tag \<Rightarrow> push_segment (TagDelta tag text) segs
      | None \<Rightarrow> push_segment (NormalText text) segs)"

definition is_tag_prefix :: "'t tag_spec list \<Rightarrow> rust_str \<Rightarrow> bool" where
  "is_tag_prefix ss slug =
     (let slug = trim_end slug in list_ex (\<lambda>s. prefix slug (tag_open s) \<or> prefix slug (tag_close s)) ss)"

definition match_open :: "'t tag_spec list \<Rightarrow> rust_str \<Rightarrow> 't option" where
  "match_open ss slug = map_option tag_of (find (\<lambda>s. tag_open s = slug) ss)"

definition match_close :: "'t tag_spec list \<Rightarrow> rust_str \<Rightarrow> 't option" where
  "match_close ss slug = map_option tag_of (find (\<lambda>s. tag_close s = slug) ss)"

definition without_newline :: "rust_str \<Rightarrow> rust_str" where
  "without_newline line = (case strip_suffix [newline] line of Some l \<Rightarrow> l | None \<Rightarrow> line)"

text \<open>
  The tests that \<open>finish_line\<close> and \<open>finish\<close> make of a complete line: the tag that is active
  afterwards and the segment for the line.
\<close>

definition classify_line ::
    "'t tag_spec list \<Rightarrow> 't option \<Rightarrow> rust_str \<Rightarrow> 't option \<times> 't tagged_line_segment" where
  "classify_line ss act line =
     (let slug = trim_end (trim_start (without_newline line));
          text = (case act of Some tag \<Rightarrow> TagDelta tag line | None \<Rightarrow> NormalText line)
      in case match_open ss slug of
           Some tag \<Rightarrow>
             if act = None then (Some tag, TagStart tag)
             else (case match_close ss slug of
                     Some tag \<Rightarrow> if act = Some tag then (None, TagEnd tag) else (act, text)
                   | None \<Rightarrow> (act, text))
         | None \<Rightarrow>
             (case match_close ss slug of
                Some tag \<Rightarrow> if act = Some tag then (None, TagEnd tag) else (act, text)
              | None \<Rightarrow> (act, text)))"

definition finish_line ::
    "'t tagged_line_parser \<Rightarrow> 't tagged_line_segment list \<Rightarrow>
     't tagged_line_parser \<times> 't tagged_line_segment list" where
  "finish_line p segs =
     (case classify_line (tag_specs p) (active_tag p) (line_buffer p) of
        (act, seg) \<Rightarrow> (p\<lparr>active_tag := act, line_buffer := [], detect_tag := True\<rparr>, push_segment seg segs))"

text \<open>The loop of \<open>parse\<close>, with the pending run of text and the segments so far.\<close>

fun parse_chars ::
    "'t tagged_line_parser \<Rightarrow> rust_str \<Rightarrow> 't tagged_line_segment list \<Rightarrow> rust_str list \<Rightarrow>
     't tagged_line_parser \<times> 't tagged_line_segment list" where
  "parse_chars p run segs [] = (p, if run \<noteq> [] then push_text (active_tag p) run segs else segs)"
| "parse_chars p run segs (ch # chs) =
     (if detect_tag p then
        (let segs = (if run \<noteq> [] then push_text (active_tag p) run segs else segs);
             p = p\<lparr>line_buffer := line_buffer p @ ch\<rparr>;
             slug = trim_start (line_buffer p)
         in if ch = [newline] then
              (case finish_line p segs of (p', segs') \<Rightarrow> parse_chars p' [] segs' chs)
            else if slug = [] \<or> is_tag_prefix (tag_specs p) slug then parse_chars p [] segs chs
            else parse_chars (p\<lparr>line_buffer := [], detect_tag := False\<rparr>) []
                   (push_text (active_tag p) (line_buffer p) segs) chs)
      else if ch = [newline] then
        parse_chars (p\<lparr>detect_tag := True\<rparr>) [] (push_text (active_tag p) (run @ ch) segs) chs
      else parse_chars p (run @ ch) segs chs)"

definition tagged_parse ::
    "'t tagged_line_parser \<Rightarrow> rust_str \<Rightarrow> 't tagged_line_parser \<times> 't tagged_line_segment list" where
  "tagged_parse p delta = parse_chars p [] [] (utf8_chars delta)"

definition tagged_finish ::
    "'t tagged_line_parser \<Rightarrow> 't tagged_line_parser \<times> 't tagged_line_segment list" where
  "tagged_finish p =
     (case (if line_buffer p = [] then (active_tag p, [])
            else case classify_line (tag_specs p) (active_tag p) (line_buffer p) of
                   (act, seg) \<Rightarrow> (act, push_segment seg [])) of
        (act, segs) \<Rightarrow>
          (p\<lparr>active_tag := None, line_buffer := [], detect_tag := True\<rparr>,
           case act of Some tag \<Rightarrow> push_segment (TagEnd tag) segs | None \<Rightarrow> segs))"

section \<open>Merging segments\<close>

definition merge_segments :: "'t tagged_line_segment list \<Rightarrow> 't tagged_line_segment list" where
  "merge_segments xs = fold push_segment xs []"

fun text_segment :: "'t option \<Rightarrow> rust_str \<Rightarrow> 't tagged_line_segment" where
  "text_segment (Some tag) text = TagDelta tag text"
| "text_segment None text = NormalText text"

lemma push_text_eq: "push_text act text segs = push_segment (text_segment act text) segs"
  by (cases act) (simp_all add: push_text_def)

lemma push_segment_text:
  "push_segment (text_segment act y) (push_segment (text_segment act x) segs) =
     push_segment (text_segment act (x @ y)) segs"
proof (cases "segs" rule: rev_cases)
  case Nil
  then show ?thesis by (cases act) (auto simp: last_opt_def)
next
  case (snoc ys s)
  then show ?thesis by (cases act; cases s) (auto simp: last_opt_def butlast_append)
qed

lemma push_text_Nil [simp]: "push_segment (text_segment act []) segs = segs"
  by (cases act) simp_all

lemma push_segment_shape:
  obtains "push_segment x ys = ys @ [x]" | act where "x = text_segment act []" "push_segment x ys = ys"
  | act t d zs where "ys = zs @ [text_segment act t]" "x = text_segment act d"
      "push_segment x ys = zs @ [text_segment act (t @ d)]"
proof -
  have last: "ys = butlast ys @ [y]" if "last_opt ys = Some y" for y using that by (auto simp: last_opt_Some)
  have "push_segment x ys = ys @ [x] \<or> (\<exists>act. x = text_segment act [] \<and> push_segment x ys = ys) \<or>
    (\<exists>act t d zs. ys = zs @ [text_segment act t] \<and> x = text_segment act d \<and>
       push_segment x ys = zs @ [text_segment act (t @ d)])"
  proof (cases x)
    case (NormalText d)
    show ?thesis
    proof (cases "d = [] \<or> last_opt ys = None")
      case False
      then obtain y where y: "last_opt ys = Some y" by (auto simp: last_opt_def)
      then show ?thesis using NormalText False last[OF y] by (cases y) (auto intro: exI[of _ None])
    qed (use NormalText in \<open>auto intro: exI[of _ None]\<close>)
  next
    case (TagDelta t d)
    show ?thesis
    proof (cases "d = [] \<or> last_opt ys = None")
      case False
      then obtain y where y: "last_opt ys = Some y" by (auto simp: last_opt_def)
      then show ?thesis using TagDelta False last[OF y] by (cases y) (auto intro: exI[of _ "Some t"])
    qed (use TagDelta in \<open>auto intro: exI[of _ "Some t"]\<close>)
  qed auto
  then show thesis using that by blast
qed

text \<open>Pushing onto segments commutes with pushing those segments onto earlier ones.\<close>

lemma fold_push_segment: "fold push_segment (push_segment x ys) segs = push_segment x (fold push_segment ys segs)"
  by (rule push_segment_shape[of x ys]) (simp_all add: push_segment_text)

lemma fold_fold_push_segment:
  "fold push_segment (fold push_segment xs ys) segs = fold push_segment xs (fold push_segment ys segs)"
  by (induction xs arbitrary: ys) (simp_all add: fold_push_segment)

lemma merge_segments_append:
  "merge_segments (merge_segments xs @ ys) = merge_segments (xs @ ys)"
  "merge_segments (xs @ merge_segments ys) = merge_segments (xs @ ys)"
  "merge_segments (fold push_segment ys xs) = merge_segments (xs @ ys)"
  by (simp_all add: merge_segments_def fold_fold_push_segment)

section \<open>Cutting the input\<close>

text \<open>A pending run never meets a line in detection, so it may be pushed earlier.\<close>

lemma parse_chars_run:
  "detect_tag p \<longrightarrow> r = [] \<Longrightarrow>
     parse_chars p (r @ r') segs chs = parse_chars p r' (push_text (active_tag p) r segs) chs"
proof (induction p r' segs chs arbitrary: r rule: parse_chars.induct)
  case (1 p run segs)
  then show ?case by (auto simp: push_text_eq push_segment_text)
next
  case (2 p run segs ch chs)
  then show ?case by (cases "detect_tag p") (auto simp: push_text_eq push_segment_text)
qed

lemma parse_chars_append:
  "detect_tag p \<longrightarrow> run = [] \<Longrightarrow> parse_chars p run segs xs = (p', segs') \<Longrightarrow>
     parse_chars p run segs (xs @ ys) = parse_chars p' [] segs' ys"
proof (induction p run segs xs rule: parse_chars.induct)
  case (1 p run segs)
  then show ?case using parse_chars_run[of p run "[]" segs ys] by (auto simp: push_text_eq)
next
  case (2 p run segs ch chs)
  then show ?case by (auto simp: Let_def finish_line_def split: if_splits prod.splits)
qed

lemma parse_chars_acc:
  "parse_chars p run xs chs = (p', xs') \<Longrightarrow>
     parse_chars p run (fold push_segment xs segs) chs = (p', fold push_segment xs' segs)"
proof (induction p run xs chs arbitrary: p' rule: parse_chars.induct)
  case (1 p run xs)
  then show ?case by (auto simp: push_text_eq fold_push_segment)
next
  case (2 p run xs ch chs)
  then show ?case
    by (auto simp: Let_def finish_line_def push_text_eq fold_push_segment split: if_splits prod.splits)
qed

lemma tagged_parse_append:
  assumes "utf8_closed a" "tagged_parse p a = (p1, s1)" "tagged_parse p1 b = (p2, s2)"
  shows "tagged_parse p (a @ b) = (p2, fold push_segment s2 s1)"
  using assms parse_chars_append[of p "[]" "[]" "utf8_chars a" p1 s1 "utf8_chars b"]
    parse_chars_acc[of p1 "[]" "[]" "utf8_chars b" p2 s2 s1]
  by (simp add: tagged_parse_def utf8_chars_append)


section \<open>Whole lines\<close>

fun split_lines :: "rust_str list \<Rightarrow> rust_str list list" where
  "split_lines [] = []"
| "split_lines (u # us) =
     (if u = [newline] then [u] # split_lines us
      else case split_lines us of [] \<Rightarrow> [[u]] | l # ls \<Rightarrow> (u # l) # ls)"

fun classify_lines ::
    "'t tag_spec list \<Rightarrow> 't option \<Rightarrow> rust_str list \<Rightarrow> 't option \<times> 't tagged_line_segment list" where
  "classify_lines ss act [] = (act, [])"
| "classify_lines ss act (l # ls) =
     (case classify_line ss act l of (act', seg) \<Rightarrow>
      case classify_lines ss act' ls of (act'', segs) \<Rightarrow> (act'', seg # segs))"

definition tagged_reference :: "'t tag_spec list \<Rightarrow> rust_str \<Rightarrow> 't tagged_line_segment list" where
  "tagged_reference ss text =
     (case classify_lines ss None (map concat (split_lines (utf8_chars text))) of
        (act, segs) \<Rightarrow> merge_segments (segs @ (case act of Some tag \<Rightarrow> [TagEnd tag] | None \<Rightarrow> [])))"

text \<open>A tag without white space, as every specification in the program has.\<close>

definition tag_word :: "rust_str \<Rightarrow> bool" where
  "tag_word w \<longleftrightarrow> ascii w \<and> list_all (\<lambda>c. \<not> is_whitespace [c]) w"

definition tag_words :: "'t tag_spec list \<Rightarrow> bool" where
  "tag_words ss \<longleftrightarrow> list_all (\<lambda>s. tag_word (tag_open s) \<and> tag_word (tag_close s)) ss"

text \<open>If a line is a tag, every beginning of it is blank or a beginning of the tag.\<close>

lemma tag_line_prefix:
  assumes "\<forall>u \<in> set (pre @ us). is_char u" "trim_end (trim_start (concat (pre @ us))) = w" "tag_word w"
  shows "trim_start (concat pre) = [] \<or> prefix (trim_end (trim_start (concat pre))) w"
proof -
  let ?ws = "dropWhile is_whitespace"
  let ?D = "?ws (pre @ us)" let ?P = "?ws pre"
  let ?E = "rev (?ws (rev ?D))" let ?T = "rev (takeWhile is_whitespace (rev ?D))"
  have sub: "set ?E \<subseteq> set (pre @ us)" "set ?D \<subseteq> set (pre @ us)" "set ?P \<subseteq> set (pre @ us)"
    by (auto dest!: set_dropWhileD)
  have chars: "utf8_chars (concat xs) = xs" if "set xs \<subseteq> set (pre @ us)" for xs
    using is_char_concat[of xs] that assms(1) by auto
  have start: "trim_start (concat pre) = concat ?P" "trim_start (concat (pre @ us)) = concat ?D"
    unfolding trim_start_def using chars[of pre] chars[of "pre @ us"] by auto
  have "concat ?E = w" using assms(2) chars[OF sub(2)] by (simp only: start(2) trim_end_def)
  then have E: "?E = map (\<lambda>c. [c]) w" using chars[OF sub(1)] utf8_chars_ascii[of w] assms(3)
    by (simp add: tag_word_def)
  then have nows: "\<not> is_whitespace u" if "u \<in> set ?E" for u
    using that assms(3) by (auto simp: tag_word_def list_all_iff)
  have keep: "?ws (rev xs) = rev xs" if "\<forall>u \<in> set xs. \<not> is_whitespace u" for xs
    using that hd_in_set[of "rev xs"] by (auto simp: dropWhile_eq_self_iff)
  have D: "?D = ?E @ ?T"
    by (metis rev_append rev_rev_ident takeWhile_dropWhile_id)
  show ?thesis
  proof (cases "\<forall>u \<in> set pre. is_whitespace u")
    case True
    then have none: "?P = []" by (simp add: dropWhile_eq_Nil_conv)
    show ?thesis unfolding start(1) none by simp
  next
    case False
    then have "?D = ?P @ us" using dropWhile_append1[of _ pre is_whitespace us] by blast
    with D have "prefix ?P (?E @ ?T)" by (metis prefix_def)
    then consider "prefix ?P ?E" | T' where "?P = ?E @ T'" "prefix T' ?T" by (auto simp: prefix_append)
    then show ?thesis
    proof cases
      case 1
      then have "\<forall>u \<in> set ?P. \<not> is_whitespace u" using nows set_mono_prefix by blast
      then have "?ws (rev ?P) = rev ?P" by (rule keep)
      then have "trim_end (concat ?P) = concat ?P" using chars[OF sub(3)] by (simp add: trim_end_def)
      moreover have "prefix (concat ?P) (concat ?E)" using 1 by (auto simp: prefix_def)
      ultimately show ?thesis using start(1) \<open>concat ?E = w\<close> by simp
    next
      case 2
      then have "\<forall>u \<in> set T'. is_whitespace u" using set_mono_prefix[OF 2(2)] by (auto dest: set_takeWhileD)
      then have "?ws (rev ?P) = ?ws (rev ?E)"
        using 2(1) dropWhile_append2[of "rev T'" is_whitespace "rev ?E"] by simp
      also have "\<dots> = rev ?E" using nows by (intro keep) blast
      finally have "trim_end (concat ?P) = concat ?E" using chars[OF sub(3)] by (simp add: trim_end_def)
      then show ?thesis using start(1) \<open>concat ?E = w\<close> by simp
    qed
  qed
qed

section \<open>The parser works by whole lines\<close>

lemma push_classified:
  assumes "trim_end (trim_start (without_newline line)) \<notin> (\<Union>s \<in> set ss. {tag_open s, tag_close s})"
  shows "classify_line ss act line = (act, text_segment act line)"
proof -
  have "match_open ss (trim_end (trim_start (without_newline line))) = None"
    "match_close ss (trim_end (trim_start (without_newline line))) = None"
    using assms by (auto simp: match_open_def match_close_def find_None_iff)
  then show ?thesis by (cases act) (simp_all add: classify_line_def Let_def)
qed

lemma parse_run_of_line:
  assumes "\<not> detect_tag p" "\<forall>u \<in> set us. u \<noteq> [newline]"
  shows "parse_chars p run segs (us @ [newline] # rest) =
      parse_chars (p\<lparr>detect_tag := True\<rparr>) [] (push_text (active_tag p) (run @ concat us @ [newline]) segs) rest"
    "parse_chars p run segs us = (p, push_text (active_tag p) (run @ concat us) segs)"
  using assms by (induction us arbitrary: run) (auto simp: push_text_eq)

text \<open>The first place where a line stops looking like a tag, if there is one.\<close>

lemma disproved_line:
  assumes "tag_words (tag_specs p)" "\<forall>u \<in> set (pre @ us). is_char u"
    "trim_start (concat pre) \<noteq> []" "\<not> is_tag_prefix (tag_specs p) (trim_start (concat pre))"
    "without_newline line = concat (pre @ us)"
  shows "classify_line (tag_specs p) act line = (act, text_segment act line)"
proof (rule push_classified)
  show "trim_end (trim_start (without_newline line)) \<notin> (\<Union>s \<in> set (tag_specs p). {tag_open s, tag_close s})"
  proof
    assume "trim_end (trim_start (without_newline line)) \<in> (\<Union>s \<in> set (tag_specs p). {tag_open s, tag_close s})"
    then obtain s where s: "s \<in> set (tag_specs p)"
      "trim_end (trim_start (concat (pre @ us))) \<in> {tag_open s, tag_close s}" using assms(5) by auto
    then have w: "tag_word (tag_open s)" "tag_word (tag_close s)" using assms(1) by (auto simp: tag_words_def list_all_iff)
    have "prefix (trim_end (trim_start (concat pre))) (tag_open s) \<or> prefix (trim_end (trim_start (concat pre))) (tag_close s)"
      using tag_line_prefix[OF assms(2) refl] w s(2) assms(3) by auto
    then show False using assms(4) s(1) by (auto simp: is_tag_prefix_def Let_def list_ex_iff)
  qed
qed

lemma parse_line:
  assumes "tag_words (tag_specs p)" "detect_tag p" "line_buffer p = concat pre"
    "\<forall>u \<in> set (pre @ us). is_char u" "\<forall>u \<in> set us. u \<noteq> [newline]"
    "classify_line (tag_specs p) (active_tag p) (concat (pre @ us) @ [newline]) = (act, seg)"
  shows "parse_chars p [] segs (us @ [newline] # rest) =
     parse_chars (p\<lparr>active_tag := act, line_buffer := [], detect_tag := True\<rparr>) [] (push_segment seg segs) rest"
  using assms
proof (induction us arbitrary: pre p)
  case Nil
  then show ?case by (simp add: finish_line_def)
next
  case (Cons u us)
  let ?b = "concat (pre @ [u])"
  have wn: "without_newline (concat (pre @ u # us) @ [newline]) = concat ((pre @ [u]) @ us)"
    by (simp add: without_newline_def strip_suffix_def suffix_def)
  show ?case
  proof (cases "trim_start ?b = [] \<or> is_tag_prefix (tag_specs p) (trim_start ?b)")
    case True
    then show ?thesis
      using Cons.IH[of "p\<lparr>line_buffer := ?b\<rparr>" "pre @ [u]"] Cons.prems by (simp add: Let_def)
  next
    case False
    have as_text: "act = active_tag p" "seg = text_segment act (concat (pre @ u # us) @ [newline])"
      using disproved_line[of p "pre @ [u]" us, OF Cons.prems(1) _ _ _ wn] False Cons.prems(4,6) by auto
    show ?thesis
      using False Cons.prems as_text parse_run_of_line(1)[of "p\<lparr>line_buffer := [], detect_tag := False\<rparr>" us "[]"]
      by (simp add: Let_def push_text_eq push_segment_text)
  qed
qed

lemma without_newline_id: "newline \<notin> set l \<Longrightarrow> without_newline l = l"
  by (auto simp: without_newline_def strip_suffix_def suffix_def)

lemma parse_last_line:
  assumes "tag_words (tag_specs p)" "detect_tag p" "line_buffer p = concat pre"
    "\<forall>u \<in> set (pre @ us). is_char u" "\<forall>u \<in> set (pre @ us). u \<noteq> [newline]" "concat (pre @ us) \<noteq> []"
    "classify_line (tag_specs p) (active_tag p) (concat (pre @ us)) = (act, seg)"
    "parse_chars p [] segs us = (p', segs')"
  shows "fold push_segment (snd (tagged_finish p')) segs' =
    fold push_segment (seg # (case act of Some tag \<Rightarrow> [TagEnd tag] | None \<Rightarrow> [])) segs"
  using assms
proof (induction us arbitrary: pre p)
  case Nil
  then have "p' = p" "segs' = segs" by auto
  have "fold push_segment (push_segment seg []) segs = push_segment seg segs"
    using fold_push_segment[of seg "[]" segs] by simp
  moreover have "line_buffer p \<noteq> []" using Nil by (simp only: append_Nil2) simp
  ultimately show ?case
    using Nil(7) Nil(3) \<open>p' = p\<close> \<open>segs' = segs\<close>
    by (simp add: tagged_finish_def del: concat_eq_Nil_conv split: option.split)
next
  case (Cons u us)
  let ?b = "concat (pre @ [u])"
  have "newline \<notin> set (concat (pre @ u # us))"
    using Cons.prems(4,5) is_char_newline by (simp only: set_concat) blast
  from without_newline_id[OF this]
  have wn: "without_newline (concat (pre @ u # us)) = concat ((pre @ [u]) @ us)" by simp
  show ?case
  proof (cases "trim_start ?b = [] \<or> is_tag_prefix (tag_specs p) (trim_start ?b)")
    case True
    then show ?thesis
      using Cons.IH[of "p\<lparr>line_buffer := ?b\<rparr>" "pre @ [u]"] Cons.prems by (simp add: Let_def)
  next
    case False
    have as_text: "act = active_tag p" "seg = text_segment act (concat (pre @ u # us))"
      using disproved_line[of p "pre @ [u]" us, OF Cons.prems(1) _ _ _ wn] False Cons.prems(4,7) by auto
    have "p' = p\<lparr>line_buffer := [], detect_tag := False\<rparr>" "segs' = push_segment seg segs"
      using False Cons.prems as_text parse_run_of_line(2)[of "p\<lparr>line_buffer := [], detect_tag := False\<rparr>" us "[]"]
      by (auto simp: Let_def push_text_eq push_segment_text)
    then show ?thesis using as_text(1) by (simp add: tagged_finish_def split: option.split)
  qed
qed

lemma split_lines_cases:
  "(\<forall>u \<in> set us. u \<noteq> [newline]) \<and> split_lines us = (if us = [] then [] else [us]) \<or>
   (\<exists>l rest. us = l @ [newline] # rest \<and> (\<forall>u \<in> set l. u \<noteq> [newline]) \<and>
      split_lines us = (l @ [[newline]]) # split_lines rest)"
proof (induction us)
  case (Cons u us)
  show ?case
  proof (cases "u = [newline]")
    case True
    then show ?thesis by (intro disjI2 exI[of _ "[]"] exI[of _ us]) simp
  next
    case False
    from Cons.IH show ?thesis
    proof (elim disjE exE conjE)
      fix l rest
      assume "us = l @ [newline] # rest" "\<forall>u \<in> set l. u \<noteq> [newline]" "split_lines us = (l @ [[newline]]) # split_lines rest"
      then show ?thesis using False by (intro disjI2 exI[of _ "u # l"] exI[of _ rest]) simp
    qed (use False in \<open>auto split: if_splits\<close>)
  qed
qed simp

lemma parse_lines_reference:
  assumes "tag_words (tag_specs p)" "detect_tag p" "line_buffer p = []" "\<forall>u \<in> set us. is_char u"
    "classify_lines (tag_specs p) (active_tag p) (map concat (split_lines us)) = (act, ys)"
    "parse_chars p [] segs us = (p', segs')"
  shows "fold push_segment (snd (tagged_finish p')) segs' =
    fold push_segment (ys @ (case act of Some tag \<Rightarrow> [TagEnd tag] | None \<Rightarrow> [])) segs"
  using assms
proof (induction us arbitrary: p segs ys rule: length_induct)
  case (1 us)
  from split_lines_cases[of us] show ?case
  proof (elim disjE exE conjE)
    assume no: "\<forall>u \<in> set us. u \<noteq> [newline]" and sl: "split_lines us = (if us = [] then [] else [us])"
    show ?thesis
    proof (cases "us = []")
      case True
      then show ?thesis using 1(2-) by (simp add: tagged_finish_def split: option.split)
    next
      case False
      then have ne: "concat us \<noteq> []"
        using 1(5) by (cases us) (auto simp: is_char_def)
      obtain seg where "classify_line (tag_specs p) (active_tag p) (concat us) = (act, seg)" "ys = [seg]"
        using 1(6) sl False by (auto split: prod.splits)
      then show ?thesis
        using parse_last_line[of p "[]" us, OF 1(2,3) _ _ _ _ _ 1(7)] 1(4,5) no ne by simp
    qed
  next
    fix l rest
    assume us: "us = l @ [newline] # rest" and no: "\<forall>u \<in> set l. u \<noteq> [newline]"
      and sl: "split_lines us = (l @ [[newline]]) # split_lines rest"
    obtain act1 seg where c: "classify_line (tag_specs p) (active_tag p) (concat l @ [newline]) = (act1, seg)" by fastforce
    then obtain zs where zs: "classify_lines (tag_specs p) act1 (map concat (split_lines rest)) = (act, zs)" "ys = seg # zs"
      using 1(6) sl by (auto split: prod.splits)
    have step: "parse_chars p [] segs us =
        parse_chars (p\<lparr>active_tag := act1, line_buffer := [], detect_tag := True\<rparr>) [] (push_segment seg segs) rest"
      unfolding us using parse_line[of p "[]" l act1 seg segs rest] 1(2,3,4,5) c no us by simp
    show ?thesis
      using 1(1)[rule_format, of rest "p\<lparr>active_tag := act1, line_buffer := [], detect_tag := True\<rparr>" zs "push_segment seg segs"]
        1(2,3,5,7) us zs step by simp
  qed
qed

lemma tagged_parse_lines:
  assumes "tag_words ss" "utf8_valid text" "tagged_parse (new_tagged_line_parser ss) text = (p, segs)"
  shows "merge_segments (segs @ snd (tagged_finish p)) = tagged_reference ss text"
proof -
  obtain act ys where c: "classify_lines ss None (map concat (split_lines (utf8_chars text))) = (act, ys)" by fastforce
  have "fold push_segment (snd (tagged_finish p)) segs = tagged_reference ss text"
    using parse_lines_reference[of "new_tagged_line_parser ss" "utf8_chars text" act ys "[]" p segs] assms c
      utf8_valid_chars[OF assms(2)]
    by (simp add: new_tagged_line_parser_def tagged_parse_def tagged_reference_def merge_segments_def)
  moreover have "segs = merge_segments segs"
    using parse_chars_acc[of _ "[]" "[]" "utf8_chars text" p segs "[]"] assms(3)
    by (simp add: tagged_parse_def merge_segments_def)
  ultimately show ?thesis by (simp add: merge_segments_def)
qed

text \<open>
  C31. The buffering of lines that may be tags is invisible: parsing a text and finishing gives,
  after merging neighbours, the segments that classifying whole lines gives, for any tags that
  are words of ASCII text.
\<close>

theorem tagged_parse_by_lines:
  assumes "tag_words ss" "utf8_valid text" "tagged_parse (new_tagged_line_parser ss) text = (p, segs)"
  shows "merge_segments (segs @ snd (tagged_finish p)) = tagged_reference ss text"
  by (rule tagged_parse_lines[OF assms])

theorem tagged_parse_by_lines_witness:
  "\<exists>p segs. tagged_parse (new_tagged_line_parser [\<lparr>tag_open = ''<t>'', tag_close = ''</t>'', tag_of = ()\<rparr>])
       (''a'' @ [newline] @ '' <t> '' @ [newline] @ ''<x'' @ [newline] @ ''</t>'') = (p, segs) \<and>
     merge_segments (segs @ snd (tagged_finish p)) =
       tagged_reference [\<lparr>tag_open = ''<t>'', tag_close = ''</t>'', tag_of = ()\<rparr>]
         (''a'' @ [newline] @ '' <t> '' @ [newline] @ ''<x'' @ [newline] @ ''</t>'')"
proof -
  let ?ss = "[\<lparr>tag_open = ''<t>'', tag_close = ''</t>'', tag_of = ()\<rparr>]"
  let ?text = "''a'' @ [newline] @ '' <t> '' @ [newline] @ ''<x'' @ [newline] @ ''</t>''"
  have 1: "tag_words ?ss" by code_simp
  have 2: "utf8_valid ?text" by code_simp
  obtain p segs where 3: "tagged_parse (new_tagged_line_parser ?ss) ?text = (p, segs)" by fastforce
  from tagged_parse_by_lines[OF 1 2 3] 3 show ?thesis by blast
qed

section \<open>Valid text\<close>

fun segment_valid :: "'t tagged_line_segment \<Rightarrow> bool" where
  "segment_valid (NormalText t) = utf8_valid t"
| "segment_valid (TagDelta _ t) = utf8_valid t"
| "segment_valid _ = True"

lemma push_segment_valid:
  assumes "list_all segment_valid ys" "segment_valid x"
  shows "list_all segment_valid (push_segment x ys)"
proof (rule push_segment_shape[of x ys])
  fix act t d zs
  assume "ys = zs @ [text_segment act t]" "x = text_segment act d" "push_segment x ys = zs @ [text_segment act (t @ d)]"
  then show ?thesis using assms by (cases act) (auto simp: utf8_valid_append)
qed (use assms in auto)

lemma text_segment_valid [simp]: "segment_valid (text_segment act t) \<longleftrightarrow> utf8_valid t"
  by (cases act) simp_all

lemma classify_line_valid: "utf8_valid line \<Longrightarrow> segment_valid (snd (classify_line ss act line))"
  by (auto simp: classify_line_def Let_def split: option.split)

lemma parse_chars_valid:
  "utf8_valid (line_buffer p) \<Longrightarrow> utf8_valid run \<Longrightarrow> list_all segment_valid segs \<Longrightarrow> list_all utf8_valid chs \<Longrightarrow>
     parse_chars p run segs chs = (p', segs') \<Longrightarrow> utf8_valid (line_buffer p') \<and> list_all segment_valid segs'"
proof (induction p run segs chs rule: parse_chars.induct)
  case (1 p run segs)
  then show ?case by (auto simp: push_text_eq push_segment_valid)
next
  case (2 p run segs ch chs)
  have "segment_valid (snd (classify_line (tag_specs p) (active_tag p) (line_buffer p @ ch)))"
    using 2 by (intro classify_line_valid) (simp add: utf8_valid_append)
  with 2 show ?case
    by (auto simp: Let_def finish_line_def push_text_eq push_segment_valid utf8_valid_append split: if_splits prod.splits)
qed

lemma tagged_parse_valid:
  "utf8_valid (line_buffer p) \<Longrightarrow> utf8_valid a \<Longrightarrow> tagged_parse p a = (p', segs) \<Longrightarrow>
     utf8_valid (line_buffer p') \<and> list_all segment_valid segs"
  using parse_chars_valid[of p "[]" "[]" "utf8_chars a" p' segs] utf8_valid_chars[of a]
  by (auto simp: tagged_parse_def list_all_iff is_char_def)

end
