(* ===== verification/Proposed_Plan.thy ===== *)
theory Proposed_Plan
  imports Tagged_Lines
begin

text \<open>
  \<open>utils/stream-parser/src/proposed_plan.rs\<close>: plan blocks are removed from the visible text and
  reported as segments. The parser is an instance of the interface \<open>stream_parser\<close>; its segments
  are compared after merging neighbours, because a segment may arrive in several parts.
\<close>

section \<open>\<open>ProposedPlanParser\<close>\<close>

datatype plan_tag = PlanTag

definition plan_open :: rust_str where "plan_open = ''<proposed_plan>''"
definition plan_close :: rust_str where "plan_close = ''</proposed_plan>''"

definition plan_spec :: "plan_tag tag_spec" where
  "plan_spec = \<lparr>tag_open = plan_open, tag_close = plan_close, tag_of = PlanTag\<rparr>"

datatype proposed_plan_segment =
  PlanNormal rust_str | ProposedPlanStart | ProposedPlanDelta rust_str | ProposedPlanEnd

type_synonym plan_parser = "plan_tag tagged_line_parser"

definition new_plan_parser :: plan_parser where
  "new_plan_parser = new_tagged_line_parser [plan_spec]"

fun plan_segment :: "plan_tag tagged_line_segment \<Rightarrow> proposed_plan_segment" where
  "plan_segment (NormalText t) = PlanNormal t"
| "plan_segment (TagStart PlanTag) = ProposedPlanStart"
| "plan_segment (TagDelta PlanTag t) = ProposedPlanDelta t"
| "plan_segment (TagEnd PlanTag) = ProposedPlanEnd"

fun normal_text :: "proposed_plan_segment \<Rightarrow> rust_str" where
  "normal_text (PlanNormal t) = t"
| "normal_text _ = []"

definition map_segments :: "plan_tag tagged_line_segment list \<Rightarrow> proposed_plan_segment stream_text_chunk" where
  "map_segments segs =
     fold (\<lambda>seg out. case plan_segment seg of mapped \<Rightarrow>
             \<lparr>visible_text = visible_text out @ normal_text mapped, extracted = extracted out @ [mapped]\<rparr>)
       segs empty_chunk"

definition plan_push :: "plan_parser \<Rightarrow> rust_str \<Rightarrow> proposed_plan_segment stream_text_chunk \<times> plan_parser" where
  "plan_push p chunk = (case tagged_parse p chunk of (p', segs) \<Rightarrow> (map_segments segs, p'))"

definition plan_finish :: "plan_parser \<Rightarrow> proposed_plan_segment stream_text_chunk \<times> plan_parser" where
  "plan_finish p = (case tagged_finish p of (p', segs) \<Rightarrow> (map_segments segs, p'))"

definition strip_proposed_plan_blocks :: "rust_str \<Rightarrow> rust_str" where
  "strip_proposed_plan_blocks text =
     (case plan_push new_plan_parser text of (out, p) \<Rightarrow> visible_text out @ visible_text (fst (plan_finish p)))"

fun extract_step :: "proposed_plan_segment \<Rightarrow> bool \<times> rust_str \<Rightarrow> bool \<times> rust_str" where
  "extract_step ProposedPlanStart (saw, plan_text) = (True, [])"
| "extract_step (ProposedPlanDelta delta) (saw, plan_text) = (saw, plan_text @ delta)"
| "extract_step _ (saw, plan_text) = (saw, plan_text)"

definition extract_proposed_plan_text :: "rust_str \<Rightarrow> rust_str option" where
  "extract_proposed_plan_text text =
     (case plan_push new_plan_parser text of (out, p) \<Rightarrow>
      case fold extract_step (extracted out @ extracted (fst (plan_finish p))) (False, []) of
        (saw_plan_block, plan_text) \<Rightarrow> if saw_plan_block then Some plan_text else None)"

section \<open>Merging plan segments\<close>

fun tagged_segment :: "proposed_plan_segment \<Rightarrow> plan_tag tagged_line_segment" where
  "tagged_segment (PlanNormal t) = NormalText t"
| "tagged_segment ProposedPlanStart = TagStart PlanTag"
| "tagged_segment (ProposedPlanDelta t) = TagDelta PlanTag t"
| "tagged_segment ProposedPlanEnd = TagEnd PlanTag"

lemma plan_segment_inverse [simp]: "tagged_segment (plan_segment s) = s" "plan_segment (tagged_segment q) = q"
  by (cases s rule: plan_segment.cases; simp) (cases q; simp)

definition merge_plan :: "proposed_plan_segment list \<Rightarrow> proposed_plan_segment list" where
  "merge_plan qs = map plan_segment (merge_segments (map tagged_segment qs))"

lemma map_segments_eq:
  "map_segments segs = \<lparr>visible_text = concat (map (normal_text \<circ> plan_segment) segs), extracted = map plan_segment segs\<rparr>"
proof -
  have "fold (\<lambda>seg out. case plan_segment seg of mapped \<Rightarrow>
             \<lparr>visible_text = visible_text out @ normal_text mapped, extracted = extracted out @ [mapped]\<rparr>) segs c
      = \<lparr>visible_text = visible_text c @ concat (map (normal_text \<circ> plan_segment) segs),
         extracted = extracted c @ map plan_segment segs\<rparr>" for c
    by (induction segs arbitrary: c) simp_all
  then show ?thesis by (simp add: map_segments_def empty_chunk_def)
qed

text \<open>What the clients compute from the segments does not see where they are cut.\<close>

lemma visible_push_segment:
  "concat (map (normal_text \<circ> plan_segment) (push_segment x ys)) =
     concat (map (normal_text \<circ> plan_segment) ys) @ normal_text (plan_segment x)"
proof -
  have n: "normal_text (plan_segment (text_segment act (t @ d))) =
      normal_text (plan_segment (text_segment act t)) @ normal_text (plan_segment (text_segment act d))"
    "normal_text (plan_segment (text_segment act [])) = []" for act t d
    by (cases act; cases "the act"; simp)+
  show ?thesis by (rule push_segment_shape[of x ys]) (auto simp: n)
qed

lemma visible_fold_push:
  "concat (map (normal_text \<circ> plan_segment) (fold push_segment xs ys)) =
     concat (map (normal_text \<circ> plan_segment) (ys @ xs))"
  by (induction xs arbitrary: ys) (simp_all add: visible_push_segment)

lemma extract_push_segment:
  "fold extract_step (map plan_segment (push_segment x ys)) s = extract_step (plan_segment x) (fold extract_step (map plan_segment ys) s)"
proof -
  have n: "extract_step (plan_segment (text_segment act (t @ d))) z =
      extract_step (plan_segment (text_segment act d)) (extract_step (plan_segment (text_segment act t)) z)"
    "extract_step (plan_segment (text_segment act [])) z = z" for act t d z
    by (cases act; cases "the act"; cases z; simp)+
  show ?thesis by (rule push_segment_shape[of x ys]) (auto simp: n)
qed

lemma extract_fold_push:
  "fold extract_step (map plan_segment (fold push_segment xs ys)) s = fold extract_step (map plan_segment (ys @ xs)) s"
  by (induction xs arbitrary: ys) (simp_all add: extract_push_segment)

section \<open>Chunks do not matter\<close>

definition plan_inv :: "plan_parser \<Rightarrow> bool" where
  "plan_inv p \<longleftrightarrow> utf8_valid (line_buffer p)"

interpretation plan: stream_parser plan_push plan_inv merge_plan
proof
  fix s a assume s: "plan_inv s" "utf8_valid a"
  obtain p segs where p: "tagged_parse s a = (p, segs)" by fastforce
  from tagged_parse_valid[OF _ s(2) p] s(1) have v: "utf8_valid (line_buffer p)" "list_all segment_valid segs"
    by (simp_all add: plan_inv_def)
  have t: "utf8_valid (normal_text (plan_segment x))" if "segment_valid x" for x
    using that by (cases x rule: plan_segment.cases) auto
  show "plan_inv (snd (plan_push s a))" using v p by (simp add: plan_push_def plan_inv_def)
  show "utf8_valid (visible_text (fst (plan_push s a)))"
    using v(2) p t by (auto simp: plan_push_def map_segments_eq list_all_iff intro!: utf8_valid_concat)
next
  fix s a b o1 o2 s1 s2
  assume "utf8_valid a" "plan_push s a = (o1, s1)" "plan_push s1 b = (o2, s2)"
  then obtain x y where xy: "tagged_parse s a = (s1, x)" "o1 = map_segments x"
      "tagged_parse s1 b = (s2, y)" "o2 = map_segments y"
    by (auto simp: plan_push_def split: prod.splits)
  have ab: "tagged_parse s (a @ b) = (s2, fold push_segment y x)"
    by (rule tagged_parse_append[OF utf8_valid_closed xy(1,3)]) fact
  have "merge_plan (map plan_segment (fold push_segment y x)) = merge_plan (map plan_segment (x @ y))"
    by (simp add: merge_plan_def comp_def merge_segments_append(3))
  then show "\<exists>out. plan_push s (a @ b) = (out, s2) \<and> visible_text out = visible_text o1 @ visible_text o2 \<and>
      merge_plan (extracted out) = merge_plan (extracted o1 @ extracted o2)"
    using ab xy visible_fold_push[of y x] by (simp add: plan_push_def map_segments_eq)
next
  fix xs ys
  show "merge_plan (merge_plan xs @ ys) = merge_plan (xs @ ys)" "merge_plan (xs @ merge_plan ys) = merge_plan (xs @ ys)"
    using merge_segments_append(1,2)[of "map tagged_segment xs" "map tagged_segment ys"]
    by (simp_all add: merge_plan_def comp_def)
qed (simp add: plan_push_def tagged_parse_def map_segments_eq empty_chunk_def)

lemma new_plan_inv: "plan_inv new_plan_parser"
  by (simp add: plan_inv_def new_plan_parser_def new_tagged_line_parser_def)

lemma extract_merge_plan: "fold extract_step (merge_plan qs) s = fold extract_step qs s"
  using extract_fold_push[of "map tagged_segment qs" "[]" s] by (simp add: merge_plan_def merge_segments_def comp_def)

lemma merge_plan_cong: "merge_plan xs = merge_plan xs' \<Longrightarrow> merge_plan (xs @ ys) = merge_plan (xs' @ ys)"
  by (metis plan.norm_left)

text \<open>However the message is cut, streaming it gives the visible text and the plan of the whole.\<close>

lemma plan_streamed:
  assumes "list_all utf8_valid cs" "collect_chunks plan_push plan_finish new_plan_parser cs = out"
  shows "visible_text out = strip_proposed_plan_blocks (concat cs) \<and>
    extract_proposed_plan_text (concat cs) =
      (case fold extract_step (extracted out) (False, []) of (saw, t) \<Rightarrow> if saw then Some t else None)"
proof (rule conjI)
  obtain w p where whole: "plan_push new_plan_parser (concat cs) = (w, p)" by fastforce
  obtain w' where w': "push_all plan_push new_plan_parser cs = (w', p)"
    "visible_text w' = visible_text w" "merge_plan (extracted w') = merge_plan (extracted w)"
    using plan.push_all_concat[OF new_plan_inv assms(1) whole] by auto
  show "visible_text out = strip_proposed_plan_blocks (concat cs)"
    using assms(2) whole w' by (auto simp: collect_chunks_def strip_proposed_plan_blocks_def)
  have "fold extract_step (extracted w') s = fold extract_step (extracted w) s" for s
    by (metis extract_merge_plan w'(3))
  then show "extract_proposed_plan_text (concat cs) =
      (case fold extract_step (extracted out) (False, []) of (saw, t) \<Rightarrow> if saw then Some t else None)"
    using assms(2) whole w'(1) by (auto simp: collect_chunks_def extract_proposed_plan_text_def)
qed


section \<open>Plan blocks in a message\<close>

definition text_of_lines :: "rust_str list \<Rightarrow> rust_str" where
  "text_of_lines ls = concat (map (\<lambda>l. l @ [newline]) ls)"

definition ordinary_line :: "rust_str \<Rightarrow> bool" where
  "ordinary_line l \<longleftrightarrow> utf8_valid l \<and> newline \<notin> set l \<and> trim l \<noteq> plan_open \<and> trim l \<noteq> plan_close"

lemma split_lines_line:
  "\<forall>u \<in> set us. u \<noteq> [newline] \<Longrightarrow> split_lines (us @ [newline] # rest) = (us @ [[newline]]) # split_lines rest"
  by (induction us) auto

lemma utf8_chars_newline: "utf8_chars (newline # s) = [newline] # utf8_chars s"
  by (simp add: utf8_len_def)

lemma split_text_of_lines:
  "\<forall>l \<in> set ls. utf8_valid l \<and> newline \<notin> set l \<Longrightarrow>
     utf8_valid (text_of_lines ls) \<and> map concat (split_lines (utf8_chars (text_of_lines ls))) = map (\<lambda>l. l @ [newline]) ls"
proof (induction ls)
  case (Cons l ls)
  have "utf8_chars (text_of_lines (l # ls)) = utf8_chars l @ [newline] # utf8_chars (text_of_lines ls)"
    using Cons.prems by (simp add: text_of_lines_def utf8_valid_chars_append utf8_chars_newline del: utf8_chars.simps(2))
  moreover have "u \<noteq> [newline]" if "u \<in> set (utf8_chars l)" for u
    using that Cons.prems concat_utf8_chars[of l] by (metis list.set_intros(1) set_concat UN_I)
  moreover have "utf8_valid [newline]" by (simp add: utf8_valid_ascii)
  ultimately show ?case
    using Cons split_lines_line[of "utf8_chars l" "utf8_chars (text_of_lines ls)"]
    by (auto simp: text_of_lines_def utf8_valid_append utf8_valid_append[of "[newline]", simplified])
qed (simp add: text_of_lines_def)

lemma classify_lines_append:
  "classify_lines ss act (xs @ ys) =
     (case classify_lines ss act xs of (act', s1) \<Rightarrow> case classify_lines ss act' ys of (act'', s2) \<Rightarrow> (act'', s1 @ s2))"
  by (induction xs arbitrary: act) (auto split: prod.split)

lemma without_newline_snoc [simp]: "without_newline (l @ [newline]) = l"
  by (simp add: without_newline_def strip_suffix_def suffix_def)

lemma classify_ordinary:
  "ordinary_line l \<Longrightarrow> classify_line [plan_spec] act (l @ [newline]) = (act, text_segment act (l @ [newline]))"
  by (rule push_classified) (auto simp: ordinary_line_def trim_def plan_spec_def)

lemma classify_ordinary_lines:
  "\<forall>l \<in> set ls. ordinary_line l \<Longrightarrow>
     classify_lines [plan_spec] act (map (\<lambda>l. l @ [newline]) ls) = (act, map (\<lambda>l. text_segment act (l @ [newline])) ls)"
  by (induction ls) (auto simp: classify_ordinary)

lemma classify_tags:
  "classify_line [plan_spec] None (plan_open @ [newline]) = (Some PlanTag, TagStart PlanTag)"
  "classify_line [plan_spec] (Some PlanTag) (plan_close @ [newline]) = (None, TagEnd PlanTag)"
  by code_simp+

lemma plan_words: "tag_words [plan_spec]" "utf8_valid plan_open" "utf8_valid plan_close"
  "newline \<notin> set plan_open" "newline \<notin> set plan_close"
  by code_simp+

text \<open>What the clients compute, from the reference segmentation.\<close>

lemma plan_text_by_lines:
  assumes "utf8_valid text" "tagged_reference [plan_spec] text = merge_segments ys"
  shows "strip_proposed_plan_blocks text = concat (map (normal_text \<circ> plan_segment) ys)"
    "extract_proposed_plan_text text =
      (case fold extract_step (map plan_segment ys) (False, []) of (saw, t) \<Rightarrow> if saw then Some t else None)"
proof -
  obtain p segs where p: "tagged_parse new_plan_parser text = (p, segs)" by fastforce
  let ?all = "segs @ snd (tagged_finish p)"
  have eq: "merge_segments ?all = merge_segments ys"
    using tagged_parse_lines[OF plan_words(1) assms(1)] p assms(2) by (simp add: new_plan_parser_def)
  have "concat (map (normal_text \<circ> plan_segment) ?all) = concat (map (normal_text \<circ> plan_segment) ys)"
    using visible_fold_push[of ?all "[]"] visible_fold_push[of ys "[]"] eq by (simp add: merge_segments_def)
  then show "strip_proposed_plan_blocks text = concat (map (normal_text \<circ> plan_segment) ys)"
    using p by (simp add: strip_proposed_plan_blocks_def plan_push_def plan_finish_def map_segments_eq case_prod_unfold)
  have "fold extract_step (map plan_segment ?all) (False, []) = fold extract_step (map plan_segment ys) (False, [])"
    using extract_fold_push[of ?all "[]"] extract_fold_push[of ys "[]"] eq by (simp add: merge_segments_def)
  then show "extract_proposed_plan_text text =
      (case fold extract_step (map plan_segment ys) (False, []) of (saw, t) \<Rightarrow> if saw then Some t else None)"
    using p by (simp add: extract_proposed_plan_text_def plan_push_def plan_finish_def map_segments_eq case_prod_unfold)
qed

lemma segments_of_ordinary_lines:
  "concat (map (\<lambda>l. normal_text (PlanNormal (l @ [newline]))) ls) = text_of_lines ls"
  "concat (map (\<lambda>l. normal_text (ProposedPlanDelta (l @ [newline]))) ls) = []"
  "fold extract_step (map (\<lambda>l. PlanNormal (l @ [newline])) ls) s = s"
  "fold extract_step (map (\<lambda>l. ProposedPlanDelta (l @ [newline])) ls) s = (fst s, snd s @ text_of_lines ls)"
  by (induction ls arbitrary: s; case_tac s; simp add: text_of_lines_def)+

text \<open>
  A plan block between ordinary lines: the visible text is the text around the block, and the
  extracted plan is exactly the lines of the block, blanks included.
\<close>

theorem plan_block_roundtrip:
  assumes "\<forall>l \<in> set (pre @ body @ post). ordinary_line l"
    and "text = text_of_lines (pre @ plan_open # body @ plan_close # post)"
  shows "strip_proposed_plan_blocks text = text_of_lines (pre @ post) \<and>
    extract_proposed_plan_text text = Some (text_of_lines body)"
proof -
  let ?ys = "map (\<lambda>l. text_segment None (l @ [newline])) pre @ TagStart PlanTag #
    map (\<lambda>l. text_segment (Some PlanTag) (l @ [newline])) body @ TagEnd PlanTag #
    map (\<lambda>l. text_segment None (l @ [newline])) post"
  have lines: "\<forall>l \<in> set (pre @ plan_open # body @ plan_close # post). utf8_valid l \<and> newline \<notin> set l"
    using assms(1) plan_words by (auto simp: ordinary_line_def)
  note split = split_text_of_lines[OF lines, folded assms(2)]
  have ord: "\<forall>l \<in> set pre. ordinary_line l" "\<forall>l \<in> set body. ordinary_line l" "\<forall>l \<in> set post. ordinary_line l"
    using assms(1) by auto
  have "classify_lines [plan_spec] None (map concat (split_lines (utf8_chars text))) = (None, ?ys)"
    unfolding split[THEN conjunct2]
    by (simp add: classify_lines_append classify_ordinary_lines[OF ord(1)] classify_ordinary_lines[OF ord(2)]
        classify_ordinary_lines[OF ord(3)] classify_tags)
  then have "tagged_reference [plan_spec] text = merge_segments ?ys" by (simp add: tagged_reference_def)
  note by_lines = plan_text_by_lines[OF split[THEN conjunct1] this]
  show ?thesis
    unfolding by_lines by (simp add: segments_of_ordinary_lines comp_def text_of_lines_def)
qed

theorem plan_block_roundtrip_witness:
  "strip_proposed_plan_blocks (text_of_lines ([''Intro''] @ plan_open # ['' - step''] @ plan_close # [''Outro'']))
     = text_of_lines ([''Intro''] @ [''Outro'']) \<and>
   extract_proposed_plan_text (text_of_lines ([''Intro''] @ plan_open # ['' - step''] @ plan_close # [''Outro'']))
     = Some (text_of_lines ['' - step''])"
  by (rule plan_block_roundtrip[OF _ refl]) code_simp

end
