(* ===== verification/Assistant_Text.thy ===== *)
theory Assistant_Text
  imports Citation Proposed_Plan
begin

text \<open>
  \<open>utils/stream-parser/src/assistant_text.rs\<close>: the parser of streamed assistant messages. Citations
  are removed first; in plan mode what is left goes through the plan parser.
\<close>

section \<open>\<open>AssistantTextStreamParser\<close>\<close>

record assistant_text_chunk =
  shown_text :: rust_str
  citations :: "rust_str list"
  plan_segments :: "proposed_plan_segment list"

definition empty_assistant_chunk :: assistant_text_chunk where
  "empty_assistant_chunk = \<lparr>shown_text = [], citations = [], plan_segments = []\<rparr>"

definition assistant_chunk_is_empty :: "assistant_text_chunk \<Rightarrow> bool" where
  "assistant_chunk_is_empty c \<longleftrightarrow> shown_text c = [] \<and> citations c = [] \<and> plan_segments c = []"

record assistant_text_parser =
  plan_mode :: bool
  citation_parser :: citation_parser
  plan_parser :: plan_parser

definition new_assistant_parser :: "bool \<Rightarrow> assistant_text_parser" where
  "new_assistant_parser pm =
     \<lparr>plan_mode = pm, citation_parser = new_citation_parser, plan_parser = new_plan_parser\<rparr>"

definition parse_visible_text :: "assistant_text_parser \<Rightarrow> rust_str \<Rightarrow> assistant_text_chunk \<times> assistant_text_parser" where
  "parse_visible_text s text =
     (if \<not> plan_mode s then (empty_assistant_chunk\<lparr>shown_text := text\<rparr>, s)
      else case plan_push (plan_parser s) text of
             (c, p) \<Rightarrow> (empty_assistant_chunk\<lparr>shown_text := visible_text c, plan_segments := extracted c\<rparr>,
                       s\<lparr>plan_parser := p\<rparr>))"

definition assistant_push :: "assistant_text_parser \<Rightarrow> rust_str \<Rightarrow> assistant_text_chunk \<times> assistant_text_parser" where
  "assistant_push s chunk =
     (case citation_push (citation_parser s) chunk of (c, cp) \<Rightarrow>
      case parse_visible_text (s\<lparr>citation_parser := cp\<rparr>) (visible_text c) of
        (out, s') \<Rightarrow> (out\<lparr>citations := extracted c\<rparr>, s'))"

definition assistant_finish :: "assistant_text_parser \<Rightarrow> assistant_text_chunk \<times> assistant_text_parser" where
  "assistant_finish s =
     (case citation_finish (citation_parser s) of (c, cp) \<Rightarrow>
      case parse_visible_text (s\<lparr>citation_parser := cp\<rparr>) (visible_text c) of
        (out, s') \<Rightarrow>
          (case (if plan_mode s' then
                   (case plan_finish (plan_parser s') of (tail, p) \<Rightarrow>
                      (if chunk_is_empty_out tail then out
                       else out\<lparr>shown_text := shown_text out @ visible_text tail,
                               plan_segments := plan_segments out @ extracted tail\<rparr>,
                       s'\<lparr>plan_parser := p\<rparr>))
                 else (out, s')) of
             (out', s'') \<Rightarrow> (out'\<lparr>citations := extracted c\<rparr>, s'')))"

section \<open>Streaming a whole message\<close>

definition assistant_append :: "assistant_text_chunk \<Rightarrow> assistant_text_chunk \<Rightarrow> assistant_text_chunk" where
  "assistant_append a b =
     \<lparr>shown_text = shown_text a @ shown_text b, citations = citations a @ citations b,
      plan_segments = plan_segments a @ plan_segments b\<rparr>"

fun assistant_collect :: "assistant_text_parser \<Rightarrow> rust_str list \<Rightarrow> assistant_text_chunk" where
  "assistant_collect s [] = fst (assistant_finish s)"
| "assistant_collect s (c # cs) = (case assistant_push s c of (out, s') \<Rightarrow> assistant_append out (assistant_collect s' cs))"

text \<open>
  The message as seen by the two inner parsers: the chunks of visible text that the plan parser
  receives are the visible chunks of the citation parser.
\<close>

fun citation_visible_chunks :: "citation_parser \<Rightarrow> rust_str list \<Rightarrow> rust_str list" where
  "citation_visible_chunks p [] = [visible_text (fst (citation_finish p))]"
| "citation_visible_chunks p (c # cs) =
     (case citation_push p c of (out, p') \<Rightarrow> visible_text out # citation_visible_chunks p' cs)"

lemma concat_citation_visible_chunks:
  "concat (citation_visible_chunks p cs) = visible_text (collect_chunks citation_push citation_finish p cs)"
  by (induction cs arbitrary: p) (simp_all add: collect_chunks_simps split: prod.splits)

lemma citation_visible_chunks_valid:
  "settled citation_spec p \<Longrightarrow> list_all utf8_valid cs \<Longrightarrow> list_all utf8_valid (citation_visible_chunks p cs)"
proof (induction cs arbitrary: p)
  case Nil
  then have "utf8_valid (pending p)" by (simp add: settled_def utf8_valid_ascii)
  then show ?case by (simp add: citation_finish_def inline_finish_def split: option.split)
next
  case (Cons c cs)
  then show ?case
    using citation.push_inv[of p c] citation.push_visible[of p c] by (auto split: prod.splits)
qed

lemma assistant_collect_parts:
  "assistant_collect s cs =
     \<lparr>shown_text = (if plan_mode s
        then visible_text (collect_chunks plan_push plan_finish (plan_parser s) (citation_visible_chunks (citation_parser s) cs))
        else concat (citation_visible_chunks (citation_parser s) cs)),
      citations = extracted (collect_chunks citation_push citation_finish (citation_parser s) cs),
      plan_segments = (if plan_mode s
        then extracted (collect_chunks plan_push plan_finish (plan_parser s) (citation_visible_chunks (citation_parser s) cs))
        else [])\<rparr>"
proof (induction cs arbitrary: s)
  case Nil
  show ?case
    by (auto simp: assistant_finish_def parse_visible_text_def collect_chunks_def empty_assistant_chunk_def
        chunk_is_empty_out_def split: prod.splits)
next
  case (Cons c cs)
  then show ?case
    by (auto simp: assistant_push_def parse_visible_text_def collect_chunks_def empty_assistant_chunk_def
        assistant_append_def split: prod.splits)
qed

text \<open>
  C15. However an assistant message is cut into chunks, the streamed result is the composition of
  the two whole-text functions: the citations are those of \<open>strip_citations\<close>, the text shown is
  what \<open>strip_citations\<close> leaves, in plan mode with the plan blocks removed, and the plan
  segments contain the plan that \<open>extract_proposed_plan_text\<close> finds in that text.
\<close>

theorem assistant_text_chunking:
  assumes "list_all utf8_valid cs" "strip_citations (concat cs) = (vis, cits)"
    "assistant_collect (new_assistant_parser pm) cs = out"
  shows "citations out = cits \<and>
    shown_text out = (if pm then strip_proposed_plan_blocks vis else vis) \<and>
    (pm \<longrightarrow> extract_proposed_plan_text vis =
      (case fold extract_step (plan_segments out) (False, []) of (saw, t) \<Rightarrow> if saw then Some t else None))"
proof -
  let ?vs = "citation_visible_chunks new_citation_parser cs"
  have c: "collect_chunks citation_push citation_finish new_citation_parser cs = \<lparr>visible_text = vis, extracted = cits\<rparr>"
    by (rule citation_streamed[OF assms(1,2)])
  have vs: "concat ?vs = vis" using concat_citation_visible_chunks[of new_citation_parser cs] c by simp
  have "list_all utf8_valid ?vs" by (rule citation_visible_chunks_valid[OF new_citation_settled assms(1)])
  from plan_streamed[OF this refl] show ?thesis
    using assms(3) c vs assistant_collect_parts[of "new_assistant_parser pm" cs]
    by (auto simp: new_assistant_parser_def)
qed

theorem assistant_text_chunking_witness:
  "let out = assistant_collect (new_assistant_parser True)
        [''a<oai-mem-citation>x</oai-mem-ci'', ''tation>'' @ [newline] @ ''<proposed_plan>'' @ [newline] @ ''b'']
   in citations out = [''x''] \<and> shown_text out = strip_proposed_plan_blocks (''a'' @ [newline] @ ''<proposed_plan>'' @ [newline] @ ''b'')"
proof -
  let ?cs = "[''a<oai-mem-citation>x</oai-mem-ci'', ''tation>'' @ [newline] @ ''<proposed_plan>'' @ [newline] @ ''b'']"
  have 1: "list_all utf8_valid ?cs" by code_simp
  have 2: "strip_citations (concat ?cs) = (''a'' @ [newline] @ ''<proposed_plan>'' @ [newline] @ ''b'', [''x''])"
    by code_simp
  show ?thesis using assistant_text_chunking[OF 1 2 refl, of True] by (simp add: Let_def)
qed

end
