(* ===== verification/Utf8_Stream.thy ===== *)
theory Utf8_Stream
  imports Citation
begin

text \<open>
  \<open>utils/stream-parser/src/utf8_stream.rs\<close>: a wrapper that feeds raw bytes to a text parser and
  keeps an incomplete character back. The inner parser is any pair of a push and a finish
  operation; what is proved of it uses the contract \<open>stream_parser\<close> only.
\<close>

section \<open>\<open>Utf8StreamParser\<close>\<close>

datatype utf8_stream_error =
  InvalidUtf8 (valid_up_to: nat) (error_len: nat)
| IncompleteUtf8AtEof

record 's utf8_stream_parser =
  inner :: 's
  pending_utf8 :: rust_str

definition new_utf8_stream :: "'s \<Rightarrow> 's utf8_stream_parser" where
  "new_utf8_stream s = \<lparr>inner = s, pending_utf8 = []\<rparr>"

definition push_bytes ::
    "('s \<Rightarrow> rust_str \<Rightarrow> 'x stream_text_chunk \<times> 's) \<Rightarrow> 's utf8_stream_parser \<Rightarrow> rust_str \<Rightarrow>
     (utf8_stream_error, 'x stream_text_chunk) result \<times> 's utf8_stream_parser" where
  "push_bytes push p chunk =
     (let old_len = length (pending_utf8 p);
          p = p\<lparr>pending_utf8 := pending_utf8 p @ chunk\<rparr>;
          truncated = p\<lparr>pending_utf8 := take old_len (pending_utf8 p)\<rparr>
      in case from_utf8 (pending_utf8 p) of
           Inr text \<Rightarrow> (case push (inner p) text of (out, s) \<Rightarrow> (Ok out, \<lparr>inner = s, pending_utf8 = []\<rparr>))
         | Inl (valid, Some len) \<Rightarrow> (Err (InvalidUtf8 valid len), truncated)
         | Inl (valid, None) \<Rightarrow>
             if valid = 0 then (Ok empty_chunk, p)
             else (case from_utf8 (take valid (pending_utf8 p)) of
                     Inr text \<Rightarrow> (case push (inner p) text of
                       (out, s) \<Rightarrow> (Ok out, \<lparr>inner = s, pending_utf8 = drop valid (pending_utf8 p)\<rparr>))
                   | Inl (valid', len') \<Rightarrow>
                       (Err (InvalidUtf8 valid' (case len' of Some l \<Rightarrow> l | None \<Rightarrow> 0)), truncated)))"

definition utf8_error_of :: "utf8_error \<Rightarrow> utf8_stream_error" where
  "utf8_error_of e = (case e of (valid, Some len) \<Rightarrow> InvalidUtf8 valid len | (_, None) \<Rightarrow> IncompleteUtf8AtEof)"

definition utf8_finish ::
    "('s \<Rightarrow> rust_str \<Rightarrow> 'x stream_text_chunk \<times> 's) \<Rightarrow> ('s \<Rightarrow> 'x stream_text_chunk \<times> 's) \<Rightarrow> 's utf8_stream_parser \<Rightarrow>
     (utf8_stream_error, 'x stream_text_chunk) result \<times> 's utf8_stream_parser" where
  "utf8_finish push finish p =
     (if pending_utf8 p = [] then
        (case finish (inner p) of (tail, s) \<Rightarrow> (Ok tail, p\<lparr>inner := s\<rparr>))
      else case from_utf8 (pending_utf8 p) of
             Inl e \<Rightarrow> (Err (utf8_error_of e), p)
           | Inr text \<Rightarrow>
               (case push (inner p) text of (out, s) \<Rightarrow>
                case finish s of (tail, s') \<Rightarrow>
                  (Ok (chunk_append out tail), \<lparr>inner = s', pending_utf8 = []\<rparr>)))"

definition into_inner :: "'s utf8_stream_parser \<Rightarrow> (utf8_stream_error, 's) result" where
  "into_inner p =
     (if pending_utf8 p = [] then Ok (inner p)
      else case from_utf8 (pending_utf8 p) of Inr _ \<Rightarrow> Ok (inner p) | Inl e \<Rightarrow> Err (utf8_error_of e))"

definition into_inner_lossy :: "'s utf8_stream_parser \<Rightarrow> 's" where
  "into_inner_lossy p = inner p"

section \<open>Single pushes\<close>

lemma from_utf8_Inr: "from_utf8 bs = Inr t \<longleftrightarrow> t = bs \<and> utf8_valid bs"
  by (auto simp: from_utf8_def utf8_valid_def split: option.splits)

lemma from_utf8_valid [simp]: "utf8_valid bs \<Longrightarrow> from_utf8 bs = Inr bs"
  by (simp add: from_utf8_Inr)

text \<open>An accepted push hands a valid prefix of the buffered bytes on.\<close>

lemma push_bytes_Ok:
  assumes "push_bytes push p chunk = (Inr out, p')"
  shows "\<exists>q. utf8_valid q \<and> pending_utf8 p @ chunk = q @ pending_utf8 p'"
proof (cases "from_utf8 (pending_utf8 p @ chunk)")
  case (Inr t)
  then have "utf8_valid (pending_utf8 p @ chunk) \<and> pending_utf8 p' = []"
    using assms by (auto simp: push_bytes_def Let_def from_utf8_Inr split: prod.splits)
  then show ?thesis by (intro exI[of _ "pending_utf8 p @ chunk"]) simp
next
  case (Inl e)
  then obtain v where e: "e = (v, None)" using assms
    by (cases e; cases "snd e") (auto simp: push_bytes_def Let_def)
  show ?thesis
  proof (cases "v = 0")
    case True
    then show ?thesis using assms Inl e by (intro exI[of _ "[]"]) (auto simp: push_bytes_def Let_def)
  next
    case False
    then have "utf8_valid (take v (pending_utf8 p @ chunk)) \<and> pending_utf8 p' = drop v (pending_utf8 p @ chunk)"
      using assms Inl e by (auto simp: push_bytes_def Let_def from_utf8_Inr split: sum.splits prod.splits)
    then show ?thesis by (metis append_take_drop_id)
  qed
qed

context stream_parser
begin

lemma push_bytes_valid:
  assumes "inv (inner p)" "utf8_valid (pending_utf8 p @ chunk @ y)"
  shows "\<exists>q r. pending_utf8 p @ chunk = q @ r \<and> utf8_valid q \<and> utf8_valid (r @ y) \<and>
    push_bytes push p chunk = (Inr (fst (push (inner p) q)), \<lparr>inner = snd (push (inner p) q), pending_utf8 = r\<rparr>)"
proof -
  let ?x = "pending_utf8 p @ chunk"
  obtain q r where qr: "?x = q @ r" "utf8_valid q" "utf8_valid (r @ y)"
    "utf8_scan 0 ?x = (if r = [] then None else Some (length q, None))"
    using utf8_scan_prefix[of ?x y 0] assms(2) by auto
  have f: "from_utf8 ?x = (if r = [] then Inr ?x else Inl (length q, None))" using qr(4) by (simp add: from_utf8_def)
  have "push_bytes push p chunk = (Inr (fst (push (inner p) q)), \<lparr>inner = snd (push (inner p) q), pending_utf8 = r\<rparr>)"
  proof (cases "r = []")
    case True
    then show ?thesis using f qr(1) by (simp add: push_bytes_def Let_def split: prod.split)
  next
    case False
    then show ?thesis
      using f qr(1,2) push_Nil[OF assms(1)]
      by (cases "q = []") (auto simp: push_bytes_def Let_def split: prod.split)
  qed
  with qr show ?thesis by blast
qed

end

section \<open>A whole stream\<close>

text \<open>Every chunk is pushed, then the stream is finished; the first error stops it.\<close>

fun collect_bytes ::
    "('s \<Rightarrow> rust_str \<Rightarrow> 'x stream_text_chunk \<times> 's) \<Rightarrow> ('s \<Rightarrow> 'x stream_text_chunk \<times> 's) \<Rightarrow> 's utf8_stream_parser \<Rightarrow>
     rust_str list \<Rightarrow> (utf8_stream_error, 'x stream_text_chunk) result" where
  "collect_bytes push finish p [] = fst (utf8_finish push finish p)"
| "collect_bytes push finish p (c # cs) =
     (case push_bytes push p c of
        (Inl e, _) \<Rightarrow> Err e
      | (Inr out, p') \<Rightarrow> bind_result (collect_bytes push finish p' cs) (\<lambda>out'. Ok (chunk_append out out')))"

lemma collect_bytes_Ok: "collect_bytes push finish p cs = Inr out \<Longrightarrow> utf8_valid (pending_utf8 p @ concat cs)"
proof (induction cs arbitrary: p out)
  case Nil
  then show ?case by (auto simp: utf8_finish_def from_utf8_Inr split: if_splits sum.splits prod.splits)
next
  case (Cons c cs)
  from Cons.prems obtain o1 p' o2 where "push_bytes push p c = (Inr o1, p')" "collect_bytes push finish p' cs = Inr o2"
    by (auto simp: bind_result_eq_Inr split: prod.splits sum.splits)
  moreover from this(1) obtain q where "utf8_valid q" "pending_utf8 p @ c = q @ pending_utf8 p'"
    using push_bytes_Ok[of push p c o1 p'] by blast
  ultimately show ?case using Cons.IH[of p' o2] by (metis append.assoc concat.simps(2) utf8_valid_append)
qed

context stream_parser
begin

text \<open>On valid bytes the inner parser sees the text, in some cut of it.\<close>

lemma collect_bytes_valid:
  "inv (inner p) \<Longrightarrow> utf8_valid (pending_utf8 p @ concat cs) \<Longrightarrow>
     \<exists>qs. concat qs = pending_utf8 p @ concat cs \<and> list_all utf8_valid qs \<and>
       collect_bytes push finish p cs = Inr (collect_chunks push finish (inner p) qs)"
proof (induction cs arbitrary: p)
  case Nil
  show ?case
  proof (cases "pending_utf8 p = []")
    case True
    then show ?thesis
      by (intro exI[of _ "[]"]) (simp add: utf8_finish_def collect_chunks_simps split: prod.split)
  next
    case False
    then show ?thesis using Nil
      by (intro exI[of _ "[pending_utf8 p]"]) (simp add: utf8_finish_def collect_chunks_simps split: prod.split)
  qed
next
  case (Cons c cs)
  obtain q r where qr: "pending_utf8 p @ c = q @ r" "utf8_valid q" "utf8_valid (r @ concat cs)"
    "push_bytes push p c = (Inr (fst (push (inner p) q)), \<lparr>inner = snd (push (inner p) q), pending_utf8 = r\<rparr>)"
    using push_bytes_valid[of p c "concat cs"] Cons.prems by auto
  let ?p = "\<lparr>inner = snd (push (inner p) q), pending_utf8 = r\<rparr>"
  have "inv (inner ?p)" using push_inv[OF Cons.prems(1) qr(2)] by simp
  from Cons.IH[OF this] qr(3) obtain qs where
    "concat qs = r @ concat cs" "list_all utf8_valid qs" "collect_bytes push finish ?p cs = Inr (collect_chunks push finish (inner ?p) qs)"
    by auto
  then show ?case using qr
    by (intro exI[of _ "q # qs"]) (auto simp: collect_chunks_simps split: prod.split)
qed

end

text \<open>
  C27. Bytes streamed to the citation parser, in any cut, even inside characters: if they are valid
  UTF-8 the result is that of \<open>strip_citations\<close> on the whole text, and if they are not the stream
  ends with an error.
\<close>

theorem utf8_citations_by_bytes:
  "case collect_bytes citation_push citation_finish (new_utf8_stream new_citation_parser) bs of
     Inr out \<Rightarrow> utf8_valid (concat bs) \<and> (visible_text out, extracted out) = strip_citations (concat bs)
   | Inl e \<Rightarrow> \<not> utf8_valid (concat bs)"
proof (cases "utf8_valid (concat bs)")
  case True
  then obtain qs where qs: "concat qs = concat bs" "list_all utf8_valid qs"
    "collect_bytes citation_push citation_finish (new_utf8_stream new_citation_parser) bs
       = Inr (collect_chunks citation_push citation_finish new_citation_parser qs)"
    using citation.collect_bytes_valid[of "new_utf8_stream new_citation_parser" bs citation_finish] new_citation_settled
    by (auto simp: new_utf8_stream_def)
  with citation_streamed[OF qs(2) prod.collapse[symmetric]] True show ?thesis by simp
next
  case False
  then show ?thesis
    using collect_bytes_Ok[of citation_push citation_finish "new_utf8_stream new_citation_parser" bs]
    by (cases "collect_bytes citation_push citation_finish (new_utf8_stream new_citation_parser) bs")
       (auto simp: new_utf8_stream_def)
qed

text \<open>
  A push of bytes that fails rolls back: the buffered bytes and the inner parser are what they
  were, and the reported offset splits the buffered and the new bytes after a valid prefix.
\<close>

theorem failed_push_rolls_back:
  assumes "push_bytes push p chunk = (Inl e, p')"
  shows "p' = p \<and> (\<exists>v n. e = InvalidUtf8 v n \<and> utf8_valid (take v (pending_utf8 p @ chunk)))"
proof (cases "utf8_scan 0 (pending_utf8 p @ chunk)")
  case None
  then show ?thesis using assms by (auto simp: push_bytes_def Let_def from_utf8_def split: prod.splits)
next
  case (Some ve)
  then obtain v el where ve: "utf8_scan 0 (pending_utf8 p @ chunk) = Some (v, el)" by (cases ve) auto
  from utf8_scan_Some[OF this] have pre: "utf8_valid (take v (pending_utf8 p @ chunk))" by simp
  have "from_utf8 (pending_utf8 p @ chunk) = Inl (v, el)" using ve by (simp add: from_utf8_def)
  then show ?thesis
    using assms from_utf8_valid[OF pre] pre
    by (cases el) (auto simp: push_bytes_def Let_def split: if_splits prod.splits)
qed

theorem failed_push_rolls_back_witness:
  "\<exists>e p'. push_bytes citation_push (new_utf8_stream new_citation_parser) [CHR 0x61, CHR 0xFF] = (Inl e, p') \<and>
     p' = new_utf8_stream new_citation_parser \<and>
     (\<exists>v n. e = InvalidUtf8 v n \<and> utf8_valid (take v (pending_utf8 (new_utf8_stream new_citation_parser) @ [CHR 0x61, CHR 0xFF])))"
proof -
  let ?p = "new_utf8_stream new_citation_parser" let ?b = "[CHR 0x61, CHR 0xFF]"
  obtain r p' where rp: "push_bytes citation_push ?p ?b = (r, p')" by fastforce
  have "\<not> isl (fst (push_bytes citation_push ?p ?b)) = False" by code_simp
  then obtain e where "r = Inl e" using rp by (cases r) simp_all
  with failed_push_rolls_back[of citation_push ?p ?b e p'] rp show ?thesis by blast
qed

end
