(* ===== verification/Head_Tail_Buffer.thy ===== *)
theory Head_Tail_Buffer
  imports Prelude
begin

text \<open>
  \<open>core/src/unified_exec/head_tail_buffer.rs\<close>: the capped buffer for the output of a command. It
  keeps a prefix and a suffix of everything that was pushed. The abstract view is the whole
  output, of which the buffer is a function.
\<close>

section \<open>\<open>HeadTailBuffer\<close>\<close>

record head_tail_buffer =
  max_bytes :: nat
  head_budget :: nat
  tail_budget :: nat
  head :: rust_str
  tail :: rust_str
  omitted_bytes :: nat

definition new_buffer :: "nat \<Rightarrow> head_tail_buffer" where
  "new_buffer m =
     (let hb = m div 2
      in \<lparr>max_bytes = m, head_budget = hb, tail_budget = m - hb, head = [], tail = [], omitted_bytes = 0\<rparr>)"

definition UNIFIED_EXEC_OUTPUT_MAX_BYTES :: nat where
  "UNIFIED_EXEC_OUTPUT_MAX_BYTES = 1024 * 1024"

definition default_buffer :: head_tail_buffer where
  "default_buffer = new_buffer UNIFIED_EXEC_OUTPUT_MAX_BYTES"

definition retained_bytes :: "head_tail_buffer \<Rightarrow> nat" where
  "retained_bytes b = sat_add (length (head b)) (length (tail b))"

definition total_bytes :: "head_tail_buffer \<Rightarrow> nat" where
  "total_bytes b = sat_add (retained_bytes b) (omitted_bytes b)"

definition trim_tail_to_budget :: "head_tail_buffer \<Rightarrow> head_tail_buffer" where
  "trim_tail_to_budget b =
     (let excess = length (tail b) - tail_budget b
      in if excess > 0
         then b\<lparr>tail := drop excess (tail b), omitted_bytes := sat_add (omitted_bytes b) excess\<rparr>
         else b)"

definition push_to_tail :: "rust_str \<Rightarrow> head_tail_buffer \<Rightarrow> head_tail_buffer" where
  "push_to_tail chunk b =
     (if chunk = [] then b
      else if tail_budget b = 0 then b\<lparr>omitted_bytes := sat_add (omitted_bytes b) (length chunk)\<rparr>
      else if length chunk \<ge> tail_budget b then
        (let start = length chunk - tail_budget b;
             kept = drop start chunk;
             dropped = length chunk - length kept
         in b\<lparr>tail := kept,
              omitted_bytes := sat_add (sat_add (omitted_bytes b) (length (tail b))) dropped\<rparr>)
      else trim_tail_to_budget (b\<lparr>tail := tail b @ chunk\<rparr>))"

definition push_chunk :: "rust_str \<Rightarrow> head_tail_buffer \<Rightarrow> head_tail_buffer" where
  "push_chunk chunk b =
     (if chunk = [] then b
      else if max_bytes b = 0 then b\<lparr>omitted_bytes := sat_add (omitted_bytes b) (length chunk)\<rparr>
      else (let remaining_head = head_budget b - length (head b);
                head_len = min remaining_head (length chunk);
                b' = (if head_len > 0 then b\<lparr>head := head b @ take head_len chunk\<rparr> else b)
            in push_to_tail (drop head_len chunk) b'))"

definition snapshot_chunks :: "head_tail_buffer \<Rightarrow> rust_str list" where
  "snapshot_chunks b = (if head b \<noteq> [] then [head b] else []) @ (if tail b \<noteq> [] then [tail b] else [])"

definition to_bytes :: "head_tail_buffer \<Rightarrow> rust_str" where
  "to_bytes b = head b @ tail b"

definition format_output_omission_marker :: "nat \<Rightarrow> rust_str" where
  "format_output_omission_marker n = ''... '' @ show_usize n @ '' bytes omitted ...''"

definition to_bytes_with_omission_marker :: "head_tail_buffer \<Rightarrow> rust_str" where
  "to_bytes_with_omission_marker b =
     (if omitted_bytes b = 0 then to_bytes b
      else head b @ [newline] @ format_output_omission_marker (omitted_bytes b) @ [newline] @ tail b)"

text \<open>The drained contents and the buffer that is left.\<close>

definition drain_buffer :: "head_tail_buffer \<Rightarrow> head_tail_buffer \<times> head_tail_buffer" where
  "drain_buffer b = (b, b\<lparr>head := [], tail := [], omitted_bytes := 0\<rparr>)"

definition push_buffer :: "head_tail_buffer \<Rightarrow> head_tail_buffer \<Rightarrow> head_tail_buffer" where
  "push_buffer other b =
     (let b = push_chunk (tail other) (push_chunk (head other) b)
      in b\<lparr>omitted_bytes := sat_add (omitted_bytes b) (omitted_bytes other)\<rparr>)"

section \<open>The buffer is a function of the whole output\<close>

text \<open>The buffer that has seen exactly \<open>xs\<close> and in addition was told of \<open>k\<close> omitted bytes.\<close>

definition holds :: "nat \<Rightarrow> nat \<Rightarrow> rust_str \<Rightarrow> nat \<Rightarrow> head_tail_buffer" where
  "holds m hb xs k =
     (let hd = take hb xs; tl = last_n (m - hb) (drop hb xs)
      in \<lparr>max_bytes = m, head_budget = hb, tail_budget = m - hb, head = hd, tail = tl,
          omitted_bytes = min (length (drop hb xs) - length tl + k) usize_max\<rparr>)"

lemma new_holds: "new_buffer m = holds m (m div 2) [] 0"
  by (simp add: new_buffer_def holds_def last_n_def Let_def)

lemma sat_add_omitted: "o' \<le> usize_max \<Longrightarrow> sat_add o' 0 = o'"
  by (simp add: sat_add_def)

lemma push_to_tail_eq:
  assumes "length (tail b) \<le> tail_budget b" "omitted_bytes b \<le> usize_max"
  shows "push_to_tail chunk b =
    b\<lparr>tail := last_n (tail_budget b) (tail b @ chunk),
      omitted_bytes := min (omitted_bytes b + (length (tail b) + length chunk - tail_budget b)) usize_max\<rparr>"
proof -
  consider "chunk = []" | "chunk \<noteq> []" "tail_budget b = 0" | "chunk \<noteq> []" "0 < tail_budget b" "tail_budget b \<le> length chunk"
    | "chunk \<noteq> []" "length chunk < tail_budget b" by linarith
  then show ?thesis
  proof cases
    case 1
    then show ?thesis using assms by (simp add: push_to_tail_def last_n_all min_def)
  next
    case 2
    then show ?thesis using assms by (simp add: push_to_tail_def last_n_def sat_add_def)
  next
    case 3
    then have "last_n (tail_budget b) (tail b @ chunk) = drop (length chunk - tail_budget b) chunk"
      by (simp add: last_n_long) (simp add: last_n_def)
    moreover have "sat_add (sat_add (omitted_bytes b) (length (tail b))) (length chunk - tail_budget b)
        = min (omitted_bytes b + (length (tail b) + length chunk - tail_budget b)) usize_max"
      using 3 by (simp add: sat_add_def[of "omitted_bytes b"])
    ultimately show ?thesis using 3 by (simp add: push_to_tail_def Let_def)
  next
    case 4
    then show ?thesis
      using assms by (auto simp: push_to_tail_def trim_tail_to_budget_def Let_def last_n_def sat_add_def min_def)
  qed
qed

lemma push_chunk_holds:
  assumes "hb \<le> m"
  shows "push_chunk chunk (holds m hb xs k) = holds m hb (xs @ chunk) k"
proof (cases "m = 0")
  case True
  then show ?thesis using assms by (simp add: push_chunk_def holds_def Let_def last_n_def add.commute add.left_commute)
next
  case False
  let ?hb = hb let ?tb = "m - hb"
  let ?n = "min (?hb - length (take ?hb xs)) (length chunk)"
  let ?b = "(holds m hb xs k)\<lparr>head := take ?hb (xs @ chunk)\<rparr>"
  have hd: "take ?hb xs @ take ?n chunk = take ?hb (xs @ chunk)"
    by (auto simp: min_def)
  have rest: "drop ?hb (xs @ chunk) = drop ?hb xs @ drop ?n chunk"
    by (auto simp: min_def)
  define c where "c = length (drop ?n chunk)"
  define D where "D = length (drop ?hb xs)"
  define T where "T = last_n ?tb (drop ?hb xs)"
  have T: "length T = min ?tb D" by (simp add: T_def D_def)
  have tail: "last_n ?tb (T @ drop ?n chunk) = last_n ?tb (drop ?hb (xs @ chunk))"
    unfolding T_def rest by (rule last_n_append)
  have nat: "(D - min t D + k) + (min t D + c - t) = D + c - min t (D + c) + k" for t by linarith
  have D': "length (drop ?hb (xs @ chunk)) = D + c" unfolding rest D_def c_def by simp
  have sat: "min (min a usize_max + e) usize_max = min (a + e) usize_max" for a e by linarith
  have b: "tail ?b = T" "tail_budget ?b = ?tb" "omitted_bytes ?b = min (D - min ?tb D + k) usize_max"
    by (simp_all add: holds_def Let_def T_def D_def)
  have "push_to_tail (drop ?n chunk) ?b =
      ?b\<lparr>tail := last_n ?tb (drop ?hb (xs @ chunk)), omitted_bytes := min (D + c - min ?tb (D + c) + k) usize_max\<rparr>"
  proof -
    have "length (tail ?b) \<le> tail_budget ?b" "omitted_bytes ?b \<le> usize_max" unfolding b T by simp_all
    from push_to_tail_eq[OF this, of "drop ?n chunk"] show ?thesis
      unfolding b tail T c_def[symmetric] sat nat .
  qed
  also have "\<dots> = holds m hb (xs @ chunk) k"
    unfolding holds_def Let_def length_last_n D' by simp
  finally have "push_to_tail (drop ?n chunk) ?b = holds m hb (xs @ chunk) k" .
  moreover have "push_chunk chunk (holds m hb xs k) = push_to_tail (drop ?n chunk) ?b"
  proof (cases "chunk = []")
    case True
    then show ?thesis by (simp add: push_chunk_def push_to_tail_def holds_def Let_def)
  next
    case ne: False
    let ?X = "holds m hb xs k"
    have X: "max_bytes ?X = m" "head_budget ?X = ?hb" "head ?X = take ?hb xs" by (simp_all add: holds_def Let_def)
    have "(if 0 < ?n then ?X\<lparr>head := head ?X @ take ?n chunk\<rparr> else ?X) = ?b"
    proof (cases "0 < ?n")
      case True
      then show ?thesis unfolding X hd by simp
    next
      case no: False
      then have "?n = 0" by blast
      then have "take ?hb (xs @ chunk) = head ?X" unfolding X hd[symmetric] by (simp only: take0 append_Nil2)
      with no show ?thesis by simp
    qed
    then show ?thesis using ne False unfolding push_chunk_def Let_def X by simp
  qed
  ultimately show ?thesis by simp
qed

lemma push_chunks_hold: "hb \<le> m \<Longrightarrow> fold push_chunk cs (holds m hb xs k) = holds m hb (xs @ concat cs) k"
  by (induction cs arbitrary: xs) (simp_all add: push_chunk_holds)

lemma holds_omit: "(holds m hb xs k)\<lparr>omitted_bytes := sat_add (omitted_bytes (holds m hb xs k)) j\<rparr> = holds m hb xs (k + j)"
  unfolding holds_def Let_def by (simp only: head_tail_buffer.simps sat_add_min add.assoc)

text \<open>
  C33. However the output of a command is cut into pushes, the buffer keeps its first \<open>m div 2\<close>
  bytes and its last \<open>m - m div 2\<close> bytes, never more than \<open>m\<close> bytes, and counts the bytes in
  between (up to the saturation of \<open>usize\<close>). Output that fits is kept complete and without a
  marker.
\<close>

theorem head_tail_buffer_contents:
  fixes m :: nat and cs :: "rust_str list"
  defines "b \<equiv> fold push_chunk cs (new_buffer m)" and "out \<equiv> concat cs"
  shows "head b = take (m div 2) out \<and> tail b = last_n (m - m div 2) (drop (m div 2) out) \<and>
    length (to_bytes b) = min m (length out) \<and>
    omitted_bytes b = min (length out - m) usize_max \<and>
    total_bytes b = min (length out) usize_max \<and>
    to_bytes_with_omission_marker b =
      (if length out \<le> m then out
       else take (m div 2) out @ [newline] @ format_output_omission_marker (omitted_bytes b) @ [newline] @
            drop (length out - (m - m div 2)) out)"
proof -
  let ?h = "m div 2" let ?L = "length out"
  have h: "?h \<le> m" by simp
  have b: "b = holds m ?h out 0" unfolding b_def out_def new_holds push_chunks_hold[OF h] by simp
  have tl: "length (last_n (m - ?h) (drop ?h out)) = min (m - ?h) (?L - ?h)" by simp
  have om: "omitted_bytes b = min (?L - m) usize_max"
  proof -
    have "?L - ?h - min (m - ?h) (?L - ?h) = ?L - m" using h by linarith
    then show ?thesis unfolding b holds_def Let_def by simp
  qed
  have parts: "head b = take ?h out" "tail b = last_n (m - ?h) (drop ?h out)"
    by (simp_all add: b holds_def Let_def)
  have len: "length (head b) + length (tail b) = min m ?L"
    unfolding parts tl using h by simp
  have total: "total_bytes b = min ?L usize_max"
  proof -
    have "min m ?L + (?L - m) = ?L" by linarith
    then show ?thesis
      unfolding total_bytes_def retained_bytes_def om by (simp add: sat_add_def[of "length (head b)"] len min.assoc)
  qed
  have pos: "usize_max \<noteq> 0" by (simp add: usize_max_def)
  have "to_bytes_with_omission_marker b =
      (if ?L \<le> m then out
       else take ?h out @ [newline] @ format_output_omission_marker (omitted_bytes b) @ [newline] @ drop (?L - (m - ?h)) out)"
  proof (cases "?L \<le> m")
    case True
    then have "last_n (m - ?h) (drop ?h out) = drop ?h out" by (intro last_n_all) simp
    with True show ?thesis using om parts by (simp add: to_bytes_with_omission_marker_def to_bytes_def)
  next
    case False
    then have "?L - ?h - (m - ?h) + ?h = ?L - (m - ?h)" using h by linarith
    then have "last_n (m - ?h) (drop ?h out) = drop (?L - (m - ?h)) out" by (simp add: last_n_def)
    moreover have "omitted_bytes b \<noteq> 0" unfolding om using False pos by linarith
    ultimately show ?thesis using False parts by (simp add: to_bytes_with_omission_marker_def)
  qed
  with parts len om total show ?thesis by (simp add: to_bytes_def)
qed


text \<open>Draining a buffer and pushing what was drained onto another keeps the count of bytes.\<close>

lemma push_buffer_holds:
  "hb \<le> m \<Longrightarrow> push_buffer other (holds m hb xs k) = holds m hb (xs @ to_bytes other) (k + omitted_bytes other)"
  by (simp add: push_buffer_def Let_def push_chunk_holds holds_omit to_bytes_def)

lemma total_bytes_holds: "total_bytes (holds m hb xs k) = min (length xs + k) usize_max"
  unfolding total_bytes_def retained_bytes_def sat_add_def holds_def Let_def
  by (simp only: head_tail_buffer.simps length_take length_last_n length_drop) linarith

lemma drain_transfers:
  assumes "drain_buffer (holds m hb ys j) = (drained, rest)" "hb \<le> m"
  shows "rest = holds m hb [] 0"
    "total_bytes (push_buffer drained (holds m hb xs k)) =
       sat_add (total_bytes (holds m hb xs k)) (total_bytes (holds m hb ys j))"
proof -
  have d: "drained = holds m hb ys j" "rest = holds m hb [] 0"
    using assms by (auto simp: drain_buffer_def holds_def Let_def last_n_def)
  show "rest = holds m hb [] 0" by fact
  have "min (length (to_bytes drained) + omitted_bytes drained) usize_max = min (length ys + j) usize_max"
    using total_bytes_holds[of m hb ys j] unfolding d(1) total_bytes_def retained_bytes_def sat_add_def to_bytes_def length_append
    by linarith
  then show "total_bytes (push_buffer drained (holds m hb xs k)) =
       sat_add (total_bytes (holds m hb xs k)) (total_bytes (holds m hb ys j))"
    unfolding push_buffer_holds[OF assms(2)] total_bytes_holds sat_add_def length_append by linarith
qed

end
