(* ===== verification/Truncation.thy ===== *)
theory Truncation
  imports Utf8
begin

text \<open>
  \<open>utils/string/src/truncate.rs\<close> and \<open>utils/output-truncation/src/lib.rs\<close>: what the model sees of
  a long tool output is its beginning and its end, cut between characters, with a marker that
  says how much is missing.
\<close>

section \<open>Truncating a string in the middle\<close>

definition APPROX_BYTES_PER_TOKEN :: nat where "APPROX_BYTES_PER_TOKEN = 4"

definition approx_token_count :: "rust_str \<Rightarrow> nat" where
  "approx_token_count text = sat_add (length text) (APPROX_BYTES_PER_TOKEN - 1) div APPROX_BYTES_PER_TOKEN"

definition approx_bytes_for_tokens :: "nat \<Rightarrow> nat" where
  "approx_bytes_for_tokens tokens = sat_mul tokens APPROX_BYTES_PER_TOKEN"

definition approx_tokens_from_byte_count :: "nat \<Rightarrow> nat" where
  "approx_tokens_from_byte_count bytes = sat_add bytes (APPROX_BYTES_PER_TOKEN - 1) div APPROX_BYTES_PER_TOKEN"

definition split_budget :: "nat \<Rightarrow> nat \<times> nat" where
  "split_budget budget = (let left = budget div 2 in (left, budget - left))"

text \<open>The loop over \<open>char_indices\<close>: end of the prefix, start of the suffix, removed characters, whether the suffix has begun.\<close>

fun split_loop :: "nat \<Rightarrow> nat \<Rightarrow> nat \<Rightarrow> nat \<times> nat \<times> nat \<times> bool \<Rightarrow> rust_str list \<Rightarrow> nat \<times> nat \<times> nat \<times> bool" where
  "split_loop beginning_bytes tail_start_target idx st [] = st"
| "split_loop beginning_bytes tail_start_target idx (prefix_end, suffix_start, removed_chars, suffix_started) (ch # chs) =
     (let char_end = idx + length ch
      in split_loop beginning_bytes tail_start_target char_end
           (if char_end \<le> beginning_bytes then (char_end, suffix_start, removed_chars, suffix_started)
            else if idx \<ge> tail_start_target then
              (if \<not> suffix_started then (prefix_end, idx, removed_chars, True)
               else (prefix_end, suffix_start, removed_chars, suffix_started))
            else (prefix_end, suffix_start, sat_add removed_chars 1, suffix_started)) chs)"

definition split_string :: "rust_str \<Rightarrow> nat \<Rightarrow> nat \<Rightarrow> nat \<times> rust_str \<times> rust_str" where
  "split_string s beginning_bytes end_bytes =
     (if s = [] then (0, [], [])
      else case split_loop beginning_bytes (length s - end_bytes) 0 (0, length s, 0, False) (utf8_chars s) of
             (prefix_end, suffix_start, removed_chars, _) \<Rightarrow>
               (let suffix_start = (if suffix_start < prefix_end then prefix_end else suffix_start)
                in (removed_chars, take prefix_end s, drop suffix_start s)))"

definition ellipsis :: rust_str where "ellipsis = [CHR 0xE2, CHR 0x80, CHR 0xA6]"

definition format_truncation_marker :: "bool \<Rightarrow> nat \<Rightarrow> rust_str" where
  "format_truncation_marker use_tokens removed_count =
     ellipsis @ show_usize removed_count @ (if use_tokens then '' tokens truncated'' else '' chars truncated'') @ ellipsis"

definition removed_units :: "bool \<Rightarrow> nat \<Rightarrow> nat \<Rightarrow> nat" where
  "removed_units use_tokens removed_bytes removed_chars =
     (if use_tokens then approx_tokens_from_byte_count removed_bytes else removed_chars)"

definition assemble_truncated_output :: "rust_str \<Rightarrow> rust_str \<Rightarrow> rust_str \<Rightarrow> rust_str" where
  "assemble_truncated_output pre suf marker = pre @ marker @ suf"

definition truncate_with_byte_estimate :: "rust_str \<Rightarrow> nat \<Rightarrow> bool \<Rightarrow> rust_str" where
  "truncate_with_byte_estimate s max_bytes use_tokens =
     (if s = [] then []
      else if max_bytes = 0 then
        format_truncation_marker use_tokens (removed_units use_tokens (length s) (length (utf8_chars s)))
      else if length s \<le> max_bytes then s
      else (case split_budget max_bytes of (left_budget, right_budget) \<Rightarrow>
            case split_string s left_budget right_budget of (removed_chars, left, right) \<Rightarrow>
              (let marker = format_truncation_marker use_tokens
                     (removed_units use_tokens (length s - max_bytes) removed_chars)
               in assemble_truncated_output left right marker)))"

definition truncate_middle_chars :: "rust_str \<Rightarrow> nat \<Rightarrow> rust_str" where
  "truncate_middle_chars s max_bytes = truncate_with_byte_estimate s max_bytes False"

definition truncate_middle_with_token_budget :: "rust_str \<Rightarrow> nat \<Rightarrow> rust_str \<times> nat option" where
  "truncate_middle_with_token_budget s max_tokens =
     (if s = [] then ([], None)
      else if max_tokens > 0 \<and> length s \<le> approx_bytes_for_tokens max_tokens then (s, None)
      else (let truncated = truncate_with_byte_estimate s (approx_bytes_for_tokens max_tokens) True
            in if truncated = s then (truncated, None) else (truncated, Some (approx_token_count s))))"

definition take_bytes_at_char_boundary :: "rust_str \<Rightarrow> nat \<Rightarrow> rust_str" where
  "take_bytes_at_char_boundary s maxb =
     (if length s \<le> maxb then s
      else take (fst (fold (\<lambda>ch (last_ok, stopped).
             if stopped \<or> last_ok + length ch > maxb then (last_ok, True) else (last_ok + length ch, False))
             (utf8_chars s) (0, False))) s)"

section \<open>Tool outputs\<close>

datatype truncation_policy = BytesPolicy nat | TokensPolicy nat

fun token_budget :: "truncation_policy \<Rightarrow> nat" where
  "token_budget (BytesPolicy bytes) = approx_tokens_from_byte_count bytes"
| "token_budget (TokensPolicy tokens) = tokens"

fun byte_budget :: "truncation_policy \<Rightarrow> nat" where
  "byte_budget (BytesPolicy bytes) = bytes"
| "byte_budget (TokensPolicy tokens) = approx_bytes_for_tokens tokens"

fun truncate_text :: "rust_str \<Rightarrow> truncation_policy \<Rightarrow> rust_str" where
  "truncate_text content (BytesPolicy bytes) = truncate_middle_chars content bytes"
| "truncate_text content (TokensPolicy tokens) = fst (truncate_middle_with_token_budget content tokens)"

definition formatted_truncate_text :: "rust_str \<Rightarrow> truncation_policy \<Rightarrow> rust_str" where
  "formatted_truncate_text content policy =
     (if length content \<le> byte_budget policy then content
      else ''Warning: truncated output (original token count: '' @ show_usize (approx_token_count content) @ '')'' @
           [newline] @ ''Total output lines: '' @ show_usize (length (str_lines content)) @ [newline, newline] @
           truncate_text content policy)"

datatype 'd content_item =
  InputText rust_str
| InputImage rust_str "'d option"
| InputAudio rust_str
| EncryptedContent rust_str

fun item_text :: "'d content_item \<Rightarrow> rust_str option" where
  "item_text (InputText t) = Some t"
| "item_text _ = None"

definition combine_texts :: "rust_str list \<Rightarrow> rust_str" where
  "combine_texts ts = fold (\<lambda>t combined. (if combined \<noteq> [] then combined @ [newline] else combined) @ t) ts []"

definition formatted_truncate_text_content_items_with_policy ::
    "'d content_item list \<Rightarrow> truncation_policy \<Rightarrow> 'd content_item list \<times> nat option" where
  "formatted_truncate_text_content_items_with_policy items policy =
     (let text_segments = List.map_filter item_text items
      in if text_segments = [] then (items, None)
         else (let combined = combine_texts text_segments
               in if length combined \<le> byte_budget policy then (items, None)
                  else (InputText (formatted_truncate_text combined policy) #
                          filter (\<lambda>item. item_text item = None) items,
                        Some (approx_token_count combined))))"

record 'd truncate_state =
  out_items :: "'d content_item list"
  remaining_budget :: nat
  omitted_text_items :: nat
  omitted_audio_items :: nat

fun text_cost :: "truncation_policy \<Rightarrow> rust_str \<Rightarrow> nat" where
  "text_cost (BytesPolicy _) text = length text"
| "text_cost (TokensPolicy _) text = approx_token_count text"

fun audio_cost :: "truncation_policy \<Rightarrow> nat \<Rightarrow> nat" where
  "audio_cost (BytesPolicy _) token_cost = approx_bytes_for_tokens token_cost"
| "audio_cost (TokensPolicy _) token_cost = token_cost"

fun with_budget :: "truncation_policy \<Rightarrow> nat \<Rightarrow> truncation_policy" where
  "with_budget (BytesPolicy _) n = BytesPolicy n"
| "with_budget (TokensPolicy _) n = TokensPolicy n"

text \<open>One turn of the loop; \<open>audio_tokens\<close> is the estimate that the caller passes in.\<close>

fun truncate_item ::
    "truncation_policy \<Rightarrow> (rust_str \<Rightarrow> nat) \<Rightarrow> 'd content_item \<Rightarrow> 'd truncate_state \<Rightarrow> 'd truncate_state" where
  "truncate_item policy audio_tokens (InputText text) st =
     (if remaining_budget st = 0 then st\<lparr>omitted_text_items := omitted_text_items st + 1\<rparr>
      else if text_cost policy text \<le> remaining_budget st then
        st\<lparr>out_items := out_items st @ [InputText text],
           remaining_budget := remaining_budget st - text_cost policy text\<rparr>
      else (let snippet = truncate_text text (with_budget policy (remaining_budget st))
            in (if snippet = [] then st\<lparr>omitted_text_items := omitted_text_items st + 1\<rparr>
                else st\<lparr>out_items := out_items st @ [InputText snippet]\<rparr>)\<lparr>remaining_budget := 0\<rparr>))"
| "truncate_item policy audio_tokens (InputImage url detail) st =
     st\<lparr>out_items := out_items st @ [InputImage url detail]\<rparr>"
| "truncate_item policy audio_tokens (InputAudio url) st =
     (let cost = audio_cost policy (audio_tokens url)
      in if cost \<le> remaining_budget st
         then st\<lparr>out_items := out_items st @ [InputAudio url], remaining_budget := remaining_budget st - cost\<rparr>
         else st\<lparr>omitted_audio_items := omitted_audio_items st + 1\<rparr>)"
| "truncate_item policy audio_tokens (EncryptedContent c) st =
     st\<lparr>out_items := out_items st @ [EncryptedContent c]\<rparr>"

definition truncate_function_output_items_with_policy ::
    "'d content_item list \<Rightarrow> truncation_policy \<Rightarrow> (rust_str \<Rightarrow> nat) \<Rightarrow> 'd content_item list" where
  "truncate_function_output_items_with_policy items policy audio_tokens =
     (let st = fold (truncate_item policy audio_tokens) items
            \<lparr>out_items = [],
             remaining_budget = (case policy of BytesPolicy _ \<Rightarrow> byte_budget policy | TokensPolicy _ \<Rightarrow> token_budget policy),
             omitted_text_items = 0, omitted_audio_items = 0\<rparr>
      in out_items st
         @ (if omitted_text_items st > 0
            then [InputText (''[omitted '' @ show_usize (omitted_text_items st) @ '' text items ...]'')] else [])
         @ (if omitted_audio_items st > 0
            then [InputText (''[omitted '' @ show_usize (omitted_audio_items st) @ '' audio items ...]'')] else []))"

definition i64_max :: int where "i64_max = 2 ^ 63 - 1"

definition approx_tokens_from_byte_count_i64 :: "int \<Rightarrow> int" where
  "approx_tokens_from_byte_count_i64 bytes =
     (if bytes \<le> 0 then 0
      else min (int (approx_tokens_from_byte_count (min (nat bytes) usize_max))) i64_max)"

section \<open>The cut is between characters and within the budget\<close>

text \<open>The longest run of characters that fits, and what is left from a byte position on.\<close>

fun fit_chars :: "nat \<Rightarrow> rust_str list \<Rightarrow> rust_str list" where
  "fit_chars b [] = []"
| "fit_chars b (u # us) = (if length u \<le> b then u # fit_chars (b - length u) us else [])"

fun skip_chars :: "nat \<Rightarrow> rust_str list \<Rightarrow> rust_str list" where
  "skip_chars n [] = []"
| "skip_chars n (u # us) = (if n = 0 then u # us else skip_chars (n - length u) us)"

lemma fit_chars_prefix: "prefix (fit_chars b us) us"
  by (induction b us rule: fit_chars.induct) auto

lemma fit_chars_size: "length (concat (fit_chars b us)) \<le> b"
  by (induction b us rule: fit_chars.induct) auto

lemma skip_chars_suffix: "suffix (skip_chars n us) us"
  by (induction n us rule: skip_chars.induct) (auto intro: suffix_ConsI)

lemma skip_chars_size: "length (concat (skip_chars n us)) \<le> length (concat us) - n"
  by (induction n us rule: skip_chars.induct) auto

lemma split_loop_suffix:
  "\<forall>u \<in> set us. u \<noteq> [] \<Longrightarrow> t \<le> idx \<Longrightarrow> b \<le> idx \<Longrightarrow>
     split_loop b t idx (pe, ss, rm, True) us = (pe, ss, rm, True)"
proof (induction us arbitrary: idx)
  case (Cons u us)
  then have "0 < length u" by simp
  then have "\<not> idx + length u \<le> b" using Cons.prems(3) by linarith
  then show ?case using Cons by (simp add: Let_def)
qed simp

lemma split_loop_removed:
  "\<forall>u \<in> set us. u \<noteq> [] \<Longrightarrow> b \<le> idx \<or> (us \<noteq> [] \<and> b < idx + length (hd us)) \<Longrightarrow> rm + length us \<le> usize_max \<Longrightarrow>
     split_loop b t idx (pe, idx + length (concat us), rm, False) us =
       (pe, idx + length (concat us) - length (concat (skip_chars (t - idx) us)),
        rm + (length us - length (skip_chars (t - idx) us)), skip_chars (t - idx) us \<noteq> [])"
proof (induction us arbitrary: idx rm)
  case (Cons u us)
  have "0 < length u" using Cons.prems(1) by simp
  then have u: "0 < length u" "b < idx + length u" using Cons.prems(2) by (simp_all only: list.sel) linarith
  show ?case
  proof (cases "t \<le> idx")
    case True
    then show ?thesis using u split_loop_suffix[of us t "idx + length u" b] Cons.prems(1) by (simp add: Let_def)
  next
    case False
    let ?C = "skip_chars (t - (idx + length u)) us"
    have "length ?C \<le> length us" using suffix_length_le[OF skip_chars_suffix] .
    moreover have "sat_add rm 1 = rm + 1" using Cons.prems(3) by (simp add: sat_add_def)
    ultimately show ?thesis
      using Cons.IH[of "idx + length u" "rm + 1"] Cons.prems u False
      by (simp add: Let_def add.assoc)
  qed
qed simp

lemma split_loop_prefix:
  assumes "\<forall>u \<in> set us. u \<noteq> []" "idx \<le> b" "length us \<le> usize_max"
    and "A = fit_chars (b - idx) us" "R = drop (length A) us" "C = skip_chars (t - (idx + length (concat A))) R"
  shows "split_loop b t idx (idx, idx + length (concat us), 0, False) us =
     (idx + length (concat A), idx + length (concat us) - length (concat C), length R - length C, C \<noteq> [])"
  using assms
proof (induction us arbitrary: idx A)
  case (Cons u us)
  show ?case
  proof (cases "idx + length u \<le> b")
    case True
    then have fits: "length u \<le> b - idx" by linarith
    let ?A = "fit_chars (b - (idx + length u)) us"
    have A: "A = u # ?A" "R = drop (length ?A) us" using Cons.prems(4,5) fits by (simp_all add: diff_diff_left)
    show ?thesis
      using Cons.IH[of "idx + length u" ?A] Cons.prems(1,3,6) A True by (simp add: Let_def add.assoc)
  next
    case False
    then have "\<not> length u \<le> b - idx" using Cons.prems(2) by linarith
    then have "A = []" "R = u # us" using Cons.prems(4,5) by simp_all
    then show ?thesis
      using split_loop_removed[of "u # us" b idx 0 t idx] Cons.prems(1,3,6) False by simp
  qed
qed simp

lemma length_le_concat: "\<forall>u \<in> set us. u \<noteq> [] \<Longrightarrow> length us \<le> length (concat us)"
proof (induction us)
  case (Cons u us)
  then have "0 < length u" "length us \<le> length (concat us)" by simp_all
  then show ?case by (simp del: length_greater_0_conv)
qed simp

text \<open>What the loop computes: the three consecutive runs of characters.\<close>

lemma split_string_parts:
  assumes "length s \<le> usize_max" "A = fit_chars b (utf8_chars s)" "R = drop (length A) (utf8_chars s)"
    "C = skip_chars (length s - e - length (concat A)) R"
  shows "split_string s b e = (length R - length C, concat A, concat C)"
    "\<exists>B. utf8_chars s = A @ B @ C \<and> R = B @ C"
proof -
  let ?us = "utf8_chars s"
  have ne: "\<forall>u \<in> set ?us. u \<noteq> []" using utf8_chars_ne by blast
  obtain R' where "?us = A @ R'" using fit_chars_prefix assms(2) unfolding prefix_def by blast
  then have "?us = A @ R" using assms(3) by simp
  moreover obtain B where "R = B @ C" using skip_chars_suffix assms(4) unfolding suffix_def by blast
  ultimately have us: "?us = A @ B @ C" "R = B @ C" by simp_all
  then show "\<exists>B. ?us = A @ B @ C \<and> R = B @ C" by blast
  have s: "s = concat A @ concat B @ concat C" using arg_cong[OF us(1), of concat] by simp
  have "length ?us \<le> usize_max" using length_le_concat[OF ne] assms(1) by simp
  from split_loop_prefix[OF ne _ this, of 0 b A R C "length s - e"] assms
  have loop: "split_loop b (length s - e) 0 (0, length s, 0, False) ?us =
      (length (concat A), length s - length (concat C), length R - length C, C \<noteq> [])" by simp
  have "drop (length s - length (concat C)) s = concat C" by (subst (2) s) (simp add: arg_cong[OF s, of length])
  moreover have "length (concat A) \<le> length s - length (concat C)" using arg_cong[OF s, of length] by simp
  moreover have "take (length (concat A)) s = concat A" by (subst s) simp
  ultimately show "split_string s b e = (length R - length C, concat A, concat C)"
  proof (cases "s = []")
    case True
    then have "A = []" "R = []" "C = []" using us by simp_all
    with True show ?thesis by (simp add: split_string_def)
  qed (simp add: split_string_def loop)
qed


lemma fit_chars_maximal:
  "drop (length (fit_chars b us)) us = u # R \<Longrightarrow> b < length (concat (fit_chars b us)) + length u"
  by (induction b us rule: fit_chars.induct) (auto split: if_splits)

lemma skip_chars_maximal:
  "us = B @ u # skip_chars n us \<Longrightarrow> length (concat B) < n"
proof (induction n us arbitrary: B rule: skip_chars.induct)
  case (2 n v us)
  show ?case
  proof (cases B)
    case Nil
    then show ?thesis using 2(2) by (cases n) auto
  next
    case (Cons w B')
    have "n \<noteq> 0"
    proof
      assume "n = 0"
      then have "length (v # us) = length (B @ u # v # us)" using 2(2) by simp
      then show False by simp
    qed
    with 2(2) Cons have "us = B' @ u # skip_chars (n - length v) us" "w = v" by auto
    with 2(1)[OF \<open>n \<noteq> 0\<close>, of B'] Cons show ?thesis by simp
  qed
qed simp

lemma removed_part:
  assumes "utf8_valid s" "length s \<le> usize_max" "b + e < length s" "split_string s b e = (n, left, right)"
  shows "\<exists>mid. s = left @ mid @ right \<and> utf8_valid left \<and> utf8_valid mid \<and> utf8_valid right \<and> mid \<noteq> [] \<and>
    n = length (utf8_chars mid) \<and> length left \<le> b \<and> length right \<le> e \<and>
    b < length left + length (hd (utf8_chars mid)) \<and> e < length right + length (last (utf8_chars mid))"
proof -
  define A where "A = fit_chars b (utf8_chars s)"
  define R where "R = drop (length A) (utf8_chars s)"
  define C where "C = skip_chars (length s - e - length (concat A)) R"
  note parts = split_string_parts[OF assms(2) A_def R_def C_def]
  from parts(2) obtain B where B: "utf8_chars s = A @ B @ C" "R = B @ C" by blast
  have chars: "\<forall>u \<in> set (A @ B @ C). is_char u" using utf8_valid_chars[OF assms(1)] B(1) by auto
  then have valid: "utf8_valid (concat A)" "utf8_valid (concat B)" "utf8_valid (concat C)" "utf8_chars (concat B) = B"
    using is_char_concat[of A] is_char_concat[of B] is_char_concat[of C] by auto
  have s: "s = concat A @ concat B @ concat C" using arg_cong[OF B(1), of concat] by simp
  have a: "length (concat A) \<le> b" unfolding A_def by (rule fit_chars_size)
  have lenR: "length (concat R) = length s - length (concat A)" using B(2) arg_cong[OF s, of length] by simp
  have c: "length (concat C) \<le> e"
    using skip_chars_size[of "length s - e - length (concat A)" R] a assms(3) unfolding C_def[symmetric] lenR by linarith
  have "0 < length (concat B)"
    using a c assms(3) arg_cong[OF s, of length] unfolding length_append by linarith
  then have mid: "concat B \<noteq> []" by (simp only: length_greater_0_conv simp_thms)
  then obtain u B' where ub: "B = u # B'" by (cases B) auto
  have left_max: "b < length (concat A) + length (hd B)"
    using fit_chars_maximal[of b "utf8_chars s" u "B' @ C"] B(2) ub unfolding A_def[symmetric] R_def by simp
  obtain B1 v where bv: "B = B1 @ [v]" using ub by (metis rev_exhaust list.discI)
  have "length (concat B1) < length s - e - length (concat A)"
    using skip_chars_maximal[of R B1 v "length s - e - length (concat A)"] B(2) bv unfolding C_def[symmetric] by simp
  then have right_max: "e < length (concat C) + length (last B)"
    using arg_cong[OF s, of length] bv by simp
  have "n = length B" "left = concat A" "right = concat C" using parts(1) assms(4) B(2) by auto
  then show ?thesis using s valid a c left_max right_max mid by (intro exI[of _ "concat B"]) simp
qed

text \<open>
  C34. Truncation keeps both ends: text longer than the budget becomes a beginning and an end of it
  around a marker. Both are whole characters, fit their halves of the budget and could not be a
  character longer; the marker counts the characters that are missing. Shorter text is unchanged.
\<close>

theorem truncate_middle_keeps_ends:
  assumes "utf8_valid s" "length s \<le> usize_max" "0 < max_bytes"
  shows "if length s \<le> max_bytes then truncate_middle_chars s max_bytes = s
    else \<exists>left mid right. s = left @ mid @ right \<and> utf8_valid left \<and> utf8_valid mid \<and> utf8_valid right \<and>
      truncate_middle_chars s max_bytes = left @ format_truncation_marker False (length (utf8_chars mid)) @ right \<and>
      length left \<le> max_bytes div 2 \<and> length right \<le> max_bytes - max_bytes div 2 \<and>
      max_bytes div 2 < length left + length (hd (utf8_chars mid)) \<and>
      max_bytes - max_bytes div 2 < length right + length (last (utf8_chars mid))"
proof (cases "length s \<le> max_bytes")
  case True
  then show ?thesis using assms(3) by (simp add: truncate_middle_chars_def truncate_with_byte_estimate_def)
next
  case False
  let ?b = "max_bytes div 2" let ?e = "max_bytes - max_bytes div 2"
  obtain n left right where sp: "split_string s ?b ?e = (n, left, right)" by (metis prod_cases3)
  have "?b + ?e < length s" using False by simp
  from removed_part[OF assms(1,2) this sp] obtain mid where
    m: "s = left @ mid @ right" "utf8_valid left" "utf8_valid mid" "utf8_valid right" "n = length (utf8_chars mid)"
      "length left \<le> ?b" "length right \<le> ?e" "?b < length left + length (hd (utf8_chars mid))"
      "?e < length right + length (last (utf8_chars mid))" by blast
  have "truncate_middle_chars s max_bytes = left @ format_truncation_marker False n @ right"
    using False assms(3) sp
    by (cases "s = []") (simp_all add: truncate_middle_chars_def truncate_with_byte_estimate_def split_budget_def
        Let_def removed_units_def assemble_truncated_output_def)
  with m False show ?thesis by auto
qed

theorem truncate_middle_keeps_ends_witness:
  "utf8_valid ''abcdefghij'' \<and> length ''abcdefghij'' \<le> usize_max \<and>
   (\<exists>left mid right. ''abcdefghij'' = left @ mid @ right \<and>
      truncate_middle_chars ''abcdefghij'' 4 = left @ format_truncation_marker False (length (utf8_chars mid)) @ right)"
proof -
  let ?s = "''abcdefghij''"
  have 1: "utf8_valid ?s" by code_simp
  have 2: "length ?s \<le> usize_max" by (simp add: usize_max_def)
  have 3: "\<not> length ?s \<le> 4" by code_simp
  have 4: "0 < (4 :: nat)" by simp
  have "\<exists>left mid right. ?s = left @ mid @ right \<and>
      truncate_middle_chars ?s 4 = left @ format_truncation_marker False (length (utf8_chars mid)) @ right"
    using truncate_middle_keeps_ends[OF 1 2 4] unfolding if_not_P[OF 3] by blast
  with 1 2 show ?thesis by blast
qed


section \<open>Truncating the items of a tool output\<close>

lemma show_usize_size: "length (show_usize n) \<le> 20"
proof -
  have "length (show_digits k n) \<le> k" for k n
    by (induction k arbitrary: n) (auto intro: le_SucI)
  then show ?thesis by (simp add: show_usize_def)
qed

lemma truncate_middle_size:
  assumes "length s \<le> usize_max" "0 < max_bytes"
  shows "length (truncate_middle_chars s max_bytes) \<le> max_bytes + 42"
proof (cases "length s \<le> max_bytes")
  case True
  then show ?thesis using assms(2) by (simp add: truncate_middle_chars_def truncate_with_byte_estimate_def)
next
  case False
  let ?b = "max_bytes div 2" let ?e = "max_bytes - max_bytes div 2"
  define A where "A = fit_chars ?b (utf8_chars s)"
  define R where "R = drop (length A) (utf8_chars s)"
  define C where "C = skip_chars (length s - ?e - length (concat A)) R"
  note parts = split_string_parts[OF assms(1) A_def R_def C_def]
  have s: "length s = length (concat A) + length (concat R)"
    using parts(2) by (metis concat_append concat_utf8_chars length_append)
  have a: "length (concat A) \<le> ?b" unfolding A_def by (rule fit_chars_size)
  have c: "length (concat C) \<le> ?e"
    using skip_chars_size[of "length s - ?e - length (concat A)" R] s a False unfolding C_def[symmetric] by linarith
  let ?m = "format_truncation_marker False (length R - length C)"
  have "length ?m \<le> 42" using show_usize_size[of "length R - length C"] by (simp add: format_truncation_marker_def ellipsis_def)
  moreover have "truncate_middle_chars s max_bytes = concat A @ ?m @ concat C"
    using False assms(2) parts(1)
    by (cases "s = []") (simp_all add: truncate_middle_chars_def truncate_with_byte_estimate_def split_budget_def
        Let_def removed_units_def assemble_truncated_output_def)
  ultimately show ?thesis using a c by simp
qed

definition text_bytes :: "'d content_item list \<Rightarrow> nat" where
  "text_bytes items = sum_list (map (\<lambda>i. case item_text i of Some t \<Rightarrow> length t | None \<Rightarrow> 0) items)"

lemma text_bytes_simps [simp]:
  "text_bytes [] = 0" "text_bytes (InputText t # is) = length t + text_bytes is"
  "text_bytes (InputImage u d # is) = text_bytes is" "text_bytes (InputAudio u # is) = text_bytes is"
  "text_bytes (EncryptedContent c # is) = text_bytes is" "text_bytes (xs @ ys) = text_bytes xs + text_bytes ys"
  by (simp_all add: text_bytes_def)

text \<open>Items that truncation may not touch, and the cost of an item.\<close>

fun untouchable :: "'d content_item \<Rightarrow> bool" where
  "untouchable (InputImage _ _) = True"
| "untouchable (EncryptedContent _) = True"
| "untouchable _ = False"

fun item_cost :: "truncation_policy \<Rightarrow> (rust_str \<Rightarrow> nat) \<Rightarrow> 'd content_item \<Rightarrow> nat" where
  "item_cost policy audio_tokens (InputText t) = text_cost policy t"
| "item_cost policy audio_tokens (InputAudio u) = audio_cost policy (audio_tokens u)"
| "item_cost policy audio_tokens _ = 0"

definition within_bytes :: "nat \<Rightarrow> 'd truncate_state \<Rightarrow> bool" where
  "within_bytes n st \<longleftrightarrow>
     text_bytes (out_items st) + remaining_budget st \<le> n + (if remaining_budget st = 0 then 42 else 0)"

lemma truncate_item_within:
  assumes "within_bytes n st" "\<forall>t. item_text i = Some t \<longrightarrow> length t \<le> usize_max"
  shows "within_bytes n (truncate_item (BytesPolicy m) f i st)"
proof (cases i)
  case (InputText t)
  have "length (truncate_middle_chars t (remaining_budget st)) \<le> remaining_budget st + 42" if "remaining_budget st \<noteq> 0"
    using truncate_middle_size[of t "remaining_budget st"] assms(2) InputText that by simp
  then show ?thesis using assms(1) InputText by (auto simp: within_bytes_def Let_def split: if_splits)
qed (use assms(1) in \<open>auto simp: within_bytes_def Let_def split: if_splits\<close>)

lemma truncate_items_within:
  "within_bytes n st \<Longrightarrow> \<forall>t. InputText t \<in> set items \<longrightarrow> length t \<le> usize_max \<Longrightarrow>
     within_bytes n (fold (truncate_item (BytesPolicy m) f) items st)"
proof (induction items arbitrary: st)
  case (Cons i items)
  have "\<forall>t. item_text i = Some t \<longrightarrow> length t \<le> usize_max" using Cons.prems(2) by (cases i) auto
  from truncate_item_within[OF Cons.prems(1) this] Cons show ?case by simp
qed simp

lemma truncate_items_keep:
  "filter untouchable (out_items (fold (truncate_item policy f) items st)) =
     filter untouchable (out_items st) @ filter untouchable items"
proof (induction items arbitrary: st)
  case (Cons i items)
  have "filter untouchable (out_items (truncate_item policy f i st)) = filter untouchable (out_items st) @ filter untouchable [i]"
    by (cases i) (simp_all add: Let_def)
  with Cons show ?case by simp
qed simp

lemma truncate_items_fit:
  "sum_list (map (item_cost policy f) items) < remaining_budget st \<Longrightarrow>
     fold (truncate_item policy f) items st =
       st\<lparr>out_items := out_items st @ items,
          remaining_budget := remaining_budget st - sum_list (map (item_cost policy f) items)\<rparr>"
proof (induction items arbitrary: st)
  case (Cons i items)
  have "truncate_item policy f i st = st\<lparr>out_items := out_items st @ [i], remaining_budget := remaining_budget st - item_cost policy f i\<rparr>"
    using Cons.prems by (cases i) (simp_all add: Let_def)
  with Cons show ?case by (simp add: diff_diff_left)
qed simp

text \<open>
  The items of a tool output are truncated within their budget: the texts that are kept, cut or
  added are at most the byte budget and a constant 133 bytes of markers, images and encrypted
  items all stay in order, and an output that costs less than its budget is unchanged.
\<close>

theorem truncate_items_bounded:
  assumes "\<forall>t. InputText t \<in> set items \<longrightarrow> length t \<le> usize_max"
  shows "text_bytes (truncate_function_output_items_with_policy items (BytesPolicy n) f) \<le> n + 133 \<and>
    filter untouchable (truncate_function_output_items_with_policy items policy f) = filter untouchable items \<and>
    (sum_list (map (item_cost (BytesPolicy n) f) items) < n \<longrightarrow>
       truncate_function_output_items_with_policy items (BytesPolicy n) f = items)"
proof (intro conjI impI)
  let ?init = "\<lambda>k. \<lparr>out_items = [] :: 'a content_item list, remaining_budget = k, omitted_text_items = 0, omitted_audio_items = 0\<rparr>"
  let ?st = "fold (truncate_item (BytesPolicy n) f) items (?init n)"
  have "within_bytes n ?st" by (rule truncate_items_within[OF _ assms]) (simp add: within_bytes_def)
  then have "text_bytes (out_items ?st) \<le> n + 42" by (simp add: within_bytes_def split: if_splits)
  moreover have "length (''[omitted '' @ show_usize k @ '' text items ...]'') \<le> 45"
    "length (''[omitted '' @ show_usize k @ '' audio items ...]'') \<le> 46" for k
    using show_usize_size[of k] by simp_all
  from this[of "omitted_text_items ?st"] this[of "omitted_audio_items ?st"]
  show "text_bytes (truncate_function_output_items_with_policy items (BytesPolicy n) f) \<le> n + 133"
    using calculation by (simp add: truncate_function_output_items_with_policy_def Let_def)
next
  show "filter untouchable (truncate_function_output_items_with_policy items policy f) = filter untouchable items"
    by (simp add: truncate_function_output_items_with_policy_def Let_def truncate_items_keep)
next
  assume "sum_list (map (item_cost (BytesPolicy n) f) items) < n"
  then show "truncate_function_output_items_with_policy items (BytesPolicy n) f = items"
    by (simp add: truncate_function_output_items_with_policy_def Let_def truncate_items_fit)
qed

theorem truncate_items_bounded_witness:
  "text_bytes (truncate_function_output_items_with_policy [InputText ''abc'', InputAudio ''u'', InputImage ''i'' (None :: unit option)]
     (BytesPolicy 2) (\<lambda>_. 5)) \<le> 2 + 133"
proof -
  let ?items = "[InputText ''abc'', InputAudio ''u'', InputImage ''i'' (None :: unit option)]"
  have "\<forall>t. InputText t \<in> set ?items \<longrightarrow> length t \<le> usize_max" by (simp add: usize_max_def)
  from truncate_items_bounded[OF this] show ?thesis by blast
qed

end
