(* ===== verification/Agent_Path.thy ===== *)
theory Agent_Path
  imports Prelude
begin

text \<open>
  \<open>protocol/src/agent_path.rs\<close>: the names of agents in a session, a tree below \<open>/root\<close>. Paths are
  byte strings; a validated path is one that \<open>from_string\<close> returns.
\<close>

section \<open>\<open>AgentPath\<close>\<close>

definition ROOT_PATH :: rust_str where "ROOT_PATH = ''/root''"
definition MORPHEUS :: rust_str where "MORPHEUS = ''/morpheus''"
definition ROOT_SEGMENT :: rust_str where "ROOT_SEGMENT = ''root''"

abbreviation slash :: char where "slash \<equiv> CHR 0x2F"

definition name_char :: "char \<Rightarrow> bool" where
  "name_char c \<longleftrightarrow> (97 \<le> byte_of c \<and> byte_of c \<le> 122) \<or> (48 \<le> byte_of c \<and> byte_of c \<le> 57) \<or> c = CHR ''_''"

definition validate_agent_name :: "rust_str \<Rightarrow> (rust_str, unit) result" where
  "validate_agent_name n =
     (if n = [] then Err ''agent_name must not be empty''
      else if n = ROOT_SEGMENT then Err ''agent_name `root` is reserved''
      else if n = ''.'' \<or> n = ''..'' then Err (''agent_name `'' @ n @ ''` is reserved'')
      else if slash \<in> set n then Err ''agent_name must not contain `/`''
      else if \<not> list_all name_char n then Err ''agent_name must use only lowercase letters, digits, and underscores''
      else Ok ())"

fun validate_names :: "rust_str list \<Rightarrow> (rust_str, unit) result" where
  "validate_names [] = Ok ()"
| "validate_names (n # ns) = bind_result (validate_agent_name n) (\<lambda>_. validate_names ns)"

definition msg_bad_start :: rust_str where
  "msg_bad_start = ''absolute agent paths must start with `/root` or be `/morpheus`''"

definition validate_absolute_path :: "rust_str \<Rightarrow> (rust_str, unit) result" where
  "validate_absolute_path p =
     (if p = MORPHEUS then Ok ()
      else case strip_prefix [slash] p of
        None \<Rightarrow> Err msg_bad_start
      | Some stripped \<Rightarrow>
          (case split_on slash stripped of
             [] \<Rightarrow> Err ''absolute agent path must not be empty''
           | root # segments \<Rightarrow>
               if root \<noteq> ROOT_SEGMENT then Err msg_bad_start
               else if ends_with stripped [slash] then Err ''absolute agent path must not end with `/`''
               else validate_names segments))"

definition validate_relative_reference :: "rust_str \<Rightarrow> (rust_str, unit) result" where
  "validate_relative_reference reference =
     (if ends_with reference [slash] then Err ''relative agent path must not end with `/`''
      else validate_names (split_on slash reference))"

definition from_string :: "rust_str \<Rightarrow> (rust_str, rust_str) result" where
  "from_string p = bind_result (validate_absolute_path p) (\<lambda>_. Ok p)"

definition is_root_path :: "rust_str \<Rightarrow> bool" where
  "is_root_path p \<longleftrightarrow> p = ROOT_PATH"

definition path_name :: "rust_str \<Rightarrow> rust_str" where
  "path_name p =
     (if is_root_path p then ROOT_SEGMENT
      else (let segment = last (split_on slash p) in if segment \<noteq> [] then segment else ROOT_SEGMENT))"

definition path_join :: "rust_str \<Rightarrow> rust_str \<Rightarrow> (rust_str, rust_str) result" where
  "path_join p agent_name = bind_result (validate_agent_name agent_name) (\<lambda>_. from_string (p @ [slash] @ agent_name))"

definition path_resolve :: "rust_str \<Rightarrow> rust_str \<Rightarrow> (rust_str, rust_str) result" where
  "path_resolve p reference =
     (if reference = [] then Err ''agent path must not be empty''
      else if reference = ROOT_PATH then Ok ROOT_PATH
      else if prefix [slash] reference then from_string reference
      else bind_result (validate_relative_reference reference) (\<lambda>_. from_string (p @ [slash] @ reference)))"

section \<open>The tree of agents\<close>

text \<open>A name that passes validation, and the path of a list of names below the root.\<close>

definition agent_name_ok :: "rust_str \<Rightarrow> bool" where
  "agent_name_ok n \<longleftrightarrow> n \<noteq> [] \<and> n \<noteq> ROOT_SEGMENT \<and> list_all name_char n"

definition path_of_names :: "rust_str list \<Rightarrow> rust_str" where
  "path_of_names ns = concat (map (\<lambda>n. slash # n) (ROOT_SEGMENT # ns))"

lemma name_ok_slash: "agent_name_ok n \<Longrightarrow> slash \<notin> set n"
  by (auto simp: agent_name_ok_def list_all_iff name_char_def)

lemma validate_name_iff: "validate_agent_name n = Inr u \<longleftrightarrow> agent_name_ok n"
proof
  assume "agent_name_ok n"
  moreover from this have "n \<noteq> ''.''" "n \<noteq> ''..''" by (auto simp: agent_name_ok_def name_char_def)
  ultimately show "validate_agent_name n = Inr u"
    using name_ok_slash[of n] by (simp add: validate_agent_name_def agent_name_ok_def)
qed (auto simp: validate_agent_name_def agent_name_ok_def split: if_splits)

lemma validate_names_iff: "validate_names ns = Inr u \<longleftrightarrow> list_all agent_name_ok ns"
  by (induction ns) (auto simp: bind_result_eq_Inr validate_name_iff)

lemma split_on_names:
  "slash \<notin> set x \<Longrightarrow> \<forall>n \<in> set ns. slash \<notin> set n \<Longrightarrow> split_on slash (x @ concat (map (\<lambda>n. slash # n) ns)) = x # ns"
  by (induction ns arbitrary: x) (auto simp: split_on_append_sep split_on_single)

lemma join_slashes: "join_with [slash] (x # ns) = x @ concat (map (\<lambda>n. slash # n) ns)"
  by (induction ns arbitrary: x) auto

lemma join_of_split: "split_on slash s = x # ns \<Longrightarrow> s = x @ concat (map (\<lambda>n. slash # n) ns)"
  using join_split_on[of slash s] join_slashes[of x ns] by simp

lemma split_on_snoc: "split_on d (z @ [d]) = split_on d z @ [[]]"
  by (induction z) (auto split: list.splits)

lemma names_not_ending:
  assumes "split_on slash s = x # ns" "x \<noteq> []" "\<forall>n \<in> set ns. n \<noteq> []"
  shows "\<not> ends_with s [slash]"
proof
  assume "ends_with s [slash]"
  then obtain z where "s = z @ [slash]" by (auto simp: ends_with_def suffix_def)
  then have "x # ns = split_on slash z @ [[]]" using assms(1) by (simp add: split_on_snoc)
  then have "[] \<in> set (x # ns)" by (metis in_set_conv_decomp)
  then show False using assms(2,3) by auto
qed

lemma root_segment_ok: "slash \<notin> set ROOT_SEGMENT" "ROOT_SEGMENT \<noteq> []"
  by (simp_all add: ROOT_SEGMENT_def)

lemma names_facts: "list_all agent_name_ok ns \<Longrightarrow> \<forall>n \<in> set ns. slash \<notin> set n \<and> n \<noteq> []"
  by (auto simp: list_all_iff name_ok_slash agent_name_ok_def)

lemma validate_absolute_iff:
  "validate_absolute_path p = Inr () \<longleftrightarrow> p = MORPHEUS \<or>
     (\<exists>s ns. p = slash # s \<and> split_on slash s = ROOT_SEGMENT # ns \<and> \<not> ends_with s [slash] \<and> validate_names ns = Inr ())"
proof (cases "p = MORPHEUS")
  case False
  show ?thesis
  proof (cases "strip_prefix [slash] p")
    case None
    then have "p \<noteq> slash # s" for s by (auto simp: strip_prefix_def)
    then show ?thesis using None False by (simp add: validate_absolute_path_def)
  next
    case (Some s)
    then have p: "p = slash # s" by (simp add: strip_prefix_Some)
    obtain x ns where "split_on slash s = x # ns" by (cases "split_on slash s") simp_all
    then show ?thesis using Some p False by (cases "x = ROOT_SEGMENT") (simp_all add: validate_absolute_path_def)
  qed
qed (simp add: validate_absolute_path_def)

lemma from_path_of_names:
  assumes "list_all agent_name_ok ns"
  shows "from_string (path_of_names ns) = Inr (path_of_names ns)"
proof -
  let ?s = "ROOT_SEGMENT @ concat (map (\<lambda>n. slash # n) ns)"
  have sp: "split_on slash ?s = ROOT_SEGMENT # ns"
    using names_facts[OF assms] root_segment_ok by (intro split_on_names) auto
  have "\<not> ends_with ?s [slash]" using names_not_ending[OF sp] names_facts[OF assms] root_segment_ok by blast
  moreover have "path_of_names ns = slash # ?s" by (simp add: path_of_names_def)
  ultimately have "validate_absolute_path (path_of_names ns) = Inr ()"
    using sp validate_names_iff[of ns] assms validate_absolute_iff by blast
  then show ?thesis by (simp add: from_string_def)
qed

lemma path_of_names_inj:
  assumes "list_all agent_name_ok ns" "list_all agent_name_ok ms" "path_of_names ns = path_of_names ms"
  shows "ns = ms"
proof -
  have sp: "split_on slash (tl (path_of_names xs)) = ROOT_SEGMENT # xs" if "list_all agent_name_ok xs" for xs
    using split_on_names[OF root_segment_ok(1), of xs] names_facts[OF that] by (simp add: path_of_names_def)
  have "ROOT_SEGMENT # ns = ROOT_SEGMENT # ms" using sp[OF assms(1)] sp[OF assms(2)] assms(3) by metis
  then show ?thesis by blast
qed

lemma from_string_cases:
  assumes "from_string p = Inr q"
  shows "q = p \<and> (p = MORPHEUS \<or> (\<exists>ns. list_all agent_name_ok ns \<and> p = path_of_names ns))"
proof (cases "p = MORPHEUS")
  case False
  have "validate_absolute_path p = Inr ()" and q: "q = p"
    using assms by (auto simp: from_string_def bind_result_eq_Inr)
  then obtain s ns where s: "p = slash # s" "split_on slash s = ROOT_SEGMENT # ns" "validate_names ns = Inr ()"
    using False validate_absolute_iff by blast
  then have "p = path_of_names ns" using join_of_split[OF s(2)] by (simp add: path_of_names_def)
  then show ?thesis using s q validate_names_iff by blast
qed (use assms in \<open>auto simp: from_string_def bind_result_eq_Inr\<close>)

text \<open>
  C35. The accepted paths are exactly \<open>/morpheus\<close> and the paths of lists of valid names below
  \<open>/root\<close>; each list of names has one path, so agents form a tree.
\<close>

theorem accepted_paths_form_a_tree:
  "(from_string p = Inr q \<longleftrightarrow> q = p \<and> (p = MORPHEUS \<or> (\<exists>ns. list_all agent_name_ok ns \<and> p = path_of_names ns))) \<and>
   inj_on path_of_names {ns. list_all agent_name_ok ns}"
proof
  have "from_string MORPHEUS = Inr MORPHEUS" by (simp add: from_string_def validate_absolute_path_def)
  then show "from_string p = Inr q \<longleftrightarrow> q = p \<and> (p = MORPHEUS \<or> (\<exists>ns. list_all agent_name_ok ns \<and> p = path_of_names ns))"
    using from_string_cases[of p q] from_path_of_names by blast
  show "inj_on path_of_names {ns. list_all agent_name_ok ns}"
    using path_of_names_inj unfolding inj_on_def by blast
qed

text \<open>Joining and resolving go down the tree; the name of a path is its last name.\<close>

lemma path_join_names:
  assumes "list_all agent_name_ok ns" "agent_name_ok n"
  shows "path_join (path_of_names ns) n = Inr (path_of_names (ns @ [n]))" "path_name (path_of_names (ns @ [n])) = n"
proof -
  have p: "path_of_names ns @ [slash] @ n = path_of_names (ns @ [n])" by (simp add: path_of_names_def)
  show "path_join (path_of_names ns) n = Inr (path_of_names (ns @ [n]))"
    using validate_name_iff[of n "()"] assms(2) from_path_of_names[of "ns @ [n]"] assms p by (simp add: path_join_def)
  have "path_of_names (ns @ [n]) \<noteq> ROOT_PATH"
    using path_of_names_inj[of "ns @ [n]" "[]"] assms by (auto simp: path_of_names_def ROOT_PATH_def ROOT_SEGMENT_def)
  moreover have "split_on slash (path_of_names (ns @ [n])) = [] # ROOT_SEGMENT # ns @ [n]"
    using split_on_names[of "[]" "ROOT_SEGMENT # ns @ [n]"] names_facts[of "ns @ [n]"] assms root_segment_ok
    by (simp add: path_of_names_def)
  ultimately show "path_name (path_of_names (ns @ [n])) = n"
    using assms(2) by (simp add: path_name_def is_root_path_def agent_name_ok_def)
qed

end
