(* ===== verification/Agent_Registry.thy ===== *)
theory Agent_Registry
  imports Agent_Path "HOL-Library.AList"
begin

text \<open>
  \<open>core/src/agent/registry.rs\<close>: the registry that all agents of a session share. It hands out
  spawn slots under a limit, reserves nicknames and paths, and knows the live agents. The maps
  are association lists with distinct keys. Every region under the lock and every atomic
  operation is one step of the model; a sequence of steps is any interleaving of the threads that
  share the registry. The counter is a natural number: it would wrap only after \<open>2 ^ 64\<close> slots.
\<close>

section \<open>\<open>AgentRegistry\<close>\<close>

record 'i agent_metadata =
  agent_id :: "'i option"
  agent_path :: "rust_str option"
  agent_nickname :: "rust_str option"
  agent_role :: "rust_str option"

definition default_metadata :: "'i agent_metadata" where
  "default_metadata = \<lparr>agent_id = None, agent_path = None, agent_nickname = None, agent_role = None\<rparr>"

record 'i agent_registry =
  agent_tree :: "(rust_str \<times> 'i agent_metadata) list"
  thread_paths :: "('i \<times> rust_str) list"
  used_agent_nicknames :: "rust_str list"
  nickname_reset_count :: nat
  total_count :: nat

definition new_registry :: "'i agent_registry" where
  "new_registry = \<lparr>agent_tree = [], thread_paths = [], used_agent_nicknames = [], nickname_reset_count = 0, total_count = 0\<rparr>"

datatype registry_error = AgentLimitReached nat | UnsupportedOperation rust_str

definition format_agent_nickname :: "rust_str \<Rightarrow> nat \<Rightarrow> rust_str" where
  "format_agent_nickname name reset_count =
     (if reset_count = 0 then name
      else (let value = reset_count + 1;
                suffix = (if 11 \<le> value mod 100 \<and> value mod 100 \<le> 13 then ''th''
                          else if value mod 10 = 1 then ''st''
                          else if value mod 10 = 2 then ''nd''
                          else if value mod 10 = 3 then ''rd'' else ''th'')
            in name @ '' the '' @ show_usize value @ suffix))"

text \<open>The compare-and-swap loop succeeds on a value it has seen below the limit.\<close>

definition try_increment_spawned :: "nat \<Rightarrow> 'i agent_registry \<Rightarrow> bool \<times> 'i agent_registry" where
  "try_increment_spawned max_threads r =
     (if total_count r \<ge> max_threads then (False, r) else (True, r\<lparr>total_count := total_count r + 1\<rparr>))"

record spawn_reservation =
  reserved_agent_nickname :: "rust_str option"
  reserved_agent_path :: "rust_str option"

definition reserve_spawn_slot ::
    "nat option \<Rightarrow> 'i agent_registry \<Rightarrow> (registry_error, spawn_reservation) result \<times> 'i agent_registry" where
  "reserve_spawn_slot max_threads r =
     (let reservation = \<lparr>reserved_agent_nickname = None, reserved_agent_path = None\<rparr>
      in case max_threads of
           Some m \<Rightarrow> (case try_increment_spawned m r of
                       (False, r') \<Rightarrow> (Err (AgentLimitReached m), r')
                     | (True, r') \<Rightarrow> (Ok reservation, r'))
         | None \<Rightarrow> (Ok reservation, r\<lparr>total_count := total_count r + 1\<rparr>))"

definition counted :: "'i agent_metadata \<Rightarrow> bool" where
  "counted md \<longleftrightarrow> (case agent_path md of Some p \<Rightarrow> \<not> is_root_path p | None \<Rightarrow> True)"

text \<open>The region under the lock of \<open>release_spawned_thread\<close>; the flag asks for a decrement.\<close>

definition release_entry :: "'i \<Rightarrow> 'i agent_registry \<Rightarrow> bool \<times> 'i agent_registry" where
  "release_entry thread_id r =
     (case map_of (thread_paths r) thread_id of
        None \<Rightarrow> (False, r)
      | Some key \<Rightarrow>
          (let removed = map_of (agent_tree r) key
           in (case removed of Some md \<Rightarrow> counted md | None \<Rightarrow> False,
               r\<lparr>thread_paths := AList.delete thread_id (thread_paths r),
                 agent_tree := AList.delete key (agent_tree r)\<rparr>)))"

definition decrement_count :: "'i agent_registry \<Rightarrow> 'i agent_registry" where
  "decrement_count r = r\<lparr>total_count := total_count r - 1\<rparr>"

definition release_spawned_thread :: "'i \<Rightarrow> 'i agent_registry \<Rightarrow> 'i agent_registry" where
  "release_spawned_thread thread_id r =
     (case release_entry thread_id r of (dec, r') \<Rightarrow> if dec then decrement_count r' else r')"

definition register_root_thread :: "'i \<Rightarrow> 'i agent_registry \<Rightarrow> 'i agent_registry" where
  "register_root_thread thread_id r =
     (let (md, tree) = (case map_of (agent_tree r) ROOT_PATH of
            Some md \<Rightarrow> (md, agent_tree r)
          | None \<Rightarrow> (let md = default_metadata\<lparr>agent_id := Some thread_id, agent_path := Some ROOT_PATH\<rparr>
                     in (md, AList.update ROOT_PATH md (agent_tree r))));
          r = r\<lparr>agent_tree := tree\<rparr>
      in case agent_id md of
           Some root_id \<Rightarrow> r\<lparr>thread_paths := AList.update root_id ROOT_PATH (thread_paths r)\<rparr>
         | None \<Rightarrow> r)"

definition agent_id_for_path :: "rust_str \<Rightarrow> 'i agent_registry \<Rightarrow> 'i option" where
  "agent_id_for_path p r = Option.bind (map_of (agent_tree r) p) agent_id"

definition agent_metadata_for_thread :: "'i \<Rightarrow> 'i agent_registry \<Rightarrow> 'i agent_metadata option" where
  "agent_metadata_for_thread thread_id r = Option.bind (map_of (thread_paths r) thread_id) (map_of (agent_tree r))"

definition live :: "'i agent_metadata \<Rightarrow> bool" where
  "live md \<longleftrightarrow> agent_id md \<noteq> None \<and> counted md"

definition live_agents :: "'i agent_registry \<Rightarrow> 'i agent_metadata list" where
  "live_agents r = filter live (map snd (agent_tree r))"

text \<open>\<open>show_id\<close> renders a thread id, an opaque UUID.\<close>

definition agent_key :: "('i \<Rightarrow> rust_str) \<Rightarrow> 'i \<Rightarrow> 'i agent_metadata \<Rightarrow> rust_str" where
  "agent_key show_id thread_id md =
     (case agent_path md of Some p \<Rightarrow> p | None \<Rightarrow> ''thread:'' @ show_id thread_id)"

definition note_nickname :: "rust_str option \<Rightarrow> 'i agent_registry \<Rightarrow> 'i agent_registry" where
  "note_nickname nickname r =
     (case nickname of
        Some n \<Rightarrow> r\<lparr>used_agent_nicknames := List.insert n (used_agent_nicknames r)\<rparr> | None \<Rightarrow> r)"

definition point_thread :: "'i \<Rightarrow> rust_str \<Rightarrow> 'i agent_registry \<Rightarrow> 'i agent_registry" where
  "point_thread thread_id key r =
     (let previous_key = map_of (thread_paths r) thread_id;
          r = r\<lparr>thread_paths := AList.update thread_id key (thread_paths r)\<rparr>
      in case previous_key of
           Some k \<Rightarrow> if k \<noteq> key then r\<lparr>agent_tree := AList.delete k (agent_tree r)\<rparr> else r
         | None \<Rightarrow> r)"

definition place_entry :: "'i \<Rightarrow> rust_str \<Rightarrow> 'i agent_metadata \<Rightarrow> 'i agent_registry \<Rightarrow> 'i agent_registry" where
  "place_entry thread_id key md r =
     (let previous_metadata = map_of (agent_tree r) key;
          r = r\<lparr>agent_tree := AList.update key md (agent_tree r)\<rparr>
      in case Option.bind previous_metadata agent_id of
           Some previous_id \<Rightarrow>
             if previous_id \<noteq> thread_id then r\<lparr>thread_paths := AList.delete previous_id (thread_paths r)\<rparr> else r
         | None \<Rightarrow> r)"

definition register_spawned_thread :: "('i \<Rightarrow> rust_str) \<Rightarrow> 'i agent_metadata \<Rightarrow> 'i agent_registry \<Rightarrow> 'i agent_registry" where
  "register_spawned_thread show_id md r =
     (case agent_id md of
        None \<Rightarrow> r
      | Some thread_id \<Rightarrow>
          (let key = agent_key show_id thread_id md
           in place_entry thread_id key md (point_thread thread_id key (note_nickname (agent_nickname md) r))))"

text \<open>\<open>pick\<close> is the random choice: an index into the candidates.\<close>

definition choose_name :: "nat \<Rightarrow> 'a list \<Rightarrow> 'a option" where
  "choose_name pick xs = (if xs = [] then None else Some (xs ! (pick mod length xs)))"

definition reserve_agent_nickname ::
    "nat \<Rightarrow> rust_str list \<Rightarrow> rust_str option \<Rightarrow> 'i agent_registry \<Rightarrow> rust_str option \<times> 'i agent_registry" where
  "reserve_agent_nickname pick names preferred r =
     (let use = (\<lambda>n r. (Some n, r\<lparr>used_agent_nicknames := List.insert n (used_agent_nicknames r)\<rparr>))
      in case preferred of
           Some p \<Rightarrow> use p r
         | None \<Rightarrow>
             if names = [] then (None, r)
             else (let available = filter (\<lambda>n. n \<notin> set (used_agent_nicknames r))
                         (map (\<lambda>n. format_agent_nickname n (nickname_reset_count r)) names)
                   in case choose_name pick available of
                        Some n \<Rightarrow> use n r
                      | None \<Rightarrow>
                          (let r = r\<lparr>used_agent_nicknames := [], nickname_reset_count := nickname_reset_count r + 1\<rparr>
                           in case choose_name pick names of
                                None \<Rightarrow> (None, r)
                              | Some n \<Rightarrow> use (format_agent_nickname n (nickname_reset_count r)) r)))"

definition reserve_agent_path :: "rust_str \<Rightarrow> 'i agent_registry \<Rightarrow> (registry_error, unit) result \<times> 'i agent_registry" where
  "reserve_agent_path p r =
     (case map_of (agent_tree r) p of
        Some _ \<Rightarrow> (Err (UnsupportedOperation (''agent path `'' @ p @ ''` already exists'')), r)
      | None \<Rightarrow> (Ok (), r\<lparr>agent_tree := AList.update p (default_metadata\<lparr>agent_path := Some p\<rparr>) (agent_tree r)\<rparr>))"

definition release_reserved_agent_path :: "rust_str \<Rightarrow> 'i agent_registry \<Rightarrow> 'i agent_registry" where
  "release_reserved_agent_path p r =
     (case map_of (agent_tree r) p of
        Some md \<Rightarrow> if agent_id md = None then r\<lparr>agent_tree := AList.delete p (agent_tree r)\<rparr> else r
      | None \<Rightarrow> r)"

section \<open>Reservations in flight\<close>

text \<open>
  The registry with the reservations that are held and the decrements that are still to be made:
  releasing a thread and dropping a reservation first change the maps under the lock and then
  decrement the counter.
\<close>

record 'i registry_system =
  registry :: "'i agent_registry"
  reservations :: "(nat \<times> spawn_reservation) list"
  due_decrements :: nat

definition initial_system :: "'i registry_system" where
  "initial_system = \<lparr>registry = new_registry, reservations = [], due_decrements = 0\<rparr>"

datatype 'i registry_action =
  ReserveSlot nat "nat option"             \<comment> \<open>the name of the reservation, the limit\<close>
| ReserveNickname nat nat "rust_str list" "rust_str option"
| ReservePath nat rust_str
| CommitReservation nat "'i agent_metadata"
| DropReservation nat
| ReleaseThread 'i
| Decrement
| RegisterRoot 'i

fun registry_exec :: "('i \<Rightarrow> rust_str) \<Rightarrow> 'i registry_action \<Rightarrow> 'i registry_system \<Rightarrow> 'i registry_system" where
  "registry_exec show_id (ReserveSlot k max_threads) s =
     (if map_of (reservations s) k \<noteq> None then s
      else case reserve_spawn_slot max_threads (registry s) of
             (Inr v, r) \<Rightarrow> s\<lparr>registry := r, reservations := AList.update k v (reservations s)\<rparr>
           | (Inl _, r) \<Rightarrow> s\<lparr>registry := r\<rparr>)"
| "registry_exec show_id (ReserveNickname k pick names preferred) s =
     (case map_of (reservations s) k of
        None \<Rightarrow> s
      | Some v \<Rightarrow>
          (case reserve_agent_nickname pick names preferred (registry s) of
             (Some n, r) \<Rightarrow> s\<lparr>registry := r, reservations := AList.update k (v\<lparr>reserved_agent_nickname := Some n\<rparr>) (reservations s)\<rparr>
           | (None, r) \<Rightarrow> s\<lparr>registry := r\<rparr>))"
| "registry_exec show_id (ReservePath k p) s =
     (case map_of (reservations s) k of
        None \<Rightarrow> s
      | Some v \<Rightarrow>
          (case reserve_agent_path p (registry s) of
             (Inr _, r) \<Rightarrow> s\<lparr>registry := r, reservations := AList.update k (v\<lparr>reserved_agent_path := Some p\<rparr>) (reservations s)\<rparr>
           | (Inl _, r) \<Rightarrow> s\<lparr>registry := r\<rparr>))"
| "registry_exec show_id (CommitReservation k md) s =
     (case map_of (reservations s) k of
        None \<Rightarrow> s
      | Some _ \<Rightarrow> s\<lparr>registry := register_spawned_thread show_id md (registry s),
                    reservations := AList.delete k (reservations s)\<rparr>)"
| "registry_exec show_id (DropReservation k) s =
     (case map_of (reservations s) k of
        None \<Rightarrow> s
      | Some v \<Rightarrow> s\<lparr>registry := (case reserved_agent_path v of Some p \<Rightarrow> release_reserved_agent_path p (registry s) | None \<Rightarrow> registry s),
                    reservations := AList.delete k (reservations s), due_decrements := due_decrements s + 1\<rparr>)"
| "registry_exec show_id (ReleaseThread t) s =
     (case release_entry t (registry s) of
        (dec, r) \<Rightarrow> s\<lparr>registry := r, due_decrements := due_decrements s + (if dec then 1 else 0)\<rparr>)"
| "registry_exec show_id Decrement s =
     (if due_decrements s = 0 then s
      else s\<lparr>registry := decrement_count (registry s), due_decrements := due_decrements s - 1\<rparr>)"
| "registry_exec show_id (RegisterRoot t) s = s\<lparr>registry := register_root_thread t (registry s)\<rparr>"

definition registry_run :: "('i \<Rightarrow> rust_str) \<Rightarrow> 'i registry_action list \<Rightarrow> 'i registry_system" where
  "registry_run show_id acts = fold (registry_exec show_id) acts initial_system"


section \<open>Slots are never handed out twice\<close>

definition live_count :: "(rust_str \<times> 'i agent_metadata) list \<Rightarrow> nat" where
  "live_count tree = length (filter live (map snd tree))"

definition live_at :: "(rust_str \<times> 'i agent_metadata) list \<Rightarrow> rust_str \<Rightarrow> nat" where
  "live_at tree k = (case map_of tree k of Some md \<Rightarrow> of_bool (live md) | None \<Rightarrow> 0)"

lemma map_of_notin: "k \<notin> fst ` set xs \<Longrightarrow> map_of xs k = None"
  by (simp add: map_of_eq_None_iff)

lemma live_count_delete: "distinct (map fst tree) \<Longrightarrow> live_count (AList.delete k tree) + live_at tree k = live_count tree"
proof (induction tree)
  case (Cons e tree)
  then show ?case
    by (cases e; cases "fst e = k") (simp_all add: live_count_def live_at_def map_of_notin)
qed (simp add: live_count_def live_at_def)

lemma live_count_update:
  "distinct (map fst tree) \<Longrightarrow> live_count (AList.update k md tree) + live_at tree k = live_count tree + of_bool (live md)"
proof (induction tree)
  case (Cons e tree)
  then show ?case by (cases e; cases "fst e = k") (simp_all add: live_count_def live_at_def)
qed (simp add: live_count_def live_at_def)

lemma delete_length: "distinct (map fst xs) \<Longrightarrow> map_of xs k = Some v \<Longrightarrow> length (AList.delete k xs) + 1 = length xs"
proof (induction xs)
  case (Cons e xs)
  then show ?case by (cases e; cases "fst e = k") simp_all
qed simp

lemma update_length: "length (AList.update k v xs) = length xs + (if map_of xs k = None then 1 else 0)"
  by (induction xs) auto

text \<open>
  A thread is registered at a path only if the entry there is its own. No operation needs a
  precondition to keep this.
\<close>

definition owned :: "('i \<rightharpoonup> rust_str) \<Rightarrow> (rust_str \<rightharpoonup> 'i agent_metadata) \<Rightarrow> bool" where
  "owned tp tree \<longleftrightarrow> (\<forall>t k. tp t = Some k \<longrightarrow> (\<exists>md. tree k = Some md \<and> agent_id md = Some t))"

lemma ownedD: "owned tp tree \<Longrightarrow> tp t = Some k \<Longrightarrow> \<exists>md. tree k = Some md \<and> agent_id md = Some t"
  by (simp add: owned_def)

lemma owned_vacant: "owned tp tree \<Longrightarrow> tree p = None \<Longrightarrow> owned tp (tree(p \<mapsto> md))"
  unfolding owned_def by (metis fun_upd_apply option.discI)

lemma owned_remove: "owned tp tree \<Longrightarrow> tree p = Some md \<Longrightarrow> agent_id md = None \<Longrightarrow> owned tp (tree(p := None))"
  unfolding owned_def by (metis fun_upd_apply option.discI option.inject)

lemma owned_release: "owned tp tree \<Longrightarrow> tp t = Some k \<Longrightarrow> owned (tp(t := None)) (tree(k := None))"
  unfolding owned_def by (metis fun_upd_apply option.discI option.inject)

lemma owned_forget: "owned tp tree \<Longrightarrow> owned (tp(t := None)) tree"
  by (auto simp: owned_def)

lemma owned_claim: "owned tp tree \<Longrightarrow> tree k = Some md \<Longrightarrow> agent_id md = Some t \<Longrightarrow> owned (tp(t \<mapsto> k)) tree"
  by (auto simp: owned_def)

text \<open>Putting an entry of thread \<open>t\<close> at \<open>k\<close> when no other thread is registered there.\<close>

lemma owned_place:
  assumes "owned tp tree" "agent_id md = Some t" "\<forall>t'. tp t' = Some k \<longrightarrow> t' = t"
  shows "owned (tp(t \<mapsto> k)) (tree(k \<mapsto> md))"
  using assms unfolding owned_def by (metis (no_types, lifting) fun_upd_apply option.inject)

definition registry_inv :: "'i agent_registry \<Rightarrow> bool" where
  "registry_inv r \<longleftrightarrow> distinct (map fst (agent_tree r)) \<and> distinct (map fst (thread_paths r)) \<and>
     owned (map_of (thread_paths r)) (map_of (agent_tree r))"

lemmas alist_maps = update_conv' AList.delete_conv' AList.distinct_update AList.distinct_delete

lemma new_registry_inv: "registry_inv new_registry"
  by (simp add: registry_inv_def new_registry_def owned_def)

lemma reserve_path_inv: "registry_inv r \<Longrightarrow> registry_inv (snd (reserve_agent_path p r))"
  by (auto simp: registry_inv_def reserve_agent_path_def alist_maps intro: owned_vacant split: option.split)

lemma release_path_inv: "registry_inv r \<Longrightarrow> registry_inv (release_reserved_agent_path p r)"
  by (cases "map_of (agent_tree r) p")
     (simp_all add: registry_inv_def release_reserved_agent_path_def alist_maps owned_remove del: map_of_eq_Some_iff)

lemma release_entry_inv: "registry_inv r \<Longrightarrow> registry_inv (snd (release_entry t r))"
  by (cases "map_of (thread_paths r) t")
     (simp_all add: registry_inv_def release_entry_def Let_def alist_maps owned_release del: map_of_eq_Some_iff)

lemma register_root_inv: "registry_inv r \<Longrightarrow> registry_inv (register_root_thread t r)"
proof -
  assume r: "registry_inv r"
  show ?thesis
  proof (cases "map_of (agent_tree r) ROOT_PATH")
    case None
    let ?md = "default_metadata\<lparr>agent_id := Some t, agent_path := Some ROOT_PATH\<rparr>"
    have "owned ((map_of (thread_paths r))(t \<mapsto> ROOT_PATH)) ((map_of (agent_tree r))(ROOT_PATH \<mapsto> ?md))"
      by (rule owned_claim[where md = ?md], rule owned_vacant)
         (use r None in \<open>simp_all add: registry_inv_def default_metadata_def\<close>)
    with None r show ?thesis by (simp add: registry_inv_def register_root_thread_def Let_def alist_maps)
  next
    case (Some md)
    then show ?thesis
      using r by (simp add: registry_inv_def register_root_thread_def Let_def alist_maps owned_claim
          split: option.split del: map_of_eq_Some_iff)
  qed
qed

text \<open>Registering: the steps on the two maps, and the count of live entries.\<close>

lemma note_nickname_fields [simp]:
  "agent_tree (note_nickname n r) = agent_tree r" "thread_paths (note_nickname n r) = thread_paths r"
  "total_count (note_nickname n r) = total_count r"
  by (simp_all add: note_nickname_def split: option.split)

lemma point_thread_inv:
  assumes "registry_inv r" "r' = point_thread t k r"
  shows "distinct (map fst (agent_tree r'))" "distinct (map fst (thread_paths r'))"
    "map_of (thread_paths r') = (map_of (thread_paths r))(t \<mapsto> k)"
    "owned ((map_of (thread_paths r'))(t := None)) (map_of (agent_tree r'))"
    "total_count r' = total_count r" "live_count (agent_tree r') \<le> live_count (agent_tree r)"
    "map_of (thread_paths r) t = None \<Longrightarrow> agent_tree r' = agent_tree r"
proof -
  let ?tp = "map_of (thread_paths r)"
  have r: "owned ?tp (map_of (agent_tree r))" "distinct (map fst (agent_tree r))" "distinct (map fst (thread_paths r))"
    using assms(1) by (simp_all add: registry_inv_def)
  have tree: "agent_tree r' = agent_tree r \<or> (\<exists>k'. ?tp t = Some k' \<and> agent_tree r' = AList.delete k' (agent_tree r))"
    and tp: "thread_paths r' = AList.update t k (thread_paths r)"
    and tc: "total_count r' = total_count r" and same: "?tp t = None \<Longrightarrow> agent_tree r' = agent_tree r"
    unfolding assms(2) by (cases "?tp t"; simp add: point_thread_def Let_def)+
  show "total_count r' = total_count r" by (rule tc)
  show "?tp t = None \<Longrightarrow> agent_tree r' = agent_tree r" by (rule same)
  show "distinct (map fst (agent_tree r'))" using tree r(2) by (auto simp: alist_maps)
  show "distinct (map fst (thread_paths r'))" using tp r(3) by (simp add: alist_maps)
  show tp': "map_of (thread_paths r') = ?tp(t \<mapsto> k)" using tp by (simp add: alist_maps)
  show "owned ((map_of (thread_paths r'))(t := None)) (map_of (agent_tree r'))"
    unfolding tp' using tree owned_forget[OF r(1)] owned_release[OF r(1)] by (auto simp: alist_maps)
  show "live_count (agent_tree r') \<le> live_count (agent_tree r)"
    using tree live_count_delete[OF r(2)] by (metis le_add1 le_refl)
qed

lemma place_entry_inv:
  assumes "agent_id md = Some t" "distinct (map fst (agent_tree r))" "distinct (map fst (thread_paths r))"
    "map_of (thread_paths r) t = Some k" "owned ((map_of (thread_paths r))(t := None)) (map_of (agent_tree r))"
  shows "registry_inv (place_entry t k md r)" "total_count (place_entry t k md r) = total_count r"
    "live_count (agent_tree (place_entry t k md r)) + live_at (agent_tree r) k = live_count (agent_tree r) + of_bool (live md)"
proof -
  let ?r = "place_entry t k md r" let ?tp = "map_of (thread_paths r)" let ?tree = "map_of (agent_tree r)"
  have fields: "agent_tree ?r = AList.update k md (agent_tree r)" "total_count ?r = total_count r"
    "distinct (map fst (thread_paths ?r))"
    using assms(3) by (simp_all add: place_entry_def Let_def alist_maps split: option.split)
  show "total_count ?r = total_count r" by (rule fields)
  show "live_count (agent_tree ?r) + live_at (agent_tree r) k = live_count (agent_tree r) + of_bool (live md)"
    unfolding fields by (rule live_count_update[OF assms(2)])
  have tp: "map_of (thread_paths ?r) t = Some k"
    using assms(4) by (simp add: place_entry_def Let_def alist_maps del: map_of_eq_Some_iff split: option.split)
  have others: "?tp t' = Some k' \<and> k' \<noteq> k" if new: "map_of (thread_paths ?r) t' = Some k'" "t' \<noteq> t" for t' k'
  proof -
    have old: "?tp t' = Some k'"
      using new(1) by (auto simp: place_entry_def Let_def alist_maps split: option.splits if_splits)
    moreover have "k' \<noteq> k"
    proof
      assume "k' = k"
      then obtain md' where "?tree k = Some md'" "agent_id md' = Some t'"
        using ownedD[OF assms(5), of t' k] old new(2) by auto
      then show False using new by (simp add: place_entry_def Let_def alist_maps del: map_of_eq_Some_iff)
    qed
    ultimately show ?thesis by blast
  qed
  have "owned (map_of (thread_paths ?r)) (?tree(k \<mapsto> md))"
    unfolding owned_def
  proof (intro allI impI)
    fix t' k' assume tk: "map_of (thread_paths ?r) t' = Some k'"
    show "\<exists>md'. (?tree(k \<mapsto> md)) k' = Some md' \<and> agent_id md' = Some t'"
    proof (cases "t' = t")
      case True
      then show ?thesis using tk tp assms(1) by simp
    next
      case False
      from others[OF tk this] have old: "?tp t' = Some k'" "k' \<noteq> k" by auto
      with ownedD[OF assms(5), of t' k'] False show ?thesis by simp
    qed
  qed
  then show "registry_inv ?r" using fields assms(2) by (simp add: registry_inv_def alist_maps)
qed

lemma register_spawned_effect:
  assumes "registry_inv r" "r' = register_spawned_thread show_id md r"
  shows "registry_inv r'" "total_count r' = total_count r" "live_count (agent_tree r') \<le> live_count (agent_tree r) + 1"
    "agent_id md = Some t \<Longrightarrow> live md \<Longrightarrow> map_of (thread_paths r) t = None \<Longrightarrow>
       live_at (agent_tree r) (agent_key show_id t md) = 0 \<Longrightarrow> live_count (agent_tree r') = live_count (agent_tree r) + 1"
proof -
  have all: "registry_inv r' \<and> total_count r' = total_count r \<and> live_count (agent_tree r') \<le> live_count (agent_tree r) + 1 \<and>
    (\<forall>t. agent_id md = Some t \<and> live md \<and> map_of (thread_paths r) t = None \<and>
       live_at (agent_tree r) (agent_key show_id t md) = 0 \<longrightarrow> live_count (agent_tree r') = live_count (agent_tree r) + 1)"
  proof (cases "agent_id md")
    case None
    then show ?thesis using assms by (simp add: register_spawned_thread_def)
  next
    case (Some t)
    let ?k = "agent_key show_id t md" let ?r0 = "note_nickname (agent_nickname md) r"
    define r1 where "r1 = point_thread t ?k ?r0"
    have "registry_inv ?r0" using assms(1) by (simp add: registry_inv_def)
    note p = point_thread_inv[OF this r1_def]
    have "map_of (thread_paths r1) t = Some ?k" unfolding p(3) by simp
    note e = place_entry_inv[OF Some p(1,2) this p(4)]
    have r': "r' = place_entry t ?k md r1"
      unfolding assms(2) r1_def by (simp add: register_spawned_thread_def Some Let_def)
    have "live_count (agent_tree r') \<le> live_count (agent_tree r) + 1"
      using e(3) p(6) unfolding r' by (cases "live md") auto
    moreover have "live_count (agent_tree r') = live_count (agent_tree r) + 1"
      if "live md" "map_of (thread_paths r) t = None" "live_at (agent_tree r) ?k = 0"
      using e(3) p(7) that unfolding r' by simp
    ultimately show ?thesis using e(1,2) p(5) Some unfolding r' by auto
  qed
  then show "registry_inv r'" "total_count r' = total_count r" "live_count (agent_tree r') \<le> live_count (agent_tree r) + 1"
    by blast+
  show "agent_id md = Some t \<Longrightarrow> live md \<Longrightarrow> map_of (thread_paths r) t = None \<Longrightarrow>
       live_at (agent_tree r) (agent_key show_id t md) = 0 \<Longrightarrow> live_count (agent_tree r') = live_count (agent_tree r) + 1"
    using all by blast
qed

text \<open>The other operations: which entries they touch and what that does to the counts.\<close>

lemma reserve_path_count:
  assumes "registry_inv r"
  shows "live_count (agent_tree (snd (reserve_agent_path p r))) = live_count (agent_tree r)"
    "total_count (snd (reserve_agent_path p r)) = total_count r"
proof -
  have "\<not> live (default_metadata\<lparr>agent_path := Some p\<rparr>)" by (simp add: live_def default_metadata_def)
  then show "live_count (agent_tree (snd (reserve_agent_path p r))) = live_count (agent_tree r)"
    using live_count_update[of "agent_tree r" p "default_metadata\<lparr>agent_path := Some p\<rparr>"] assms
    by (cases "map_of (agent_tree r) p") (simp_all add: reserve_agent_path_def live_at_def registry_inv_def)
qed (simp add: reserve_agent_path_def split: option.split)

lemma release_path_count:
  assumes "registry_inv r"
  shows "live_count (agent_tree (release_reserved_agent_path p r)) = live_count (agent_tree r)"
    "total_count (release_reserved_agent_path p r) = total_count r"
proof -
  show "total_count (release_reserved_agent_path p r) = total_count r"
    by (simp add: release_reserved_agent_path_def split: option.split)
  have d: "distinct (map fst (agent_tree r))" using assms by (simp add: registry_inv_def)
  show "live_count (agent_tree (release_reserved_agent_path p r)) = live_count (agent_tree r)"
  proof (cases "map_of (agent_tree r) p")
    case (Some md)
    then have "live_at (agent_tree r) p = of_bool (live md)" by (simp only: live_at_def option.case)
    then show ?thesis
      using live_count_delete[OF d, of p] Some
      by (cases "agent_id md") (simp_all add: release_reserved_agent_path_def live_def del: map_of_eq_Some_iff)
  qed (simp add: release_reserved_agent_path_def)
qed

lemma release_entry_count:
  assumes "registry_inv r" "release_entry t r = (dec, r')"
  shows "live_count (agent_tree r') + of_bool dec = live_count (agent_tree r)" "total_count r' = total_count r"
proof -
  have inv: "owned (map_of (thread_paths r)) (map_of (agent_tree r))" "distinct (map fst (agent_tree r))"
    using assms(1) by (simp_all add: registry_inv_def)
  show "live_count (agent_tree r') + of_bool dec = live_count (agent_tree r)"
  proof (cases "map_of (thread_paths r) t")
    case (Some k)
    then obtain md where md: "map_of (agent_tree r) k = Some md" "agent_id md = Some t" using ownedD[OF inv(1)] by blast
    then show ?thesis
      using assms(2) Some live_count_delete[OF inv(2), of k]
      by (auto simp: release_entry_def Let_def live_at_def live_def simp del: map_of_eq_Some_iff)
  qed (use assms(2) in \<open>simp add: release_entry_def\<close>)
  show "total_count r' = total_count r"
    using assms(2) by (auto simp: release_entry_def Let_def split: option.splits)
qed

lemma register_root_count:
  assumes "registry_inv r"
  shows "live_count (agent_tree (register_root_thread t r)) = live_count (agent_tree r)"
    "total_count (register_root_thread t r) = total_count r"
proof -
  let ?md = "default_metadata\<lparr>agent_id := Some t, agent_path := Some ROOT_PATH\<rparr>"
  have "\<not> live ?md" by (simp add: live_def counted_def is_root_path_def default_metadata_def)
  then show "live_count (agent_tree (register_root_thread t r)) = live_count (agent_tree r)"
    using live_count_update[of "agent_tree r" ROOT_PATH ?md] assms
    by (cases "map_of (agent_tree r) ROOT_PATH")
       (auto simp: register_root_thread_def Let_def live_at_def registry_inv_def split: option.split simp del: map_of_eq_Some_iff)
qed (auto simp: register_root_thread_def Let_def split: option.split)

lemma nickname_fields:
  "agent_tree (snd (reserve_agent_nickname pick names pref r)) = agent_tree r"
  "thread_paths (snd (reserve_agent_nickname pick names pref r)) = thread_paths r"
  "total_count (snd (reserve_agent_nickname pick names pref r)) = total_count r"
  by (auto simp: reserve_agent_nickname_def Let_def split: option.split)

section \<open>Runs\<close>

definition system_inv :: "'i registry_system \<Rightarrow> bool" where
  "system_inv s \<longleftrightarrow> registry_inv (registry s) \<and> distinct (map fst (reservations s)) \<and>
     live_count (agent_tree (registry s)) + length (reservations s) + due_decrements s \<le> total_count (registry s)"

text \<open>
  A commit is orderly when its thread is new and its path is not the root and not taken by a live
  agent; the caller's own placeholder may be there.
\<close>

fun orderly :: "('i \<Rightarrow> rust_str) \<Rightarrow> 'i registry_system \<Rightarrow> 'i registry_action \<Rightarrow> bool" where
  "orderly show_id s (CommitReservation k md) =
     (case agent_id md of
        None \<Rightarrow> False
      | Some t \<Rightarrow> live md \<and> map_of (thread_paths (registry s)) t = None \<and>
          live_at (agent_tree (registry s)) (agent_key show_id t md) = 0)"
| "orderly show_id s _ = True"

definition balanced :: "'i registry_system \<Rightarrow> bool" where
  "balanced s \<longleftrightarrow>
     live_count (agent_tree (registry s)) + length (reservations s) + due_decrements s = total_count (registry s)"

lemma reserve_slot_fields:
  "agent_tree (snd (reserve_spawn_slot m r)) = agent_tree r" "thread_paths (snd (reserve_spawn_slot m r)) = thread_paths r"
  "total_count (snd (reserve_spawn_slot m r)) = total_count r + (case fst (reserve_spawn_slot m r) of Inr _ \<Rightarrow> 1 | Inl _ \<Rightarrow> 0)"
  by (simp_all add: reserve_spawn_slot_def try_increment_spawned_def Let_def split: option.split)

text \<open>One step keeps the inequality, and the equation too when it is orderly.\<close>

lemma registry_exec_inv:
  assumes "system_inv s"
  shows "system_inv (registry_exec show_id a s) \<and> (balanced s \<and> orderly show_id s a \<longrightarrow> balanced (registry_exec show_id a s))"
proof -
  have s: "registry_inv (registry s)" "distinct (map fst (reservations s))"
    "live_count (agent_tree (registry s)) + length (reservations s) + due_decrements s \<le> total_count (registry s)"
    using assms by (simp_all add: system_inv_def)
  show ?thesis
  proof (cases a)
    case (ReserveSlot k m)
    obtain res r where rr: "reserve_spawn_slot m (registry s) = (res, r)" by fastforce
    note f = reserve_slot_fields[of m "registry s", unfolded rr, simplified]
    have "registry_inv r" using s(1) f by (simp add: registry_inv_def)
    then show ?thesis
      using s f ReserveSlot rr by (cases res) (auto simp: system_inv_def balanced_def AList.distinct_update update_length)
  next
    case (ReserveNickname k pick names pref)
    obtain res r where rr: "reserve_agent_nickname pick names pref (registry s) = (res, r)" by fastforce
    note f = nickname_fields[of pick names pref "registry s", unfolded rr, simplified]
    have "registry_inv r" using s(1) f by (simp add: registry_inv_def)
    then show ?thesis
      using assms s f ReserveNickname rr
      by (cases res; cases "map_of (reservations s) k") (auto simp: system_inv_def balanced_def AList.distinct_update update_length)
  next
    case (ReservePath k p)
    obtain res r where rr: "reserve_agent_path p (registry s) = (res, r)" by fastforce
    note f = reserve_path_count[OF s(1), of p, unfolded rr, simplified] reserve_path_inv[OF s(1), of p, unfolded rr, simplified]
    then show ?thesis
      using assms s ReservePath rr
      by (cases res; cases "map_of (reservations s) k") (auto simp: system_inv_def balanced_def AList.distinct_update update_length)
  next
    case (CommitReservation k md)
    show ?thesis
    proof (cases "map_of (reservations s) k")
      case (Some v)
      note e = register_spawned_effect[OF s(1) refl, where show_id = show_id and md = md]
      have len: "length (AList.delete k (reservations s)) + 1 = length (reservations s)"
        by (rule delete_length[OF s(2) Some])
      have "system_inv (registry_exec show_id a s)"
        using s e(1-3) len Some CommitReservation by (simp add: system_inv_def AList.distinct_delete del: map_of_eq_Some_iff)
      moreover have "balanced (registry_exec show_id a s)" if "balanced s" "orderly show_id s a"
        using that e(2) e(4) len Some CommitReservation
        by (auto simp: balanced_def simp del: map_of_eq_Some_iff split: option.splits)
      ultimately show ?thesis by blast
    qed (use assms CommitReservation in simp)
  next
    case (DropReservation k)
    show ?thesis
    proof (cases "map_of (reservations s) k")
      case (Some v)
      have len: "length (AList.delete k (reservations s)) + 1 = length (reservations s)"
        by (rule delete_length[OF s(2) Some])
      show ?thesis
        using s len Some DropReservation release_path_count[OF s(1)] release_path_inv[OF s(1)]
        by (auto simp: system_inv_def balanced_def AList.distinct_delete simp del: map_of_eq_Some_iff split: option.split)
    qed (use assms DropReservation in simp)
  next
    case (ReleaseThread t)
    obtain dec r where rr: "release_entry t (registry s) = (dec, r)" by fastforce
    note c = release_entry_count[OF s(1) rr] release_entry_inv[OF s(1), of t, unfolded rr, simplified]
    then show ?thesis using s ReleaseThread rr by (cases dec) (auto simp: system_inv_def balanced_def)
  next
    case Decrement
    then show ?thesis using s by (auto simp: system_inv_def balanced_def decrement_count_def registry_inv_def)
  next
    case (RegisterRoot t)
    then show ?thesis
      using s register_root_count[OF s(1), of t] register_root_inv[OF s(1), of t] by (auto simp: system_inv_def balanced_def)
  qed
qed

fun orderly_run :: "('i \<Rightarrow> rust_str) \<Rightarrow> 'i registry_system \<Rightarrow> 'i registry_action list \<Rightarrow> bool" where
  "orderly_run show_id s [] = True"
| "orderly_run show_id s (a # as) = (orderly show_id s a \<and> orderly_run show_id (registry_exec show_id a s) as)"

lemma registry_run_inv:
  "system_inv s \<Longrightarrow> system_inv (fold (registry_exec show_id) acts s) \<and>
     (balanced s \<and> orderly_run show_id s acts \<longrightarrow> balanced (fold (registry_exec show_id) acts s))"
proof (induction acts arbitrary: s)
  case (Cons a acts)
  from registry_exec_inv[OF Cons.prems, of show_id a] Cons.IH show ?case by auto
qed simp

lemma initial_inv: "system_inv initial_system" "balanced initial_system"
  by (simp_all add: initial_system_def system_inv_def balanced_def new_registry_inv) (simp_all add: new_registry_def live_count_def)

lemma live_agents_count: "length (live_agents r) = live_count (agent_tree r)"
  by (simp add: live_agents_def live_count_def)

lemma total_within_limit:
  "\<forall>k lim. ReserveSlot k lim \<in> set acts \<longrightarrow> (\<exists>m' \<le> m. lim = Some m') \<Longrightarrow> system_inv s \<Longrightarrow> total_count (registry s) \<le> m \<Longrightarrow>
     total_count (registry (fold (registry_exec show_id) acts s)) \<le> m"
proof (induction acts arbitrary: s)
  case (Cons a acts)
  have inv: "registry_inv (registry s)" using Cons.prems(2) by (simp add: system_inv_def)
  have "total_count (registry (registry_exec show_id a s)) \<le> m"
  proof (cases a)
    case (ReserveSlot k lim)
    then obtain m' where "lim = Some m'" "m' \<le> m" using Cons.prems(1) by auto
    then show ?thesis using ReserveSlot Cons.prems(3)
      by (auto simp: reserve_spawn_slot_def try_increment_spawned_def Let_def split: if_splits)
  next
    case (ReserveNickname k pick names pref)
    then show ?thesis using Cons.prems(3) nickname_fields(3)[of pick names pref "registry s"]
      by (auto split: option.split prod.split)
  next
    case (ReservePath k p)
    then show ?thesis using Cons.prems(3) reserve_path_count(2)[OF inv, of p] by (auto split: option.split prod.split sum.split)
  next
    case (CommitReservation k md)
    then show ?thesis using Cons.prems(3) register_spawned_effect(2)[OF inv refl, where show_id = show_id and md = md]
      by (auto split: option.split)
  next
    case (DropReservation k)
    then show ?thesis using Cons.prems(3) release_path_count(2)[OF inv] by (auto split: option.split)
  next
    case (ReleaseThread t)
    then show ?thesis using Cons.prems(3) release_entry_count(2)[OF inv, of t] by (auto split: prod.split)
  next
    case (RegisterRoot t)
    then show ?thesis using Cons.prems(3) register_root_count(2)[OF inv, of t] by simp
  qed (use Cons.prems(3) in \<open>auto simp: decrement_count_def\<close>)
  with Cons registry_exec_inv[OF Cons.prems(2), of show_id a] show ?case by simp
qed simp

text \<open>
  C5. The limit on sub-agents holds in every interleaving: if every slot is reserved with a limit of
  at most \<open>m\<close>, then after any sequence of reservations, commits, drops, releases and
  registrations, even of disorderly ones that reuse threads or paths, live agents and outstanding
  reservations together are at most \<open>m\<close>, and the counter never drops below their number.
\<close>

theorem agent_limit_respected:
  assumes "\<forall>k lim. ReserveSlot k lim \<in> set acts \<longrightarrow> (\<exists>m' \<le> m. lim = Some m')" "s = registry_run show_id acts"
  shows "length (live_agents (registry s)) + length (reservations s) \<le> total_count (registry s) \<and> total_count (registry s) \<le> m"
  using registry_run_inv[OF initial_inv(1), of show_id acts] total_within_limit[OF assms(1) initial_inv(1), of show_id]
  unfolding assms(2) registry_run_def live_agents_count
  by (simp add: system_inv_def initial_system_def new_registry_def)

definition sample_agent :: "rust_str \<Rightarrow> nat \<Rightarrow> nat agent_metadata" where
  "sample_agent p t = \<lparr>agent_id = Some t, agent_path = Some p, agent_nickname = None, agent_role = None\<rparr>"

definition sample_actions :: "nat registry_action list" where
  "sample_actions = [RegisterRoot 0, ReserveSlot 0 (Some 2), ReservePath 0 ''/root/a'', ReserveSlot 1 (Some 2),
     ReserveSlot 2 (Some 2), CommitReservation 0 (sample_agent ''/root/a'' 1), DropReservation 1, Decrement,
     ReserveSlot 3 (Some 2)]"

theorem agent_limit_respected_witness:
  "length (live_agents (registry (registry_run (\<lambda>_. []) sample_actions))) = 1 \<and>
   length (reservations (registry_run (\<lambda>_. []) sample_actions)) = 1 \<and>
   total_count (registry (registry_run (\<lambda>_. []) sample_actions)) \<le> 2"
proof -
  have "\<forall>k lim. ReserveSlot k lim \<in> set sample_actions \<longrightarrow> (\<exists>m' \<le> 2. lim = Some m')"
    by (simp add: sample_actions_def)
  from agent_limit_respected[OF this refl, of "\<lambda>_. []"]
  have "total_count (registry (registry_run (\<lambda>_. []) sample_actions)) \<le> 2" by blast
  moreover have "length (live_agents (registry (registry_run (\<lambda>_. []) sample_actions))) = 1 \<and>
      length (reservations (registry_run (\<lambda>_. []) sample_actions)) = 1" by code_simp
  ultimately show ?thesis by blast
qed

text \<open>
  C6. No slot leaks: when every commit registers a new thread at a path that no live agent holds,
  the counter is exactly the number of live agents, outstanding reservations and decrements under
  way. A reservation below the limit therefore succeeds whenever there is room, and a registry
  whose agents have all been released and whose reservations are gone counts zero.
\<close>

theorem slots_are_accounted_for:
  assumes "orderly_run show_id initial_system acts" "s = registry_run show_id acts"
  shows "total_count (registry s) = length (live_agents (registry s)) + length (reservations s) + due_decrements s \<and>
    ((\<exists>v r. reserve_spawn_slot (Some m) (registry s) = (Inr v, r)) \<longleftrightarrow>
       length (live_agents (registry s)) + length (reservations s) + due_decrements s < m)"
proof -
  have "total_count (registry s) = length (live_agents (registry s)) + length (reservations s) + due_decrements s"
  proof -
    have "balanced s" using registry_run_inv[OF initial_inv(1), of show_id acts] initial_inv(2) assms(1)
      unfolding assms(2) registry_run_def by blast
    then show ?thesis by (simp add: balanced_def live_agents_count)
  qed
  then show ?thesis
    by (auto simp: reserve_spawn_slot_def try_increment_spawned_def Let_def)
qed

theorem slots_are_accounted_for_witness:
  "total_count (registry (registry_run (\<lambda>_. []) sample_actions)) = 2 \<and>
   \<not> (\<exists>v r. reserve_spawn_slot (Some 2) (registry (registry_run (\<lambda>_. []) sample_actions)) = (Inr v, r))"
proof -
  let ?s = "registry_run (\<lambda>_. []) sample_actions"
  have 1: "orderly_run (\<lambda>_. []) initial_system sample_actions" by code_simp
  have 2: "length (live_agents (registry ?s)) = 1 \<and> length (reservations ?s) = 1 \<and> due_decrements ?s = 0" by code_simp
  from slots_are_accounted_for[OF 1 refl, of 2] 2 show ?thesis by simp
qed

end
