(* ===== verification/Response_Items.thy ===== *)
theory Response_Items
  imports Truncation
begin

text \<open>
  The items of a conversation (\<open>protocol/src/models.rs\<close>) and their envelopes in the history
  (\<open>history/src/lib.rs\<close>). Constructors have the fields of the source in its order. The type
  parameter \<open>'x\<close> stands for values that the history carries but never looks into (JSON values,
  message phases, shell actions, summaries), \<open>'d\<close> for the detail of an image.
\<close>

record 'x passthrough_metadata =
  meta_turn_id :: "rust_str option"
  executed_tool_calls :: "'x list option"

datatype 'd message_content =
  MsgInputText rust_str
| MsgInputImage rust_str "'d option"
| MsgInputAudio rust_str
| MsgOutputText rust_str

datatype agent_message_content = AgentInputText rust_str | AgentEncryptedContent rust_str

datatype 'd output_body = TextBody rust_str | ContentItems "'d content_item list"

record 'd output_payload =
  body :: "'d output_body"
  success :: "bool option"

definition from_text :: "rust_str \<Rightarrow> 'd output_payload" where
  "from_text content = \<lparr>body = TextBody content, success = None\<rparr>"

text \<open>The last field of most constructors is \<open>internal_chat_message_metadata_passthrough\<close>.\<close>

datatype ('d, 'x) response_item =
  AdditionalTools "rust_str option" rust_str "'x list"
    \<comment> \<open>id, role, tools\<close>
| Message "rust_str option" rust_str "'d message_content list" "'x option" "'x passthrough_metadata option"
    \<comment> \<open>id, role, content, phase\<close>
| AgentMessage "rust_str option" rust_str rust_str "agent_message_content list" "'x passthrough_metadata option"
    \<comment> \<open>id, author, recipient, content\<close>
| Reasoning "rust_str option" "'x list" "'x list option" "rust_str option" "'x passthrough_metadata option"
    \<comment> \<open>id, summary, content, encrypted content\<close>
| LocalShellCall "rust_str option" "rust_str option" 'x 'x "'x passthrough_metadata option"
    \<comment> \<open>id, call id, status, action\<close>
| FunctionCall "rust_str option" rust_str "rust_str option" rust_str "rust_str list option" rust_str
    "'x passthrough_metadata option"
    \<comment> \<open>id, name, namespace, arguments, encrypted arguments, call id\<close>
| ToolSearchCall "rust_str option" "rust_str option" "rust_str option" rust_str 'x "'x passthrough_metadata option"
    \<comment> \<open>id, call id, status, execution, arguments\<close>
| FunctionCallOutput "rust_str option" rust_str "'d output_payload" "'x passthrough_metadata option"
    \<comment> \<open>id, call id, output\<close>
| CustomToolCall "rust_str option" "rust_str option" rust_str rust_str "rust_str option" rust_str
    "'x passthrough_metadata option"
    \<comment> \<open>id, status, call id, name, namespace, input\<close>
| CustomToolCallOutput "rust_str option" rust_str "rust_str option" "'d output_payload" "'x passthrough_metadata option"
    \<comment> \<open>id, call id, name, output\<close>
| ToolSearchOutput "rust_str option" "rust_str option" rust_str rust_str "'x list" "'x passthrough_metadata option"
    \<comment> \<open>id, call id, status, execution, tools\<close>
| WebSearchCall "rust_str option" "rust_str option" "'x option" "'x passthrough_metadata option"
    \<comment> \<open>id, status, action\<close>
| ImageGenerationCall "rust_str option" rust_str "rust_str option" rust_str "'x passthrough_metadata option"
    \<comment> \<open>id, status, revised prompt, result\<close>
| Compaction "rust_str option" rust_str "'x passthrough_metadata option"
    \<comment> \<open>id, encrypted content\<close>
| CompactionTrigger
| ContextCompaction "rust_str option" "rust_str option" "'x passthrough_metadata option"
    \<comment> \<open>id, encrypted content\<close>
| OtherItem

fun passthrough :: "('d, 'x) response_item \<Rightarrow> 'x passthrough_metadata option" where
  "passthrough (Message _ _ _ _ m) = m"
| "passthrough (AgentMessage _ _ _ _ m) = m"
| "passthrough (Reasoning _ _ _ _ m) = m"
| "passthrough (LocalShellCall _ _ _ _ m) = m"
| "passthrough (FunctionCall _ _ _ _ _ _ m) = m"
| "passthrough (ToolSearchCall _ _ _ _ _ m) = m"
| "passthrough (FunctionCallOutput _ _ _ m) = m"
| "passthrough (CustomToolCall _ _ _ _ _ _ m) = m"
| "passthrough (CustomToolCallOutput _ _ _ _ m) = m"
| "passthrough (ToolSearchOutput _ _ _ _ _ m) = m"
| "passthrough (WebSearchCall _ _ _ m) = m"
| "passthrough (ImageGenerationCall _ _ _ _ m) = m"
| "passthrough (Compaction _ _ m) = m"
| "passthrough (ContextCompaction _ _ m) = m"
| "passthrough (AdditionalTools _ _ _) = None"
| "passthrough CompactionTrigger = None"
| "passthrough OtherItem = None"

definition item_turn_id :: "('d, 'x) response_item \<Rightarrow> rust_str option" where
  "item_turn_id i =
     (case Option.bind (passthrough i) meta_turn_id of
        Some t \<Rightarrow> if t = [] then None else Some t | None \<Rightarrow> None)"

datatype harness_metadata = CodexHarnessMetadata

record ('d, 'x) envelope =
  env_item :: "('d, 'x) response_item"
  env_metadata :: "harness_metadata option"

definition new_envelope :: "('d, 'x) response_item \<Rightarrow> ('d, 'x) envelope" where
  "new_envelope i = \<lparr>env_item = i, env_metadata = None\<rparr>"

datatype input_modality = TextModality | ImageModality | AudioModality

end
