(* ===== verification/History_Normalize.thy ===== *)
theory History_Normalize
  imports Response_Items
begin

text \<open>
  \<open>core/src/context_manager/normalize.rs\<close>: before a history is sent to the model, every tool call
  must have an output and every output a call, and media that the model cannot read are replaced.
  \<open>uuid_v5\<close> is the name-based UUID under the fixed namespace of the file (crate \<open>uuid\<close>).
  \<open>error_or_panic\<close> logs an error in a release build and panics in a debug build: the operations
  that call it return the messages beside their result.
\<close>

section \<open>Calls without an output\<close>

fun function_output_id :: "('d, 'x) response_item \<Rightarrow> rust_str option" where
  "function_output_id (FunctionCallOutput _ call_id _ _) = Some call_id"
| "function_output_id _ = None"

fun tool_search_output_id :: "('d, 'x) response_item \<Rightarrow> rust_str option" where
  "tool_search_output_id (ToolSearchOutput _ call_id _ _ _ _) = call_id"
| "tool_search_output_id _ = None"

fun custom_tool_output_id :: "('d, 'x) response_item \<Rightarrow> rust_str option" where
  "custom_tool_output_id (CustomToolCallOutput _ call_id _ _ _) = Some call_id"
| "custom_tool_output_id _ = None"

definition ids_of :: "(('d, 'x) response_item \<Rightarrow> rust_str option) \<Rightarrow> ('d, 'x) envelope list \<Rightarrow> rust_str list" where
  "ids_of f items = List.map_filter (\<lambda>e. f (env_item e)) items"

definition synthetic_output_id :: "(rust_str \<Rightarrow> rust_str) \<Rightarrow> rust_str \<Rightarrow> rust_str option \<Rightarrow> rust_str option" where
  "synthetic_output_id uuid_v5 pre item_id =
     (case item_id of
        None \<Rightarrow> None
      | Some source_id \<Rightarrow> if source_id = [] then None else Some (pre @ ''_'' @ uuid_v5 (pre @ '':'' @ source_id)))"

definition aborted :: "'d output_payload" where
  "aborted = from_text ''aborted''"

text \<open>The synthetic output for one call, with the message that \<open>error_or_panic\<close> gets, if any.\<close>

fun missing_output ::
    "(rust_str \<Rightarrow> rust_str) \<Rightarrow> rust_str list \<Rightarrow> rust_str list \<Rightarrow> rust_str list \<Rightarrow> ('d, 'x) response_item \<Rightarrow>
     (('d, 'x) response_item \<times> rust_str list) option" where
  "missing_output uuid_v5 fn_ids search_ids custom_ids (FunctionCall item_id _ _ _ _ call_id _) =
     (if call_id \<notin> set fn_ids
      then Some (FunctionCallOutput (synthetic_output_id uuid_v5 ''fco'' item_id) call_id aborted None, [])
      else None)"
| "missing_output uuid_v5 fn_ids search_ids custom_ids (ToolSearchCall item_id (Some call_id) _ _ _ _) =
     (if call_id \<notin> set search_ids
      then Some (ToolSearchOutput (synthetic_output_id uuid_v5 ''tso'' item_id) (Some call_id) ''completed'' ''client'' [] None, [])
      else None)"
| "missing_output uuid_v5 fn_ids search_ids custom_ids (CustomToolCall item_id _ call_id _ _ _ _) =
     (if call_id \<notin> set custom_ids
      then Some (CustomToolCallOutput (synthetic_output_id uuid_v5 ''ctco'' item_id) call_id None aborted None,
                 [''Custom tool call output is missing for call id: '' @ call_id])
      else None)"
| "missing_output uuid_v5 fn_ids search_ids custom_ids (LocalShellCall item_id (Some call_id) _ _ _) =
     (if call_id \<notin> set fn_ids
      then Some (FunctionCallOutput (synthetic_output_id uuid_v5 ''fco'' item_id) call_id aborted None,
                 [''Local shell call output is missing for call id: '' @ call_id])
      else None)"
| "missing_output uuid_v5 fn_ids search_ids custom_ids _ = None"

definition insert_at :: "nat \<Rightarrow> 'a \<Rightarrow> 'a list \<Rightarrow> 'a list" where
  "insert_at i x xs = take i xs @ x # drop i xs"

definition missing_outputs ::
    "(rust_str \<Rightarrow> rust_str) \<Rightarrow> ('d, 'x) envelope list \<Rightarrow> (nat \<times> ('d, 'x) response_item \<times> rust_str list) list" where
  "missing_outputs uuid_v5 items =
     (let fn_ids = ids_of function_output_id items;
          search_ids = ids_of tool_search_output_id items;
          custom_ids = ids_of custom_tool_output_id items
      in List.map_filter (\<lambda>(idx, e). map_option (Pair idx) (missing_output uuid_v5 fn_ids search_ids custom_ids (env_item e)))
           (List.enumerate 0 items))"

definition ensure_call_outputs_present ::
    "(rust_str \<Rightarrow> rust_str) \<Rightarrow> ('d, 'x) envelope list \<Rightarrow> rust_str list \<times> ('d, 'x) envelope list" where
  "ensure_call_outputs_present uuid_v5 items =
     (let missing = missing_outputs uuid_v5 items
      in (concat (map (\<lambda>(_, _, msgs). msgs) missing),
          fold (\<lambda>(idx, out, _) items. insert_at (idx + 1) (new_envelope out) items) (rev missing) items))"

section \<open>Outputs without a call\<close>

fun function_call_id :: "('d, 'x) response_item \<Rightarrow> rust_str option" where
  "function_call_id (FunctionCall _ _ _ _ _ call_id _) = Some call_id"
| "function_call_id _ = None"

fun tool_search_call_id :: "('d, 'x) response_item \<Rightarrow> rust_str option" where
  "tool_search_call_id (ToolSearchCall _ call_id _ _ _ _) = call_id"
| "tool_search_call_id _ = None"

fun local_shell_call_id :: "('d, 'x) response_item \<Rightarrow> rust_str option" where
  "local_shell_call_id (LocalShellCall _ call_id _ _ _) = call_id"
| "local_shell_call_id _ = None"

fun custom_tool_call_id :: "('d, 'x) response_item \<Rightarrow> rust_str option" where
  "custom_tool_call_id (CustomToolCall _ _ call_id _ _ _ _) = Some call_id"
| "custom_tool_call_id _ = None"

text \<open>The message for an orphan; \<open>None\<close> keeps the item.\<close>

fun orphan_message ::
    "rust_str list \<Rightarrow> rust_str list \<Rightarrow> rust_str list \<Rightarrow> rust_str list \<Rightarrow> ('d, 'x) response_item \<Rightarrow> rust_str option" where
  "orphan_message fn_ids search_ids shell_ids custom_ids (FunctionCallOutput _ call_id _ _) =
     (if call_id \<in> set fn_ids \<or> call_id \<in> set shell_ids then None
      else Some (''Orphan function call output for call id: '' @ call_id))"
| "orphan_message fn_ids search_ids shell_ids custom_ids (CustomToolCallOutput _ call_id _ _ _) =
     (if call_id \<in> set custom_ids then None
      else Some (''Orphan custom tool call output for call id: '' @ call_id))"
| "orphan_message fn_ids search_ids shell_ids custom_ids (ToolSearchOutput _ call_id _ execution _ _) =
     (if execution = ''server'' then None
      else case call_id of
             Some call_id \<Rightarrow>
               if call_id \<in> set search_ids then None
               else Some (''Orphan tool search output for call id: '' @ call_id)
           | None \<Rightarrow> None)"
| "orphan_message fn_ids search_ids shell_ids custom_ids _ = None"

definition remove_orphan_outputs :: "('d, 'x) envelope list \<Rightarrow> rust_str list \<times> ('d, 'x) envelope list" where
  "remove_orphan_outputs items =
     (let orphan = orphan_message (ids_of function_call_id items) (ids_of tool_search_call_id items)
            (ids_of local_shell_call_id items) (ids_of custom_tool_call_id items)
      in (ids_of orphan items, filter (\<lambda>e. orphan (env_item e) = None) items))"

section \<open>Removing the partner of an item\<close>

fun remove_first_matching :: "(('d, 'x) response_item \<Rightarrow> bool) \<Rightarrow> ('d, 'x) envelope list \<Rightarrow> ('d, 'x) envelope list" where
  "remove_first_matching P [] = []"
| "remove_first_matching P (e # es) = (if P (env_item e) then es else e # remove_first_matching P es)"

fun remove_corresponding_for :: "('d, 'x) envelope list \<Rightarrow> ('d, 'x) response_item \<Rightarrow> ('d, 'x) envelope list" where
  "remove_corresponding_for items (FunctionCall _ _ _ _ _ call_id _) =
     remove_first_matching (\<lambda>i. function_output_id i = Some call_id) items"
| "remove_corresponding_for items (FunctionCallOutput _ call_id _ _) =
     (if \<exists>e \<in> set items. function_call_id (env_item e) = Some call_id
      then remove_first_matching (\<lambda>i. function_call_id i = Some call_id) items
      else remove_first_matching (\<lambda>i. local_shell_call_id i = Some call_id) items)"
| "remove_corresponding_for items (ToolSearchCall _ (Some call_id) _ _ _ _) =
     remove_first_matching (\<lambda>i. tool_search_output_id i = Some call_id) items"
| "remove_corresponding_for items (ToolSearchOutput _ (Some call_id) _ _ _ _) =
     remove_first_matching (\<lambda>i. tool_search_call_id i = Some call_id) items"
| "remove_corresponding_for items (CustomToolCall _ _ call_id _ _ _ _) =
     remove_first_matching (\<lambda>i. custom_tool_output_id i = Some call_id) items"
| "remove_corresponding_for items (CustomToolCallOutput _ call_id _ _ _) =
     remove_first_matching (\<lambda>i. custom_tool_call_id i = Some call_id) items"
| "remove_corresponding_for items (LocalShellCall _ (Some call_id) _ _ _) =
     remove_first_matching (\<lambda>i. function_output_id i = Some call_id) items"
| "remove_corresponding_for items _ = items"

section \<open>Media that the model cannot read\<close>

definition IMAGE_CONTENT_OMITTED_PLACEHOLDER :: rust_str where
  "IMAGE_CONTENT_OMITTED_PLACEHOLDER = ''image content omitted because you do not support image input''"

definition AUDIO_CONTENT_OMITTED_PLACEHOLDER :: rust_str where
  "AUDIO_CONTENT_OMITTED_PLACEHOLDER = ''audio content omitted because you do not support audio input''"

fun strip_message_image :: "'d message_content \<Rightarrow> 'd message_content" where
  "strip_message_image (MsgInputImage _ _) = MsgInputText IMAGE_CONTENT_OMITTED_PLACEHOLDER"
| "strip_message_image c = c"

fun strip_output_image :: "'d content_item \<Rightarrow> 'd content_item" where
  "strip_output_image (InputImage _ _) = InputText IMAGE_CONTENT_OMITTED_PLACEHOLDER"
| "strip_output_image c = c"

fun strip_message_audio :: "'d message_content \<Rightarrow> 'd message_content" where
  "strip_message_audio (MsgInputAudio _) = MsgInputText AUDIO_CONTENT_OMITTED_PLACEHOLDER"
| "strip_message_audio c = c"

fun strip_output_audio :: "'d content_item \<Rightarrow> 'd content_item" where
  "strip_output_audio (InputAudio _) = InputText AUDIO_CONTENT_OMITTED_PLACEHOLDER"
| "strip_output_audio c = c"

definition map_content_items :: "('d content_item \<Rightarrow> 'd content_item) \<Rightarrow> 'd output_payload \<Rightarrow> 'd output_payload" where
  "map_content_items f out =
     (case body out of TextBody _ \<Rightarrow> out | ContentItems items \<Rightarrow> out\<lparr>body := ContentItems (map f items)\<rparr>)"

fun strip_images_item :: "('d, 'x) response_item \<Rightarrow> ('d, 'x) response_item" where
  "strip_images_item (Message i r content p m) = Message i r (map strip_message_image content) p m"
| "strip_images_item (FunctionCallOutput i c out m) = FunctionCallOutput i c (map_content_items strip_output_image out) m"
| "strip_images_item (CustomToolCallOutput i c n out m) = CustomToolCallOutput i c n (map_content_items strip_output_image out) m"
| "strip_images_item (ImageGenerationCall i s p _ m) = ImageGenerationCall i s p [] m"
| "strip_images_item i = i"

fun strip_audio_item :: "('d, 'x) response_item \<Rightarrow> ('d, 'x) response_item" where
  "strip_audio_item (Message i r content p m) = Message i r (map strip_message_audio content) p m"
| "strip_audio_item (FunctionCallOutput i c out m) = FunctionCallOutput i c (map_content_items strip_output_audio out) m"
| "strip_audio_item (CustomToolCallOutput i c n out m) = CustomToolCallOutput i c n (map_content_items strip_output_audio out) m"
| "strip_audio_item i = i"

definition map_items :: "(('d, 'x) response_item \<Rightarrow> ('d, 'x) response_item) \<Rightarrow> ('d, 'x) envelope list \<Rightarrow> ('d, 'x) envelope list" where
  "map_items f items = map (\<lambda>e. e\<lparr>env_item := f (env_item e)\<rparr>) items"

definition strip_images_when_unsupported :: "input_modality list \<Rightarrow> ('d, 'x) envelope list \<Rightarrow> ('d, 'x) envelope list" where
  "strip_images_when_unsupported modalities items =
     (if ImageModality \<in> set modalities then items else map_items strip_images_item items)"

definition strip_audio_when_unsupported :: "input_modality list \<Rightarrow> ('d, 'x) envelope list \<Rightarrow> ('d, 'x) envelope list" where
  "strip_audio_when_unsupported modalities items =
     (if AudioModality \<in> set modalities then items else map_items strip_audio_item items)"

section \<open>Calls and outputs are paired\<close>

text \<open>
  Function calls and local shell calls share their outputs; searches and custom tools have
  outputs of their own kind. A search that the server executes may have an output without a call.
\<close>

datatype call_kind = FunctionKind | SearchKind | CustomKind

fun call_key :: "('d, 'x) response_item \<Rightarrow> (call_kind \<times> rust_str) option" where
  "call_key (FunctionCall _ _ _ _ _ call_id _) = Some (FunctionKind, call_id)"
| "call_key (LocalShellCall _ call_id _ _ _) = map_option (Pair FunctionKind) call_id"
| "call_key (ToolSearchCall _ call_id _ _ _ _) = map_option (Pair SearchKind) call_id"
| "call_key (CustomToolCall _ _ call_id _ _ _ _) = Some (CustomKind, call_id)"
| "call_key _ = None"

fun output_key :: "('d, 'x) response_item \<Rightarrow> (call_kind \<times> rust_str) option" where
  "output_key (FunctionCallOutput _ call_id _ _) = Some (FunctionKind, call_id)"
| "output_key (ToolSearchOutput _ call_id _ _ _ _) = map_option (Pair SearchKind) call_id"
| "output_key (CustomToolCallOutput _ call_id _ _ _) = Some (CustomKind, call_id)"
| "output_key _ = None"

fun server_output :: "('d, 'x) response_item \<Rightarrow> bool" where
  "server_output (ToolSearchOutput _ _ _ execution _ _) = (execution = ''server'')"
| "server_output _ = False"

definition keys_of :: "(('d, 'x) response_item \<Rightarrow> (call_kind \<times> rust_str) option) \<Rightarrow> ('d, 'x) envelope list \<Rightarrow> (call_kind \<times> rust_str) list" where
  "keys_of key items = List.map_filter (\<lambda>e. key (env_item e)) items"

definition unanswered :: "(call_kind \<times> rust_str) list \<Rightarrow> ('d, 'x) response_item \<Rightarrow> bool" where
  "unanswered outs i = (case call_key i of Some k \<Rightarrow> k \<notin> set outs | None \<Rightarrow> False)"

definition orphaned :: "(call_kind \<times> rust_str) list \<Rightarrow> ('d, 'x) response_item \<Rightarrow> bool" where
  "orphaned calls i = (case output_key i of Some k \<Rightarrow> \<not> server_output i \<and> k \<notin> set calls | None \<Rightarrow> False)"

definition paired :: "('d, 'x) envelope list \<Rightarrow> bool" where
  "paired items \<longleftrightarrow> (\<forall>e \<in> set items. \<not> unanswered (keys_of output_key items) (env_item e) \<and>
     \<not> orphaned (keys_of call_key items) (env_item e))"

lemma set_keys_of: "k \<in> set (keys_of key items) \<longleftrightarrow> (\<exists>e \<in> set items. key (env_item e) = Some k)"
  unfolding keys_of_def by (simp add: List.map_filter_def image_iff) force

lemma keys_of_Nil [simp]: "keys_of key [] = []"
  by (simp add: keys_of_def List.map_filter_def)

lemma keys_of_Cons: "keys_of key (e # items) = (case key (env_item e) of Some k \<Rightarrow> [k] | None \<Rightarrow> []) @ keys_of key items"
  by (simp add: keys_of_def List.map_filter_def split: option.split)

lemma keys_of_append: "keys_of key (xs @ ys) = keys_of key xs @ keys_of key ys"
  by (induction xs) (simp_all add: keys_of_Cons)

lemma set_ids_of: "c \<in> set (ids_of f items) \<longleftrightarrow> (\<exists>e \<in> set items. f (env_item e) = Some c)"
  unfolding ids_of_def by (simp add: List.map_filter_def image_iff) force

lemma ids_of_empty: "ids_of f items = [] \<longleftrightarrow> (\<forall>e \<in> set items. f (env_item e) = None)"
  using set_ids_of[of _ f items] by (metis empty_iff list.set(1) not_None_eq set_empty subsetI subset_empty)

text \<open>What the sets of ids in the code know about keys.\<close>

lemma output_id_keys:
  "function_output_id i = Some c \<longleftrightarrow> output_key i = Some (FunctionKind, c)"
  "tool_search_output_id i = Some c \<longleftrightarrow> output_key i = Some (SearchKind, c)"
  "custom_tool_output_id i = Some c \<longleftrightarrow> output_key i = Some (CustomKind, c)"
  by (cases i; auto)+

lemma output_ids:
  "c \<in> set (ids_of function_output_id items) \<longleftrightarrow> (FunctionKind, c) \<in> set (keys_of output_key items)"
  "c \<in> set (ids_of tool_search_output_id items) \<longleftrightarrow> (SearchKind, c) \<in> set (keys_of output_key items)"
  "c \<in> set (ids_of custom_tool_output_id items) \<longleftrightarrow> (CustomKind, c) \<in> set (keys_of output_key items)"
  by (simp_all add: set_ids_of set_keys_of output_id_keys)

lemma call_id_keys:
  "tool_search_call_id i = Some c \<longleftrightarrow> call_key i = Some (SearchKind, c)"
  "custom_tool_call_id i = Some c \<longleftrightarrow> call_key i = Some (CustomKind, c)"
  "function_call_id i = Some c \<or> local_shell_call_id i = Some c \<longleftrightarrow> call_key i = Some (FunctionKind, c)"
  by (cases i; auto)+

lemma call_ids:
  "c \<in> set (ids_of tool_search_call_id items) \<longleftrightarrow> (SearchKind, c) \<in> set (keys_of call_key items)"
  "c \<in> set (ids_of custom_tool_call_id items) \<longleftrightarrow> (CustomKind, c) \<in> set (keys_of call_key items)"
  "c \<in> set (ids_of function_call_id items) \<or> c \<in> set (ids_of local_shell_call_id items) \<longleftrightarrow>
     (FunctionKind, c) \<in> set (keys_of call_key items)"
  unfolding set_ids_of set_keys_of call_id_keys[symmetric] by blast+

text \<open>The synthetic output of a call.\<close>

definition aborted_output :: "(rust_str \<Rightarrow> rust_str) \<Rightarrow> ('d, 'x) response_item \<Rightarrow> ('d, 'x) response_item" where
  "aborted_output uuid_v5 i = fst (the (missing_output uuid_v5 [] [] [] i))"

lemma missing_output_ref:
  "map_option fst (missing_output uuid_v5 (ids_of function_output_id items) (ids_of tool_search_output_id items)
     (ids_of custom_tool_output_id items) i) =
   (if unanswered (keys_of output_key items) i then Some (aborted_output uuid_v5 i) else None)"
proof (cases i)
  case (ToolSearchCall a b c d e f)
  then show ?thesis by (cases b) (simp_all add: unanswered_def aborted_output_def output_ids)
next
  case (LocalShellCall a b c d e)
  then show ?thesis by (cases b) (simp_all add: unanswered_def aborted_output_def output_ids)
qed (simp_all add: unanswered_def aborted_output_def output_ids)

lemma aborted_output_keys:
  assumes "call_key i = Some k"
  shows "output_key (aborted_output u i) = Some k" "call_key (aborted_output u i) = None" "\<not> server_output (aborted_output u i)"
proof -
  have "output_key (aborted_output u i) = Some k \<and> call_key (aborted_output u i) = None \<and> \<not> server_output (aborted_output u i)"
    using assms by (cases i) (auto simp: aborted_output_def)
  then show "output_key (aborted_output u i) = Some k" "call_key (aborted_output u i) = None"
    "\<not> server_output (aborted_output u i)" by simp_all
qed

lemma orphan_message_ref:
  "orphan_message (ids_of function_call_id items) (ids_of tool_search_call_id items) (ids_of local_shell_call_id items)
     (ids_of custom_tool_call_id items) i = None \<longleftrightarrow> \<not> orphaned (keys_of call_key items) i"
proof (cases i)
  case (ToolSearchOutput a b c d e f)
  then show ?thesis by (cases b) (simp_all add: orphaned_def call_ids)
qed (use call_ids(3) in \<open>auto simp: orphaned_def call_ids(1,2)\<close>)

section \<open>Pairing as one pass\<close>

text \<open>
  Inserting from the back, as the code does, puts each output right behind its call.
\<close>

lemma insert_missing:
  "length ys = n \<Longrightarrow>
   fold (\<lambda>(idx, out, _) items. insert_at (idx + 1) (new_envelope out) items)
     (rev (List.map_filter (\<lambda>(idx, e). map_option (Pair idx) (f e)) (List.enumerate n xs))) (ys @ xs) =
   ys @ concat (map (\<lambda>e. e # (case f e of Some (out, _) \<Rightarrow> [new_envelope out] | None \<Rightarrow> [])) xs)"
proof (induction xs arbitrary: ys n)
  case (Cons x xs)
  have ih: "fold (\<lambda>(idx, out, _) items. insert_at (idx + 1) (new_envelope out) items)
     (rev (List.map_filter (\<lambda>(idx, e). map_option (Pair idx) (f e)) (List.enumerate (Suc n) xs))) (ys @ x # xs) =
     ys @ x # concat (map (\<lambda>e. e # (case f e of Some (out, _) \<Rightarrow> [new_envelope out] | None \<Rightarrow> [])) xs)"
    using Cons.IH[of "ys @ [x]" "Suc n"] Cons.prems by simp
  show ?case
    using Cons.prems ih by (cases "f x") (auto simp: List.map_filter_def insert_at_def split: prod.split)
qed (simp add: List.map_filter_def)

definition answer :: "(rust_str \<Rightarrow> rust_str) \<Rightarrow> (call_kind \<times> rust_str) list \<Rightarrow> ('d, 'x) envelope \<Rightarrow> ('d, 'x) envelope list" where
  "answer u outs e = (if unanswered outs (env_item e) then [new_envelope (aborted_output u (env_item e))] else [])"

lemma ensure_ref:
  "snd (ensure_call_outputs_present u items) = concat (map (\<lambda>e. e # answer u (keys_of output_key items) e) items)"
proof -
  have 1: "(case missing_output u (ids_of function_output_id items) (ids_of tool_search_output_id items)
      (ids_of custom_tool_output_id items) i of Some (out, _) \<Rightarrow> [new_envelope out] | None \<Rightarrow> []) =
      (if unanswered (keys_of output_key items) i then [new_envelope (aborted_output u i)] else [])" for i
    using missing_output_ref[of u items i]
    by (cases "missing_output u (ids_of function_output_id items) (ids_of tool_search_output_id items)
      (ids_of custom_tool_output_id items) i") (auto split: if_splits)
  show ?thesis
    using insert_missing[of "[]" 0 "\<lambda>e. missing_output u (ids_of function_output_id items) (ids_of tool_search_output_id items)
      (ids_of custom_tool_output_id items) (env_item e)" items]
    unfolding ensure_call_outputs_present_def missing_outputs_def Let_def 1 answer_def by simp
qed

lemma answer_keys:
  "keys_of call_key (answer u outs e) = []"
  "e' \<in> set (answer u outs e) \<Longrightarrow> \<exists>k. call_key (env_item e) = Some k \<and> output_key (env_item e') = Some k \<and> call_key (env_item e') = None"
  by (auto simp: answer_def unanswered_def keys_of_Cons aborted_output_keys new_envelope_def split: option.splits)

lemma ensure_call_keys: "keys_of call_key (snd (ensure_call_outputs_present u items)) = keys_of call_key items"
proof -
  have "keys_of call_key (concat (map (\<lambda>e. e # answer u outs e) items)) = keys_of call_key items" for outs
    by (induction items) (simp_all add: keys_of_Cons keys_of_append answer_keys)
  then show ?thesis by (simp add: ensure_ref)
qed

text \<open>
  The two passes as one: each item in order, without the orphans, and behind each unanswered call
  an output that says it was aborted.
\<close>

definition pair_items :: "(rust_str \<Rightarrow> rust_str) \<Rightarrow> ('d, 'x) envelope list \<Rightarrow> ('d, 'x) envelope list" where
  "pair_items u items =
     concat (map (\<lambda>e. if orphaned (keys_of call_key items) (env_item e) then []
                      else e # answer u (keys_of output_key items) e) items)"

lemma orphan_has_no_call: "orphaned calls i \<Longrightarrow> call_key i = None"
  by (cases i) (auto simp: orphaned_def split: option.splits)

lemma pair_items_ref: "snd (remove_orphan_outputs (snd (ensure_call_outputs_present u items))) = pair_items u items"
proof -
  let ?calls = "keys_of call_key items" and ?outs = "keys_of output_key items"
  have keep: "filter (\<lambda>e. \<not> orphaned ?calls (env_item e)) (e # answer u ?outs e) =
      (if orphaned ?calls (env_item e) then [] else e # answer u ?outs e)" if "e \<in> set items" for e
  proof -
    have "\<not> orphaned ?calls (env_item e')" if "e' \<in> set (answer u ?outs e)" for e'
      using answer_keys(2)[OF that] \<open>e \<in> set items\<close> by (auto simp: orphaned_def set_keys_of)
    then have 1: "filter (\<lambda>e. \<not> orphaned ?calls (env_item e)) (answer u ?outs e) = answer u ?outs e"
      by (simp add: filter_id_conv)
    have "answer u ?outs e = []" if "orphaned ?calls (env_item e)"
      using orphan_has_no_call[OF that] by (simp add: answer_def unanswered_def)
    then show ?thesis using 1 by auto
  qed
  have "snd (remove_orphan_outputs (snd (ensure_call_outputs_present u items))) =
      filter (\<lambda>e. \<not> orphaned ?calls (env_item e)) (concat (map (\<lambda>e. e # answer u ?outs e) items))"
    by (simp add: remove_orphan_outputs_def Let_def orphan_message_ref ensure_call_keys ensure_ref[symmetric])
  also have "\<dots> = concat (map (\<lambda>e. filter (\<lambda>e. \<not> orphaned ?calls (env_item e)) (e # answer u ?outs e)) items)"
    by (simp add: filter_concat comp_def)
  also have "\<dots> = pair_items u items" unfolding pair_items_def by (intro arg_cong[where f = concat] map_cong refl keep)
  finally show ?thesis .
qed

lemma pair_items_paired: "paired (pair_items u items)"
proof -
  let ?calls = "keys_of call_key items" and ?outs = "keys_of output_key items"
  let ?r = "pair_items u items"
  have mem: "e \<in> set ?r \<longleftrightarrow> (\<exists>e0 \<in> set items. \<not> orphaned ?calls (env_item e0) \<and> (e = e0 \<or> e \<in> set (answer u ?outs e0)))" for e
    by (auto simp: pair_items_def)
  have calls: "k \<in> set (keys_of call_key ?r) \<longleftrightarrow> k \<in> set ?calls" for k
    unfolding set_keys_of using mem orphan_has_no_call answer_keys(2) by (metis option.distinct(1))
  have outs: "k \<in> set (keys_of output_key ?r)" if "k \<in> set ?calls" for k
  proof (cases "k \<in> set ?outs")
    case True
    then obtain e where "e \<in> set items" "output_key (env_item e) = Some k" by (auto simp: set_keys_of)
    moreover have "\<not> orphaned ?calls (env_item e)" using calculation(2) that by (simp add: orphaned_def)
    ultimately have "e \<in> set ?r" using mem[of e] by blast
    then show ?thesis using \<open>output_key (env_item e) = Some k\<close> by (auto simp: set_keys_of)
  next
    case False
    from that obtain e where e: "e \<in> set items" "call_key (env_item e) = Some k" by (auto simp: set_keys_of)
    let ?e' = "new_envelope (aborted_output u (env_item e))"
    have "\<not> orphaned ?calls (env_item e)" using orphan_has_no_call[of ?calls "env_item e"] e(2) by auto
    then have "?e' \<in> set ?r" using e False mem[of ?e'] by (auto simp: answer_def unanswered_def)
    then show ?thesis unfolding set_keys_of
      by (rule bexI[rotated]) (simp add: new_envelope_def aborted_output_keys(1)[OF e(2)])
  qed
  show ?thesis unfolding paired_def
  proof (intro ballI conjI)
    fix e assume e: "e \<in> set ?r"
    show "\<not> unanswered (keys_of output_key ?r) (env_item e)"
    proof (cases "call_key (env_item e)")
      case (Some k)
      then have "k \<in> set (keys_of call_key ?r)" using e by (auto simp: set_keys_of)
      then show ?thesis using Some calls outs by (simp add: unanswered_def)
    qed (simp add: unanswered_def)
    have "orphaned (keys_of call_key ?r) (env_item e) = orphaned ?calls (env_item e)"
      by (auto simp: orphaned_def calls split: option.split)
    moreover have "\<not> orphaned ?calls (env_item e)"
      using e mem[of e] answer_keys(2) by (fastforce simp: orphaned_def set_keys_of split: option.splits)
    ultimately show "\<not> orphaned (keys_of call_key ?r) (env_item e)" by simp
  qed
qed

text \<open>Paired items are left alone, and nothing is reported.\<close>

lemma pair_items_id: "paired items \<Longrightarrow> pair_items u items = items"
proof -
  assume p: "paired items"
  have "concat (map (\<lambda>e. if orphaned (keys_of call_key items) (env_item e) then [] else e # answer u (keys_of output_key items) e) es) = es"
    if "set es \<subseteq> set items" for es
    using that p by (induction es) (auto simp: paired_def answer_def)
  then show ?thesis by (simp add: pair_items_def)
qed

section \<open>Stripping keeps the pairs\<close>

fun message_image :: "'d message_content \<Rightarrow> bool" where
  "message_image (MsgInputImage _ _) = True" | "message_image _ = False"

fun message_audio :: "'d message_content \<Rightarrow> bool" where
  "message_audio (MsgInputAudio _) = True" | "message_audio _ = False"

fun output_image :: "'d content_item \<Rightarrow> bool" where
  "output_image (InputImage _ _) = True" | "output_image _ = False"

fun output_audio :: "'d content_item \<Rightarrow> bool" where
  "output_audio (InputAudio _) = True" | "output_audio _ = False"

definition content_items :: "'d output_payload \<Rightarrow> 'd content_item list" where
  "content_items out = (case body out of TextBody _ \<Rightarrow> [] | ContentItems items \<Rightarrow> items)"

fun has_image :: "('d, 'x) response_item \<Rightarrow> bool" where
  "has_image (Message _ _ content _ _) = list_ex message_image content"
| "has_image (FunctionCallOutput _ _ out _) = list_ex output_image (content_items out)"
| "has_image (CustomToolCallOutput _ _ _ out _) = list_ex output_image (content_items out)"
| "has_image (ImageGenerationCall _ _ _ result _) = (result \<noteq> [])"
| "has_image _ = False"

fun has_audio :: "('d, 'x) response_item \<Rightarrow> bool" where
  "has_audio (Message _ _ content _ _) = list_ex message_audio content"
| "has_audio (FunctionCallOutput _ _ out _) = list_ex output_audio (content_items out)"
| "has_audio (CustomToolCallOutput _ _ _ out _) = list_ex output_audio (content_items out)"
| "has_audio _ = False"

lemma strip_keys [simp]:
  "call_key (strip_images_item i) = call_key i" "output_key (strip_images_item i) = output_key i"
  "server_output (strip_images_item i) = server_output i"
  "call_key (strip_audio_item i) = call_key i" "output_key (strip_audio_item i) = output_key i"
  "server_output (strip_audio_item i) = server_output i"
  by (cases i; simp)+

lemma keys_of_map_items: "(\<And>i. key (f i) = key i) \<Longrightarrow> keys_of key (map_items f items) = keys_of key items"
  by (induction items) (simp_all add: keys_of_Cons map_items_def)

lemma paired_map_items:
  assumes "\<And>i. call_key (f i) = call_key i" "\<And>i. output_key (f i) = output_key i" "\<And>i. server_output (f i) = server_output i"
  shows "paired (map_items f items) = paired items"
proof -
  have "unanswered outs (f i) = unanswered outs i" "orphaned calls (f i) = orphaned calls i" for outs calls i
    by (simp_all add: unanswered_def orphaned_def assms split: option.split)
  moreover have "keys_of call_key (map_items f items) = keys_of call_key items"
    "keys_of output_key (map_items f items) = keys_of output_key items"
    by (rule keys_of_map_items, rule assms)+
  ultimately show ?thesis by (simp add: paired_def) (simp add: map_items_def)
qed

lemma strip_paired:
  "paired (strip_images_when_unsupported ms items) = paired items" "paired (strip_audio_when_unsupported ms items) = paired items"
  by (simp_all add: strip_images_when_unsupported_def strip_audio_when_unsupported_def paired_map_items)

lemma stripped_contents [simp]:
  "\<not> message_image (strip_message_image c)" "\<not> output_image (strip_output_image c')"
  "\<not> message_audio (strip_message_audio c)" "\<not> output_audio (strip_output_audio c')"
  "message_image (strip_message_audio c) = message_image c" "output_image (strip_output_audio c') = output_image c'"
  by (cases c; simp; fail | cases c'; simp; fail)+

lemma map_content_items [simp]: "content_items (map_content_items f out) = map f (content_items out)"
  by (simp add: map_content_items_def content_items_def split: output_body.split)

lemma strip_images_removes: "\<not> has_image (strip_images_item i)"
  by (cases i) (simp_all add: list_ex_iff)

lemma strip_audio_removes: "\<not> has_audio (strip_audio_item i)"
  by (cases i) (simp_all add: list_ex_iff)

lemma strip_audio_keeps_images: "has_image (strip_audio_item i) = has_image i"
  by (cases i) (simp_all add: list_ex_iff)

text \<open>An item without images or audio is not touched.\<close>

lemma strip_contents_id:
  "\<not> message_image c \<Longrightarrow> strip_message_image c = c" "\<not> output_image c' \<Longrightarrow> strip_output_image c' = c'"
  "\<not> message_audio c \<Longrightarrow> strip_message_audio c = c" "\<not> output_audio c' \<Longrightarrow> strip_output_audio c' = c'"
  by (cases c; simp; fail | cases c'; simp; fail)+

lemma map_content_items_id: "(\<And>c. c \<in> set (content_items out) \<Longrightarrow> f c = c) \<Longrightarrow> map_content_items f out = out"
  by (auto simp: map_content_items_def content_items_def map_idI split: output_body.splits)

lemma strip_item_id: "\<not> has_image i \<Longrightarrow> strip_images_item i = i" "\<not> has_audio i \<Longrightarrow> strip_audio_item i = i"
  by (cases i; auto simp: list_ex_iff strip_contents_id intro!: map_idI map_content_items_id)+

section \<open>Removing an item with its partner\<close>

definition unambiguous :: "('d, 'x) envelope list \<Rightarrow> bool" where
  "unambiguous items \<longleftrightarrow> distinct (keys_of call_key items) \<and> distinct (keys_of output_key items)"

definition partner :: "('d, 'x) response_item \<Rightarrow> ('d, 'x) response_item \<Rightarrow> bool" where
  "partner i j \<longleftrightarrow> (case call_key i of Some k \<Rightarrow> output_key j = Some k | None \<Rightarrow> False) \<or>
     (case output_key i of Some k \<Rightarrow> call_key j = Some k | None \<Rightarrow> False)"

lemma remove_first_filter:
  assumes "distinct (keys_of key items)" "\<And>i. P i \<Longrightarrow> key i = Some k"
    "(\<exists>e \<in> set items. P (env_item e)) \<or> k \<notin> set (keys_of key items)"
  shows "remove_first_matching P items = filter (\<lambda>e. key (env_item e) \<noteq> Some k) items"
  using assms(1,3)
proof (induction items)
  case (Cons e items)
  have none: "filter (\<lambda>e. key (env_item e) \<noteq> Some k) items = items" if "k \<notin> set (keys_of key items)"
    using that by (auto simp: set_keys_of filter_id_conv)
  show ?case
  proof (cases "P (env_item e)")
    case True
    then have "key (env_item e) = Some k" by (rule assms(2))
    with Cons.prems(1) True none show ?thesis by (simp add: keys_of_Cons)
  next
    case False
    have "key (env_item e) \<noteq> Some k"
    proof
      assume k: "key (env_item e) = Some k"
      then have "k \<notin> set (keys_of key items)" using Cons.prems(1) by (simp add: keys_of_Cons)
      then show False using Cons.prems(2) k False assms(2) by (auto simp: keys_of_Cons set_keys_of)
    qed
    moreover have "distinct (keys_of key items)" "(\<exists>e \<in> set items. P (env_item e)) \<or> k \<notin> set (keys_of key items)"
      using Cons.prems False by (auto simp: keys_of_Cons split: option.splits)
    ultimately show ?thesis using Cons.IH False by simp
  qed
qed simp

lemma remove_corresponding_filter:
  assumes "unambiguous items"
  shows "remove_corresponding_for items i = filter (\<lambda>e. \<not> partner i (env_item e)) items"
proof -
  have d: "distinct (keys_of call_key items)" "distinct (keys_of output_key items)"
    using assms by (simp_all add: unambiguous_def)
  have by_key: "remove_first_matching P items = filter (\<lambda>e. key (env_item e) \<noteq> Some k) items"
    if "distinct (keys_of key items)" "\<And>i. P i \<longleftrightarrow> key i = Some k" for P key k
    using that by (intro remove_first_filter) (auto simp: set_keys_of)
  show ?thesis
  proof (cases i)
    case (FunctionCallOutput a c out m)
    let ?P = "if \<exists>e \<in> set items. function_call_id (env_item e) = Some c
      then (\<lambda>j. function_call_id j = Some c) else (\<lambda>j. local_shell_call_id j = Some c)"
    have "remove_first_matching ?P items = filter (\<lambda>e. call_key (env_item e) \<noteq> Some (FunctionKind, c)) items"
      by (rule remove_first_filter[OF d(1)]) (auto simp: call_id_keys(3)[symmetric] set_keys_of split: if_splits)
    then show ?thesis using FunctionCallOutput by (auto simp: partner_def split: if_splits)
  next
    case (ToolSearchCall a c s x y m)
    then show ?thesis
      using by_key[OF d(2), of "\<lambda>j. tool_search_output_id j = Some (the c)" "(SearchKind, the c)"]
      by (cases c) (auto simp: partner_def output_id_keys)
  next
    case (ToolSearchOutput a c s x y m)
    then show ?thesis
      using by_key[OF d(1), of "\<lambda>j. tool_search_call_id j = Some (the c)" "(SearchKind, the c)"]
      by (cases c) (auto simp: partner_def call_id_keys)
  next
    case (LocalShellCall a c x y m)
    then show ?thesis
      using by_key[OF d(2), of "\<lambda>j. function_output_id j = Some (the c)" "(FunctionKind, the c)"]
      by (cases c) (auto simp: partner_def output_id_keys)
  next
    case (FunctionCall a n s x y c m)
    then show ?thesis
      using by_key[OF d(2), of "\<lambda>j. function_output_id j = Some c" "(FunctionKind, c)"] by (auto simp: partner_def output_id_keys)
  next
    case (CustomToolCall a n c x y z m)
    then show ?thesis
      using by_key[OF d(2), of "\<lambda>j. custom_tool_output_id j = Some c" "(CustomKind, c)"] by (auto simp: partner_def output_id_keys)
  next
    case (CustomToolCallOutput a c x y m)
    then show ?thesis
      using by_key[OF d(1), of "\<lambda>j. custom_tool_call_id j = Some c" "(CustomKind, c)"] by (auto simp: partner_def call_id_keys)
  qed (simp_all add: partner_def)
qed

lemma keys_of_filter_distinct: "distinct (keys_of key items) \<Longrightarrow> distinct (keys_of key (filter P items))"
proof (induction items)
  case (Cons e items)
  then show ?case by (cases "key (env_item e)") (auto simp: keys_of_Cons set_keys_of)
qed simp

lemma key_exclusive: "call_key i = Some k \<Longrightarrow> output_key i = None"
  by (cases i) auto

lemma remove_corresponding_paired:
  assumes "paired (e # items)" "unambiguous (e # items)"
  shows "paired (remove_corresponding_for items (env_item e))" "unambiguous (remove_corresponding_for items (env_item e))"
proof -
  have un: "unambiguous items" using assms(2) by (simp add: unambiguous_def keys_of_Cons)
  let ?r = "filter (\<lambda>e'. \<not> partner (env_item e) (env_item e')) items"
  have r: "remove_corresponding_for items (env_item e) = ?r" by (rule remove_corresponding_filter[OF un])
  show "unambiguous (remove_corresponding_for items (env_item e))"
    using un unfolding r by (simp add: unambiguous_def keys_of_filter_distinct)
  have fresh: "call_key (env_item e) = Some k \<Longrightarrow> k \<notin> set (keys_of call_key items)"
    "output_key (env_item e) = Some k \<Longrightarrow> k \<notin> set (keys_of output_key items)" for k
    using assms(2) by (auto simp: unambiguous_def keys_of_Cons)
  show "paired (remove_corresponding_for items (env_item e))" unfolding r paired_def
  proof (intro ballI conjI)
    fix e' assume e': "e' \<in> set ?r"
    then have in_items: "e' \<in> set items" and np: "\<not> partner (env_item e) (env_item e')" by simp_all
    have p: "\<not> unanswered (keys_of output_key (e # items)) (env_item e')" "\<not> orphaned (keys_of call_key (e # items)) (env_item e')"
      using assms(1) in_items by (simp_all add: paired_def)
    show "\<not> unanswered (keys_of output_key ?r) (env_item e')"
    proof (cases "call_key (env_item e')")
      case (Some k)
      then have "k \<in> set (keys_of output_key (e # items))" "output_key (env_item e) \<noteq> Some k"
        using p(1) np by (auto simp: unanswered_def partner_def split: option.splits)
      then obtain out where out: "out \<in> set items" "output_key (env_item out) = Some k" by (auto simp: set_keys_of)
      have "call_key (env_item e) \<noteq> Some k" using fresh(1)[of k] Some in_items by (auto simp: set_keys_of)
      then have "\<not> partner (env_item e) (env_item out)" using out(2) key_exclusive by (fastforce simp: partner_def split: option.splits)
      then show ?thesis using out Some by (auto simp: unanswered_def set_keys_of)
    qed (simp add: unanswered_def)
    show "\<not> orphaned (keys_of call_key ?r) (env_item e')"
    proof (cases "output_key (env_item e')")
      case (Some k)
      show ?thesis
      proof (cases "server_output (env_item e')")
        case False
        then have "k \<in> set (keys_of call_key (e # items))" "call_key (env_item e) \<noteq> Some k"
          using p(2) np Some by (auto simp: orphaned_def partner_def split: option.splits)
        then obtain c where c: "c \<in> set items" "call_key (env_item c) = Some k" by (auto simp: set_keys_of)
        have "output_key (env_item e) \<noteq> Some k" using fresh(2)[of k] Some in_items by (auto simp: set_keys_of)
        then have "\<not> partner (env_item e) (env_item c)" using c(2) key_exclusive by (fastforce simp: partner_def split: option.splits)
        then show ?thesis using c Some by (auto simp: orphaned_def set_keys_of)
      qed (simp add: orphaned_def Some)
    qed (simp add: orphaned_def)
  qed
qed


lemma paired_stable:
  assumes "paired es"
  shows "ensure_call_outputs_present u es = ([], es)" "remove_orphan_outputs es = ([], es)"
proof -
  let ?m = "missing_output u (ids_of function_output_id es) (ids_of tool_search_output_id es) (ids_of custom_tool_output_id es)"
  have none: "?m (env_item e) = None" if "e \<in> set es" for e
    using missing_output_ref[of u es "env_item e"] assms that by (simp add: paired_def)
  have "missing_outputs u es = []"
    unfolding missing_outputs_def Let_def List.map_filter_def
    by (auto simp: filter_empty_conv none dest!: in_set_enumerate_eq[THEN iffD1])
  then show "ensure_call_outputs_present u es = ([], es)" by (simp add: ensure_call_outputs_present_def)
  have "orphan_message (ids_of function_call_id es) (ids_of tool_search_call_id es) (ids_of local_shell_call_id es)
      (ids_of custom_tool_call_id es) (env_item e) = None" if "e \<in> set es" for e
    using assms that by (simp add: orphan_message_ref paired_def)
  then show "remove_orphan_outputs es = ([], es)"
    by (simp add: remove_orphan_outputs_def Let_def ids_of_empty filter_id_conv)
qed

end
