(* ===== verification/Context_Fragments.thy ===== *)
theory Context_Fragments
  imports Truncation
begin

text \<open>
  Context that the program injects into the conversation as user messages, and how it is told from
  what the user wrote: the trait \<open>ContextualUserFragment\<close> (\<open>context-fragments/src/fragment.rs\<close>), the
  fragment types under \<open>core/src/context\<close> and their recognition in \<open>contextual_user_message.rs\<close>.
  Bodies that other code has already printed (JSON, the environment, numbers) are given as text.
\<close>

section \<open>Markers\<close>

text \<open>
  \<open>get(..n)\<close> and \<open>get(n..)\<close> are \<open>None\<close> at a position inside a character; a text that compares equal to
  an ASCII marker has none there.
\<close>

definition starts_with_ignore_case :: "rust_str \<Rightarrow> rust_str \<Rightarrow> bool" where
  "starts_with_ignore_case text marker \<longleftrightarrow>
     length marker \<le> length text \<and> eq_ignore_ascii_case (take (length marker) text) marker"

definition matches_marked_text :: "rust_str \<Rightarrow> rust_str \<Rightarrow> rust_str \<Rightarrow> bool" where
  "matches_marked_text start_marker end_marker text =
     (if start_marker = [] \<or> end_marker = [] then False
      else (let trimmed = trim_start text;
                starts = starts_with_ignore_case trimmed start_marker;
                trimmed = trim_end trimmed
            in starts \<and> eq_ignore_ascii_case (drop (length trimmed - length end_marker) trimmed) end_marker))"

section \<open>Fragments\<close>

datatype user_fragment =
  UserInstructions "rust_str option" rust_str                     \<comment> \<open>directory, text\<close>
| EnvironmentContext rust_str
| AdditionalContext rust_str rust_str                             \<comment> \<open>key, value\<close>
| SkillInstructions rust_str rust_str "rust_str option" rust_str  \<comment> \<open>name, path, resource access, contents\<close>
| UserShellCommand rust_str rust_str rust_str rust_str            \<comment> \<open>command, exit code, seconds, output\<close>
| TurnAborted rust_str
| SubagentNotification rust_str
| InternalModelContext rust_str rust_str                          \<comment> \<open>source, body\<close>
| RecommendedPlugins "(rust_str \<times> rust_str) list"                \<comment> \<open>names and ids\<close>

fun type_markers :: "user_fragment \<Rightarrow> rust_str \<times> rust_str" where
  "type_markers (UserInstructions _ _) = (''# AGENTS.md instructions'', ''</INSTRUCTIONS>'')"
| "type_markers (EnvironmentContext _) = (''<environment_context>'', ''</environment_context>'')"
| "type_markers (AdditionalContext _ _) = (''<external_'', ''>'')"
| "type_markers (SkillInstructions _ _ _ _) = (''<skill>'', ''</skill>'')"
| "type_markers (UserShellCommand _ _ _ _) = (''<user_shell_command>'', ''</user_shell_command>'')"
| "type_markers (TurnAborted _) = (''<turn_aborted>'', ''</turn_aborted>'')"
| "type_markers (SubagentNotification _) = (''<subagent_notification>'', ''</subagent_notification>'')"
| "type_markers (InternalModelContext _ _) = (''<codex_internal_context'', ''</codex_internal_context>'')"
| "type_markers (RecommendedPlugins _) = (''<recommended_plugins>'', ''</recommended_plugins>'')"

definition MAX_ADDITIONAL_CONTEXT_VALUE_TOKENS :: nat where "MAX_ADDITIONAL_CONTEXT_VALUE_TOKENS = 1000"

definition additional_context_body :: "rust_str \<Rightarrow> rust_str \<Rightarrow> rust_str" where
  "additional_context_body key v =
     (let v = fst (truncate_middle_with_token_budget v MAX_ADDITIONAL_CONTEXT_VALUE_TOKENS)
      in key @ ''>'' @ v @ ''</external_'' @ key)"

abbreviation nl :: rust_str where "nl \<equiv> [newline]"

definition RECOMMENDED_PLUGINS_INTRO :: rust_str where
  "RECOMMENDED_PLUGINS_INTRO = ''Here is a list of plugins that are available but not installed.''"

definition user_instructions_body :: "rust_str option \<Rightarrow> rust_str \<Rightarrow> rust_str" where
  "user_instructions_body directory text =
     (case directory of Some d \<Rightarrow> '' for '' @ d | None \<Rightarrow> []) @ nl @ nl @ ''<INSTRUCTIONS>'' @ nl @ text @ nl"

definition skill_instructions_body :: "rust_str \<Rightarrow> rust_str \<Rightarrow> rust_str option \<Rightarrow> rust_str \<Rightarrow> rust_str" where
  "skill_instructions_body name path access contents =
     nl @ ''<name>'' @ name @ ''</name>'' @ nl @ ''<path>'' @ path @ ''</path>'' @
     (case access of Some metadata \<Rightarrow> nl @ ''<resource_access>'' @ metadata @ ''</resource_access>'' | None \<Rightarrow> []) @
     nl @ contents @ nl"

definition user_shell_command_body :: "rust_str \<Rightarrow> rust_str \<Rightarrow> rust_str \<Rightarrow> rust_str \<Rightarrow> rust_str" where
  "user_shell_command_body command exit_code duration out =
     nl @ ''<command>'' @ nl @ command @ nl @ ''</command>'' @ nl @ ''<result>'' @ nl @ ''Exit code: '' @ exit_code @ nl @
     ''Duration: '' @ duration @ '' seconds'' @ nl @ ''Output:'' @ nl @ out @ nl @ ''</result>'' @ nl"

definition turn_aborted_body :: "rust_str \<Rightarrow> rust_str" where
  "turn_aborted_body guidance = nl @ guidance @ nl"

definition subagent_notification_body :: "rust_str \<Rightarrow> rust_str" where
  "subagent_notification_body json = nl @ json @ nl"

definition internal_context_body :: "rust_str \<Rightarrow> rust_str \<Rightarrow> rust_str" where
  "internal_context_body source text = '' source='' @ [CHR 34] @ source @ [CHR 34] @ ''>'' @ nl @ text @ nl"

definition recommended_plugins_body :: "(rust_str \<times> rust_str) list \<Rightarrow> rust_str" where
  "recommended_plugins_body plugins =
     nl @ RECOMMENDED_PLUGINS_INTRO @ nl @ nl @ join_with nl (map (\<lambda>(name, pid). ''- '' @ name @ '' ('' @ pid @ '')'') plugins) @ nl"

fun fragment_body :: "user_fragment \<Rightarrow> rust_str" where
  "fragment_body (UserInstructions directory text) = user_instructions_body directory text"
| "fragment_body (EnvironmentContext text) = text"
| "fragment_body (AdditionalContext key v) = additional_context_body key v"
| "fragment_body (SkillInstructions name path access contents) = skill_instructions_body name path access contents"
| "fragment_body (UserShellCommand command exit_code duration out) = user_shell_command_body command exit_code duration out"
| "fragment_body (TurnAborted guidance) = turn_aborted_body guidance"
| "fragment_body (SubagentNotification json) = subagent_notification_body json"
| "fragment_body (InternalModelContext source text) = internal_context_body source text"
| "fragment_body (RecommendedPlugins plugins) = recommended_plugins_body plugins"

definition render_fragment :: "user_fragment \<Rightarrow> rust_str" where
  "render_fragment f =
     (case type_markers f of (start_marker, end_marker) \<Rightarrow>
        if start_marker = [] \<and> end_marker = [] then fragment_body f
        else start_marker @ fragment_body f @ end_marker)"

section \<open>Recognition\<close>

definition additional_context_matches :: "rust_str \<Rightarrow> bool" where
  "additional_context_matches text =
     (case strip_prefix ''<external_'' (trim text) of
        None \<Rightarrow> False
      | Some rest \<Rightarrow>
          (case split_once_str ''>'' rest of
             None \<Rightarrow> False
           | Some (key, value_and_close) \<Rightarrow> suffix (''</external_'' @ key @ ''>'') value_and_close))"

definition is_ascii_lowercase :: "char \<Rightarrow> bool" where
  "is_ascii_lowercase c \<longleftrightarrow> 97 \<le> byte_of c \<and> byte_of c \<le> 122"

definition is_valid_source :: "rust_str \<Rightarrow> bool" where
  "is_valid_source source =
     (case source of
        [] \<Rightarrow> False
      | first # rest \<Rightarrow> is_ascii_lowercase first \<and>
          list_all (\<lambda>c. is_ascii_lowercase c \<or> (48 \<le> byte_of c \<and> byte_of c \<le> 57) \<or> c = CHR ''_'') rest)"

definition matches_legacy_goal_context :: "rust_str \<Rightarrow> bool" where
  "matches_legacy_goal_context text \<longleftrightarrow> prefix ''<goal_context>'' text \<and> suffix ''</goal_context>'' text"

definition internal_context_matches :: "rust_str \<Rightarrow> bool" where
  "internal_context_matches text =
     (let trimmed = trim text
      in if matches_legacy_goal_context trimmed then True
         else case Option.bind (strip_prefix ''<codex_internal_context'' trimmed) (strip_prefix ('' source='' @ [CHR 34])) of
                None \<Rightarrow> False
              | Some rest \<Rightarrow>
                  (case split_once_str ([CHR 34] @ ''>'') rest of
                     None \<Rightarrow> False
                   | Some (source, body_and_close) \<Rightarrow>
                       is_valid_source source \<and> suffix ''</codex_internal_context>'' body_and_close))"

definition legacy_exec_limit_matches :: "rust_str \<Rightarrow> bool" where
  "legacy_exec_limit_matches text \<longleftrightarrow>
     prefix ''Warning: The maximum number of unified exec processes you can keep open is'' (trim text)"

definition legacy_apply_patch_matches :: "rust_str \<Rightarrow> bool" where
  "legacy_apply_patch_matches text \<longleftrightarrow>
     prefix ''Warning: apply_patch was requested via '' (trim text) \<and>
     suffix ''Use the apply_patch tool instead of exec_command.'' (trim text)"

definition legacy_model_mismatch_matches :: "rust_str \<Rightarrow> bool" where
  "legacy_model_mismatch_matches text \<longleftrightarrow>
     prefix ''Warning: Your account was flagged for potentially high-risk cyber activity'' (trim text)"

definition CONTEXTUAL_USER_FRAGMENT_MATCHERS :: "(rust_str \<Rightarrow> bool) list" where
  "CONTEXTUAL_USER_FRAGMENT_MATCHERS =
     [matches_marked_text ''# AGENTS.md instructions'' ''</INSTRUCTIONS>'',
      matches_marked_text ''<environment_context>'' ''</environment_context>'',
      additional_context_matches,
      matches_marked_text ''<skill>'' ''</skill>'',
      matches_marked_text ''<user_shell_command>'' ''</user_shell_command>'',
      matches_marked_text ''<turn_aborted>'' ''</turn_aborted>'',
      matches_marked_text ''<subagent_notification>'' ''</subagent_notification>'',
      internal_context_matches,
      matches_marked_text ''<recommended_plugins>'' ''</recommended_plugins>'',
      legacy_exec_limit_matches, legacy_apply_patch_matches, legacy_model_mismatch_matches]"

definition is_standard_contextual_user_text :: "rust_str \<Rightarrow> bool" where
  "is_standard_contextual_user_text text = list_ex (\<lambda>matches_text. matches_text text) CONTEXTUAL_USER_FRAGMENT_MATCHERS"

text \<open>The XML parser (crate \<open>quick-xml\<close>) is a parameter: the run id and the text of a hook prompt.\<close>

definition parse_hook_prompt_fragment :: "(rust_str \<Rightarrow> (rust_str \<times> rust_str) option) \<Rightarrow> rust_str \<Rightarrow> (rust_str \<times> rust_str) option" where
  "parse_hook_prompt_fragment from_xml text =
     (case from_xml (trim text) of
        None \<Rightarrow> None
      | Some (hook_run_id, text) \<Rightarrow> if trim hook_run_id = [] then None else Some (hook_run_id, text))"

definition contextual_user_text :: "(rust_str \<Rightarrow> (rust_str \<times> rust_str) option) \<Rightarrow> rust_str \<Rightarrow> bool" where
  "contextual_user_text from_xml text \<longleftrightarrow>
     parse_hook_prompt_fragment from_xml text \<noteq> None \<or> is_standard_contextual_user_text text"

section \<open>What is rendered is recognised\<close>

lemma eq_ignore_ascii_case_refl [simp]: "eq_ignore_ascii_case s s"
  by (simp add: eq_ignore_ascii_case_def)

text \<open>A text between an ASCII start and end that are not blank is not changed by trimming.\<close>

definition solid :: "rust_str \<Rightarrow> bool" where
  "solid s \<longleftrightarrow> s \<noteq> [] \<and> ascii s \<and> \<not> is_whitespace [hd s] \<and> trim_end s = s"

lemma trim_marked:
  assumes "solid a" "solid b" "utf8_closed x"
  shows "trim_start (a @ x @ b) = a @ x @ b" "trim_end (a @ x @ b) = a @ x @ b" "trim (a @ x @ b) = a @ x @ b"
proof -
  obtain c cs where a: "a = c # cs" using assms(1) by (cases a) (auto simp: solid_def)
  show start: "trim_start (a @ x @ b) = a @ x @ b"
    using trim_start_keep[of c "cs @ x @ b"] assms(1) by (simp add: a solid_def ascii_def)
  have "utf8_closed (a @ x)" using assms(1,3) utf8_closed_ascii utf8_closed_append by (auto simp: solid_def)
  from trim_end_append[OF this, of b] show "trim_end (a @ x @ b) = a @ x @ b" using assms(2) by (simp add: solid_def)
  then show "trim (a @ x @ b) = a @ x @ b" by (simp add: trim_def start)
qed

lemma marked_matches:
  assumes "solid a" "solid b" "utf8_closed x"
  shows "matches_marked_text a b (a @ x @ b)"
  using assms trim_marked[OF assms]
  by (simp add: matches_marked_text_def starts_with_ignore_case_def solid_def Let_def)

lemma ascii_show_digits: "ascii (show_digits k n)"
  by (induction k arbitrary: n) auto

lemma marker_closed: "utf8_closed (format_truncation_marker t n)"
proof -
  have "ascii (show_usize n @ (if t then '' tokens truncated'' else '' chars truncated''))"
    by (simp add: show_usize_def ascii_show_digits)
  moreover have "utf8_closed ellipsis" by code_simp
  ultimately show ?thesis
    unfolding format_truncation_marker_def using utf8_closed_ascii utf8_closed_append by (metis append.assoc)
qed

lemma truncated_closed:
  assumes "utf8_valid s" "length s \<le> usize_max"
  shows "utf8_closed (fst (truncate_middle_with_token_budget s n))"
proof -
  have "utf8_closed (truncate_with_byte_estimate s m True)" for m
  proof (cases "s = [] \<or> m = 0 \<or> length s \<le> m")
    case True
    then show ?thesis using utf8_valid_closed[OF assms(1)] marker_closed by (auto simp: truncate_with_byte_estimate_def)
  next
    case False
    obtain k left right where sp: "split_string s (m div 2) (m - m div 2) = (k, left, right)" by (metis prod_cases3)
    have "m div 2 + (m - m div 2) < length s" using False by simp
    from removed_part[OF assms this sp] have "utf8_valid left" "utf8_valid right" by blast+
    then show ?thesis using False sp utf8_valid_closed marker_closed
      by (simp add: truncate_with_byte_estimate_def split_budget_def Let_def assemble_truncated_output_def utf8_closed_append)
  qed
  then show ?thesis using utf8_valid_closed[OF assms(1)] by (simp add: truncate_middle_with_token_budget_def Let_def)
qed

fun fragment_texts :: "user_fragment \<Rightarrow> rust_str list" where
  "fragment_texts (UserInstructions d t) = t # (case d of Some d \<Rightarrow> [d] | None \<Rightarrow> [])"
| "fragment_texts (EnvironmentContext t) = [t]"
| "fragment_texts (AdditionalContext k v) = [k, v]"
| "fragment_texts (SkillInstructions n p a c) = [n, p, c] @ (case a of Some a \<Rightarrow> [a] | None \<Rightarrow> [])"
| "fragment_texts (UserShellCommand c e d u) = [c, e, d, u]"
| "fragment_texts (TurnAborted g) = [g]"
| "fragment_texts (SubagentNotification j) = [j]"
| "fragment_texts (InternalModelContext s t) = [s, t]"
| "fragment_texts (RecommendedPlugins ps) = concat (map (\<lambda>(n, i). [n, i]) ps)"

text \<open>
  Fragments of Rust strings, with a key that does not end its own tag and a source that
  \<open>InternalContextSource::new\<close> accepts.
\<close>

fun tag_ok :: "user_fragment \<Rightarrow> bool" where
  "tag_ok (AdditionalContext k _) = (CHR ''>'' \<notin> set k)"
| "tag_ok (InternalModelContext s _) = is_valid_source s"
| "tag_ok _ = True"

definition fragment_ok :: "user_fragment \<Rightarrow> bool" where
  "fragment_ok f \<longleftrightarrow> tag_ok f \<and> list_all (\<lambda>t. utf8_valid t \<and> length t \<le> usize_max) (fragment_texts f)"

lemma join_with_closed: "utf8_closed sep \<Longrightarrow> list_all utf8_closed xs \<Longrightarrow> utf8_closed (join_with sep xs)"
  by (induction sep xs rule: join_with.induct) (auto intro: utf8_closed_append)

lemma literals_closed:
  "utf8_closed nl" "utf8_closed '' for ''" "utf8_closed ''<INSTRUCTIONS>''" "utf8_closed ''>''" "utf8_closed ''</external_''"
  "utf8_closed ''<name>''" "utf8_closed ''</name>''" "utf8_closed ''<path>''" "utf8_closed ''</path>''" "utf8_closed ''<resource_access>''"
  "utf8_closed ''</resource_access>''" "utf8_closed ''<command>''" "utf8_closed ''</command>''" "utf8_closed ''<result>''"
  "utf8_closed ''Exit code: ''" "utf8_closed ''Duration: ''" "utf8_closed '' seconds''" "utf8_closed ''Output:''" "utf8_closed ''</result>''"
  "utf8_closed '' source=''" "utf8_closed [CHR 34]" "utf8_closed RECOMMENDED_PLUGINS_INTRO" "utf8_closed ''- ''" "utf8_closed '' (''"
  "utf8_closed '')''" "utf8_closed []"
  by code_simp+

lemma plugin_line_closed:
  "utf8_closed name \<Longrightarrow> utf8_closed pid \<Longrightarrow> utf8_closed (''- '' @ name @ '' ('' @ pid @ '')'')"
  by (intro utf8_closed_append literals_closed)

lemma body_closed:
  assumes "fragment_ok f"
  shows "utf8_closed (fragment_body f)"
proof -
  have texts: "utf8_closed t" if "t \<in> set (fragment_texts f)" for t
    using assms that utf8_valid_closed by (simp add: fragment_ok_def list_all_iff)
  have trunc: "utf8_closed (fst (truncate_middle_with_token_budget v n))" if "f = AdditionalContext k v" for k v n
    using assms that truncated_closed by (simp add: fragment_ok_def)
  note closed = utf8_closed_append literals_closed
  show ?thesis
  proof (cases f)
    case (UserInstructions d t)
    have "utf8_closed (case d of Some d \<Rightarrow> '' for '' @ d | None \<Rightarrow> [])"
    proof (cases d)
      case (Some dir)
      then show ?thesis unfolding Some option.case by (intro closed) (simp add: texts UserInstructions Some)
    qed (simp add: literals_closed)
    then show ?thesis unfolding UserInstructions fragment_body.simps user_instructions_body_def by (intro closed) (simp_all add: texts UserInstructions)
  next
    case (SkillInstructions n p a c)
    have "utf8_closed (case a of Some m \<Rightarrow> nl @ ''<resource_access>'' @ m @ ''</resource_access>'' | None \<Rightarrow> [])"
    proof (cases a)
      case (Some m)
      then show ?thesis unfolding Some option.case by (intro closed) (simp add: texts SkillInstructions Some)
    qed (simp add: literals_closed)
    then show ?thesis unfolding SkillInstructions fragment_body.simps skill_instructions_body_def by (intro closed) (simp_all add: texts SkillInstructions)
  next
    case (AdditionalContext k v)
    then show ?thesis unfolding AdditionalContext fragment_body.simps additional_context_body_def Let_def
      by (intro closed) (simp_all add: texts trunc AdditionalContext)
  next
    case (RecommendedPlugins ps)
    have "list_all utf8_closed (map (\<lambda>(name, pid). ''- '' @ name @ '' ('' @ pid @ '')'') ps)"
    proof -
      have "utf8_closed n \<and> utf8_closed i" if "(n, i) \<in> set ps" for n i
        using that by (intro conjI texts) (force simp: RecommendedPlugins)+
      then have "utf8_closed (case x of (n, i) \<Rightarrow> ''- '' @ n @ '' ('' @ i @ '')'')" if "x \<in> set ps" for x
        unfolding case_prod_beta using that by (intro plugin_line_closed) (metis prod.collapse)+
      then show ?thesis unfolding list_all_iff set_map by blast
    qed
    then show ?thesis unfolding RecommendedPlugins fragment_body.simps recommended_plugins_body_def by (intro closed join_with_closed) auto
  next
    case (EnvironmentContext t)
    then have "utf8_closed t" using texts by simp_all
    then show ?thesis by (simp add: EnvironmentContext)
  next
    case (UserShellCommand c e d u)
    then have "utf8_closed c" "utf8_closed e" "utf8_closed d" "utf8_closed u" using texts by simp_all
    then show ?thesis unfolding UserShellCommand fragment_body.simps user_shell_command_body_def by (intro closed)
  next
    case (TurnAborted g)
    then have "utf8_closed g" using texts by simp_all
    then show ?thesis unfolding TurnAborted fragment_body.simps turn_aborted_body_def by (intro closed)
  next
    case (SubagentNotification j)
    then have "utf8_closed j" using texts by simp_all
    then show ?thesis unfolding SubagentNotification fragment_body.simps subagent_notification_body_def by (intro closed)
  next
    case (InternalModelContext s t)
    then have "utf8_closed s" "utf8_closed t" using texts by simp_all
    then show ?thesis unfolding InternalModelContext fragment_body.simps internal_context_body_def by (intro closed)
  qed
qed

lemma marked_recognised:
  assumes "matches_marked_text a b \<in> set CONTEXTUAL_USER_FRAGMENT_MATCHERS" "solid a" "solid b" "utf8_closed x"
  shows "is_standard_contextual_user_text (a @ x @ b)"
  using assms(1) marked_matches[OF assms(2-4)] by (auto simp: is_standard_contextual_user_text_def list_ex_iff)

lemma source_no_quote: "is_valid_source s \<Longrightarrow> CHR 34 \<notin> set s"
  by (auto simp: is_valid_source_def is_ascii_lowercase_def list_all_iff split: list.splits)

lemma additional_recognised:
  assumes "fragment_ok (AdditionalContext k v)"
  shows "additional_context_matches (render_fragment (AdditionalContext k v))"
proof -
  let ?v = "fst (truncate_middle_with_token_budget v MAX_ADDITIONAL_CONTEXT_VALUE_TOKENS)"
  have "solid ''<external_''" "solid ''>''" by code_simp+
  note t = trim_marked(3)[OF this body_closed[OF assms]]
  have "split_once_str ''>'' (k @ CHR ''>'' # ?v @ ''</external_'' @ k @ ''>'') = Some (k, ?v @ ''</external_'' @ k @ ''>'')"
    by (rule split_once_str_single) (use assms in \<open>simp add: fragment_ok_def\<close>)
  then show ?thesis using t
    by (simp add: render_fragment_def additional_context_matches_def additional_context_body_def Let_def strip_prefix_def suffix_def)
qed

lemma internal_recognised:
  assumes "fragment_ok (InternalModelContext s t)"
  shows "internal_context_matches (render_fragment (InternalModelContext s t))"
proof -
  have "solid ''<codex_internal_context''" "solid ''</codex_internal_context>''" by code_simp+
  note t = trim_marked(3)[OF this body_closed[OF assms]]
  have s: "is_valid_source s" using assms by (simp add: fragment_ok_def)
  let ?rest = "newline # t @ [newline] @ ''</codex_internal_context>''"
  have "split_once_str [CHR 34, CHR ''>''] (s @ CHR 34 # CHR ''>'' # ?rest) = Some (s, ?rest)"
    by (rule split_once_str_two[OF source_no_quote[OF s]])
  then show ?thesis using t s
    by (simp add: render_fragment_def internal_context_body_def internal_context_matches_def Let_def strip_prefix_def suffix_def)
qed

fun specially_marked :: "user_fragment \<Rightarrow> bool" where
  "specially_marked (AdditionalContext _ _) = True"
| "specially_marked (InternalModelContext _ _) = True"
| "specially_marked _ = False"

lemma markers_solid: "type_markers f = (a, b) \<Longrightarrow> solid a \<and> solid b"
proof -
  have "list_all solid [''# AGENTS.md instructions'', ''</INSTRUCTIONS>'', ''<environment_context>'', ''</environment_context>'',
      ''<external_'', ''>'', ''<skill>'', ''</skill>'', ''<user_shell_command>'', ''</user_shell_command>'', ''<turn_aborted>'',
      ''</turn_aborted>'', ''<subagent_notification>'', ''</subagent_notification>'', ''<codex_internal_context'',
      ''</codex_internal_context>'', ''<recommended_plugins>'', ''</recommended_plugins>'']" by code_simp
  then show "type_markers f = (a, b) \<Longrightarrow> ?thesis" by (cases f) auto
qed

lemma markers_listed:
  "type_markers f = (a, b) \<Longrightarrow> \<not> specially_marked f \<Longrightarrow> matches_marked_text a b \<in> set CONTEXTUAL_USER_FRAGMENT_MATCHERS"
  by (cases f) (auto simp: CONTEXTUAL_USER_FRAGMENT_MATCHERS_def)

lemma rendered_recognised:
  assumes "fragment_ok f"
  shows "is_standard_contextual_user_text (render_fragment f)"
proof (cases "specially_marked f")
  case True
  then show ?thesis using additional_recognised internal_recognised assms
    by (cases f) (auto simp: is_standard_contextual_user_text_def CONTEXTUAL_USER_FRAGMENT_MATCHERS_def)
next
  case False
  obtain a b where m: "type_markers f = (a, b)" by fastforce
  then have "a \<noteq> []" using markers_solid by (auto simp: solid_def)
  then show ?thesis
    using marked_recognised[OF markers_listed[OF m False] _ _ body_closed[OF assms]] markers_solid[OF m]
    by (simp add: render_fragment_def m)
qed

end
