(* ===== verification/Context_Manager.thy ===== *)
theory Context_Manager
  imports History_Normalize Context_Fragments "HOL-Library.Log_Nat"
begin

text \<open>
  \<open>core/src/context_manager/history.rs\<close>: the history of a thread. Items are recorded with their
  tool outputs truncated, normalised for a prompt, dropped from the front when the context is full
  and rolled back by turns. The contextual developer fragments are those of
  \<open>core/src/event_mapping.rs\<close>. Parameters (\<open>history_env\<close>) are the name-based UUID, the token count
  of an audio clip, the JSON test for an instruction from another agent, and the XML parser for the
  prompts of hooks.
  Token usage, the reference context item and the world state are carried, not inspected.
\<close>

section \<open>The state\<close>

record ('d, 'x, 'k, 'c, 'w) context_manager =
  items :: "('d, 'x) envelope list"
  history_version :: nat
  token_info :: "'k option"
  reference_context_item :: "'c option"
  world_state_baseline :: "'w option"

record history_env =
  uuid_v5 :: "rust_str \<Rightarrow> rust_str"
  audio_token_count :: "rust_str \<Rightarrow> nat"
  inter_agent_json :: "rust_str \<Rightarrow> bool"
  hook_xml :: "rust_str \<Rightarrow> (rust_str \<times> rust_str) option"

definition new_manager :: "('d, 'x, 'k, 'c, 'w) context_manager" where
  "new_manager = \<lparr>items = [], history_version = 0, token_info = None, reference_context_item = None,
     world_state_baseline = None\<rparr>"

section \<open>Recording\<close>

text \<open>
  \<open>policy * 1.2\<close> in binary floating point: a natural number is rounded to 53 significant bits, the
  product with the double nearest to 1.2 is rounded again and its ceiling taken. Products are
  scaled by \<open>2 ^ 52\<close>; ties go to the even neighbour.
\<close>

definition round_f64 :: "nat \<Rightarrow> nat" where
  "round_f64 m =
     (let e = floorlog 2 m - 53; q = m div 2 ^ e; r = m mod 2 ^ e; half = 2 ^ e div 2
      in if e = 0 then m else (if r > half \<or> (r = half \<and> odd q) then q + 1 else q) * 2 ^ e)"

definition serialization_budget :: "nat \<Rightarrow> nat" where
  "serialization_budget n =
     (let product = round_f64 (round_f64 n * 0x13333333333333)
      in min ((product + (2 ^ 52 - 1)) div 2 ^ 52) usize_max)"

fun policy_with_serialization_budget :: "truncation_policy \<Rightarrow> truncation_policy" where
  "policy_with_serialization_budget (BytesPolicy n) = BytesPolicy (serialization_budget n)"
| "policy_with_serialization_budget (TokensPolicy n) = TokensPolicy (serialization_budget n)"

definition truncate_function_output_payload :: "(rust_str \<Rightarrow> nat) \<Rightarrow> 'd output_payload \<Rightarrow> truncation_policy \<Rightarrow> 'd output_payload" where
  "truncate_function_output_payload audio_tokens out policy =
     \<lparr>body = (case body out of
                TextBody content \<Rightarrow> TextBody (truncate_text content policy)
              | ContentItems cs \<Rightarrow> ContentItems (truncate_function_output_items_with_policy cs policy audio_tokens)),
      success = success out\<rparr>"

fun is_api_message :: "('d, 'x) response_item \<Rightarrow> bool" where
  "is_api_message (Message _ role _ _ _) = (role \<noteq> ''system'')"
| "is_api_message CompactionTrigger = False"
| "is_api_message OtherItem = False"
| "is_api_message _ = True"

fun process_item :: "(rust_str \<Rightarrow> nat) \<Rightarrow> truncation_policy \<Rightarrow> ('d, 'x) response_item \<Rightarrow> ('d, 'x) response_item" where
  "process_item audio_tokens policy (FunctionCallOutput i c out m) =
     FunctionCallOutput i c (truncate_function_output_payload audio_tokens out (policy_with_serialization_budget policy)) m"
| "process_item audio_tokens policy (CustomToolCallOutput i c n out m) =
     CustomToolCallOutput i c n (truncate_function_output_payload audio_tokens out (policy_with_serialization_budget policy)) m"
| "process_item audio_tokens policy item = item"

definition record_annotated_items ::
    "history_env \<Rightarrow> truncation_policy \<Rightarrow> ('d, 'x) envelope list \<Rightarrow> ('d, 'x, 'k, 'c, 'w) context_manager \<Rightarrow>
     ('d, 'x, 'k, 'c, 'w) context_manager" where
  "record_annotated_items E policy new cm =
     fold (\<lambda>e cm. if \<not> is_api_message (env_item e) then cm
                  else cm\<lparr>items := items cm @ [e\<lparr>env_item := process_item (audio_token_count E) policy (env_item e)\<rparr>]\<rparr>)
       new cm"

definition record_items ::
    "history_env \<Rightarrow> truncation_policy \<Rightarrow> ('d, 'x) response_item list \<Rightarrow> ('d, 'x, 'k, 'c, 'w) context_manager \<Rightarrow>
     ('d, 'x, 'k, 'c, 'w) context_manager" where
  "record_items E policy new cm = record_annotated_items E policy (map new_envelope new) cm"

section \<open>Normalising for a prompt\<close>

text \<open>The messages that go to \<open>error_or_panic\<close>, and the normalised history.\<close>

definition normalize_history ::
    "history_env \<Rightarrow> input_modality list \<Rightarrow> ('d, 'x, 'k, 'c, 'w) context_manager \<Rightarrow>
     rust_str list \<times> ('d, 'x, 'k, 'c, 'w) context_manager" where
  "normalize_history E modalities cm =
     (case ensure_call_outputs_present (uuid_v5 E) (items cm) of (missing, es) \<Rightarrow>
      case remove_orphan_outputs es of (orphans, es) \<Rightarrow>
        (missing @ orphans,
         cm\<lparr>items := strip_audio_when_unsupported modalities (strip_images_when_unsupported modalities es)\<rparr>))"

text \<open>A debug build panics at the first message, which is \<open>None\<close>.\<close>

definition for_prompt_annotated ::
    "bool \<Rightarrow> history_env \<Rightarrow> input_modality list \<Rightarrow> ('d, 'x, 'k, 'c, 'w) context_manager \<Rightarrow> ('d, 'x) envelope list option" where
  "for_prompt_annotated debug_assertions E modalities cm =
     (case normalize_history E modalities cm of
        (messages, cm) \<Rightarrow> if debug_assertions \<and> messages \<noteq> [] then None else Some (items cm))"

definition for_prompt ::
    "bool \<Rightarrow> history_env \<Rightarrow> input_modality list \<Rightarrow> ('d, 'x, 'k, 'c, 'w) context_manager \<Rightarrow> ('d, 'x) response_item list option" where
  "for_prompt debug_assertions E modalities cm =
     map_option (map env_item) (for_prompt_annotated debug_assertions E modalities cm)"

section \<open>Dropping and replacing\<close>

definition remove_first_item :: "('d, 'x, 'k, 'c, 'w) context_manager \<Rightarrow> ('d, 'x, 'k, 'c, 'w) context_manager" where
  "remove_first_item cm =
     (case items cm of
        [] \<Rightarrow> cm
      | removed # es \<Rightarrow> cm\<lparr>items := remove_corresponding_for es (env_item removed), world_state_baseline := None\<rparr>)"

definition replace_annotated ::
    "('d, 'x) envelope list \<Rightarrow> ('d, 'x, 'k, 'c, 'w) context_manager \<Rightarrow> ('d, 'x, 'k, 'c, 'w) context_manager" where
  "replace_annotated es cm =
     cm\<lparr>items := es, history_version := sat_add (history_version cm) 1, world_state_baseline := None\<rparr>"

section \<open>Rolling back turns\<close>

definition model_switch_matches :: "rust_str \<Rightarrow> bool" where
  "model_switch_matches text = matches_marked_text ''<model_switch>'' ''</model_switch>'' text"

definition CONTEXTUAL_DEVELOPER_PREFIXES :: "rust_str list" where
  "CONTEXTUAL_DEVELOPER_PREFIXES =
     [''<permissions instructions>'', ''Approved command prefix saved:'', ''<model_switch>'', ''<apps_instructions>'',
      ''<collaboration_mode>'', ''<multi_agent_mode>'', ''<environments_instructions>'', ''<git_attribution>'',
      ''<plugins_instructions>'', ''<realtime_conversation>'', ''<skills_instructions>'', ''<tools>'',
      ''<personality_spec>'', ''<token_budget>'', ''<context_window>'', ''<context_window_guidance>'', ''<rollout_budget>'']"

fun is_contextual_dev_fragment :: "'d message_content \<Rightarrow> bool" where
  "is_contextual_dev_fragment (MsgInputText text) =
     list_ex (starts_with_ignore_case (trim_start text)) CONTEXTUAL_DEVELOPER_PREFIXES"
| "is_contextual_dev_fragment _ = False"

fun is_contextual_user_fragment :: "history_env \<Rightarrow> 'd message_content \<Rightarrow> bool" where
  "is_contextual_user_fragment E (MsgInputText text) = contextual_user_text (hook_xml E) text"
| "is_contextual_user_fragment E _ = False"

definition is_contextual_user_message_content :: "history_env \<Rightarrow> 'd message_content list \<Rightarrow> bool" where
  "is_contextual_user_message_content E message = list_ex (is_contextual_user_fragment E) message"

definition is_contextual_dev_message_content :: "'d message_content list \<Rightarrow> bool" where
  "is_contextual_dev_message_content message = list_ex is_contextual_dev_fragment message"

definition has_non_contextual_dev_message_content :: "'d message_content list \<Rightarrow> bool" where
  "has_non_contextual_dev_message_content message = list_ex (\<lambda>c. \<not> is_contextual_dev_fragment c) message"

fun is_inter_agent_instruction_content :: "history_env \<Rightarrow> 'd message_content list \<Rightarrow> bool" where
  "is_inter_agent_instruction_content E [MsgInputText text] = inter_agent_json E text"
| "is_inter_agent_instruction_content E [MsgOutputText text] = inter_agent_json E text"
| "is_inter_agent_instruction_content E _ = False"

fun is_user_turn_boundary :: "history_env \<Rightarrow> ('d, 'x) response_item \<Rightarrow> bool" where
  "is_user_turn_boundary E (AgentMessage _ _ _ _ _) = True"
| "is_user_turn_boundary E (Message _ role content _ _) =
     ((role = ''user'' \<and> \<not> is_contextual_user_message_content E content) \<or>
      (role = ''assistant'' \<and> is_inter_agent_instruction_content E content))"
| "is_user_turn_boundary E _ = False"

definition user_message_positions :: "history_env \<Rightarrow> ('d, 'x) envelope list \<Rightarrow> nat list" where
  "user_message_positions E es =
     map fst (filter (\<lambda>(idx, e). is_user_turn_boundary E (env_item e)) (List.enumerate 0 es))"

text \<open>
  One turn of the loop that trims context updates: \<open>None\<close> stops it, \<open>Some\<close> says whether the trimmed
  message was a mixed bundle, which clears the reference context item.
\<close>

fun trim_step :: "history_env \<Rightarrow> ('d, 'x) response_item \<Rightarrow> bool option" where
  "trim_step E (Message _ role content _ _) =
     (if role = ''developer'' \<and> is_contextual_dev_message_content content
      then Some (has_non_contextual_dev_message_content content)
      else if role = ''user'' \<and> is_contextual_user_message_content E content then Some False
      else None)"
| "trim_step E _ = None"

fun trim_pre_turn_context_updates :: "history_env \<Rightarrow> ('d, 'x) envelope list \<Rightarrow> nat \<Rightarrow> nat \<Rightarrow> bool \<Rightarrow> nat \<times> bool" where
  "trim_pre_turn_context_updates E snapshot first_idx 0 clear = (0, clear)"
| "trim_pre_turn_context_updates E snapshot first_idx (Suc k) clear =
     (if first_idx < Suc k
      then case trim_step E (env_item (snapshot ! k)) of
             Some mixed \<Rightarrow> trim_pre_turn_context_updates E snapshot first_idx k (clear \<or> mixed)
           | None \<Rightarrow> (Suc k, clear)
      else (Suc k, clear))"

fun is_model_switch :: "'d message_content \<Rightarrow> bool" where
  "is_model_switch (MsgInputText text) = model_switch_matches text"
| "is_model_switch _ = False"

text \<open>One item of \<open>retain_mut\<close>: the item that stays, if any.\<close>

fun without_model_switch :: "rust_str \<Rightarrow> ('d, 'x) response_item \<Rightarrow> ('d, 'x) response_item option" where
  "without_model_switch first_turn_id (Message i role content p m) =
     (if item_turn_id (Message i role content p m) = Some first_turn_id \<and> role = ''developer''
      then (let content = filter (\<lambda>c. \<not> is_model_switch c) content
            in if content = [] then None else Some (Message i role content p m))
      else Some (Message i role content p m))"
| "without_model_switch first_turn_id item = Some item"

definition retain_without_model_switch :: "rust_str \<Rightarrow> ('d, 'x) envelope list \<Rightarrow> ('d, 'x) envelope list" where
  "retain_without_model_switch first_turn_id es =
     List.map_filter (\<lambda>e. map_option (\<lambda>i. e\<lparr>env_item := i\<rparr>) (without_model_switch first_turn_id (env_item e))) es"

definition drop_last_n_user_turns ::
    "history_env \<Rightarrow> nat \<Rightarrow> ('d, 'x, 'k, 'c, 'w) context_manager \<Rightarrow> ('d, 'x, 'k, 'c, 'w) context_manager" where
  "drop_last_n_user_turns E num_turns cm =
     (if num_turns = 0 then cm
      else (let snapshot = items cm; user_positions = user_message_positions E snapshot
            in case user_positions of
                 [] \<Rightarrow> replace_annotated snapshot cm
               | first_idx # _ \<Rightarrow>
                   (let cut_idx = (if num_turns \<ge> length user_positions then first_idx
                                   else user_positions ! (length user_positions - num_turns))
                    in case trim_pre_turn_context_updates E snapshot first_idx cut_idx False of
                         (cut_idx, clear) \<Rightarrow>
                           (let cm = (if clear then cm\<lparr>reference_context_item := None\<rparr> else cm);
                                retained = take cut_idx snapshot
                            in replace_annotated
                                 (case (if cut_idx = first_idx then item_turn_id (env_item (snapshot ! first_idx)) else None) of
                                    Some first_turn_id \<Rightarrow> retain_without_model_switch first_turn_id retained
                                  | None \<Rightarrow> retained) cm))))"

section \<open>What a prompt contains\<close>

lemma map_items_id: "(\<And>e. e \<in> set es \<Longrightarrow> f (env_item e) = env_item e) \<Longrightarrow> map_items f es = es"
  by (simp add: map_items_def map_idI)

definition strip_media :: "input_modality list \<Rightarrow> ('d, 'x) envelope list \<Rightarrow> ('d, 'x) envelope list" where
  "strip_media modalities es = strip_audio_when_unsupported modalities (strip_images_when_unsupported modalities es)"

lemma strip_media_removes:
  "ImageModality \<notin> set ms \<Longrightarrow> \<forall>e \<in> set (strip_media ms es). \<not> has_image (env_item e)"
  "AudioModality \<notin> set ms \<Longrightarrow> \<forall>e \<in> set (strip_media ms es). \<not> has_audio (env_item e)"
  by (simp_all add: strip_media_def strip_audio_when_unsupported_def strip_images_when_unsupported_def map_items_def
      strip_audio_removes strip_audio_keeps_images strip_images_removes)

lemma strip_media_idem: "strip_media ms (strip_media ms es) = strip_media ms es"
proof -
  let ?r = "strip_media ms es"
  have "strip_images_when_unsupported ms ?r = ?r"
    using strip_media_removes(1)[of ms es]
    by (cases "ImageModality \<in> set ms") (simp_all add: strip_images_when_unsupported_def map_items_id strip_item_id)
  moreover have "strip_audio_when_unsupported ms ?r = ?r"
    using strip_media_removes(2)[of ms es]
    by (cases "AudioModality \<in> set ms") (simp_all add: strip_audio_when_unsupported_def map_items_id strip_item_id)
  ultimately show ?thesis by (simp add: strip_media_def[of ms ?r])
qed

lemma normalized_items: "items (snd (normalize_history E ms cm)) = strip_media ms (pair_items (uuid_v5 E) (items cm))"
  using pair_items_ref[of "uuid_v5 E" "items cm"] by (auto simp: normalize_history_def strip_media_def split: prod.split)

lemma normalized_paired: "paired (items (snd (normalize_history E ms cm)))"
  unfolding normalized_items strip_media_def strip_paired by (rule pair_items_paired)

lemma release_prompt: "for_prompt_annotated False E ms cm = Some (items (snd (normalize_history E ms cm)))"
  by (simp add: for_prompt_annotated_def split: prod.split)

text \<open>
  C17. Whatever the history holds, the prompt made from it has an output for every tool call and a
  call for every output (of a search that the server did not run), and it has no images or audio
  that the model does not read.
\<close>

theorem prompt_is_well_formed:
  "\<exists>es. for_prompt_annotated False E ms cm = Some es \<and> paired es \<and>
     (ImageModality \<notin> set ms \<longrightarrow> (\<forall>e \<in> set es. \<not> has_image (env_item e))) \<and>
     (AudioModality \<notin> set ms \<longrightarrow> (\<forall>e \<in> set es. \<not> has_audio (env_item e)))"
  using normalized_paired[of E ms cm] strip_media_removes[of ms "pair_items (uuid_v5 E) (items cm)"]
  by (simp add: release_prompt normalized_items)

definition history_sample_env :: history_env where
  "history_sample_env = \<lparr>uuid_v5 = (\<lambda>s. s), audio_token_count = length, inter_agent_json = (\<lambda>_. False),
     hook_xml = (\<lambda>t. if t = ''ctx'' then Some (''run'', ''hook'') else None)\<rparr>"

definition history_sample_items :: "(unit, unit) response_item list" where
  "history_sample_items = [Message None ''user'' [MsgInputImage ''u'' None] None None,
     FunctionCall (Some ''i'') ''f'' None [] None ''c1'' None, CustomToolCallOutput None ''c2'' None aborted None,
     Message None ''user'' [MsgInputText ''ctx''] None None, Message None ''user'' [MsgInputText ''hi''] None None]"

definition history_sample_manager :: "(unit, unit, unit, unit, unit) context_manager" where
  "history_sample_manager = new_manager\<lparr>items := map new_envelope history_sample_items\<rparr>"

theorem prompt_is_well_formed_witness:
  "\<exists>es. for_prompt_annotated False history_sample_env [TextModality] history_sample_manager = Some es \<and> paired es \<and>
     (\<forall>e \<in> set es. \<not> has_image (env_item e)) \<and> (\<forall>e \<in> set es. \<not> has_audio (env_item e))"
  using prompt_is_well_formed[of history_sample_env "[TextModality]" history_sample_manager] by simp

text \<open>
  C19. Normalising is one pass over the history: the items stay in order, outputs without a call go,
  and behind each unanswered call comes an output that says it was aborted. Normalising again
  changes nothing and reports nothing.
\<close>

theorem normalize_history_one_pass:
  "items (snd (normalize_history E ms cm)) = strip_media ms (pair_items (uuid_v5 E) (items cm)) \<and>
   normalize_history E ms (snd (normalize_history E ms cm)) = ([], snd (normalize_history E ms cm))"
proof
  let ?n = "snd (normalize_history E ms cm)"
  show "items ?n = strip_media ms (pair_items (uuid_v5 E) (items cm))" by (rule normalized_items)
  have "strip_media ms (items ?n) = items ?n" by (simp add: normalized_items strip_media_idem)
  then show "normalize_history E ms ?n = ([], ?n)"
    using paired_stable(1)[OF normalized_paired[of E ms cm], of "uuid_v5 E"] paired_stable(2)[OF normalized_paired[of E ms cm]]
    by (simp add: normalize_history_def[of E ms ?n] strip_media_def)
qed

text \<open>
  When the context is full the oldest item goes together with its partner: a history whose calls
  and outputs are paired stays paired without being normalised again, and nothing but the first
  item and its partner is lost. Each id is used by at most one call and one output of its kind.
\<close>

theorem remove_first_item_keeps_pairs:
  assumes "items cm = e # es" "paired (items cm)" "unambiguous (items cm)"
  shows "items (remove_first_item cm) = filter (\<lambda>e'. \<not> partner (env_item e) (env_item e')) es \<and>
    paired (items (remove_first_item cm)) \<and> unambiguous (items (remove_first_item cm))"
proof -
  have "items (remove_first_item cm) = remove_corresponding_for es (env_item e)"
    by (simp add: remove_first_item_def assms(1))
  moreover have "unambiguous es" using assms(1,3) by (simp add: unambiguous_def keys_of_Cons)
  ultimately show ?thesis
    using remove_corresponding_paired[of e es] remove_corresponding_filter[of es "env_item e"] assms by simp
qed

theorem remove_first_item_keeps_pairs_witness:
  "let cm = snd (normalize_history history_sample_env [] (remove_first_item history_sample_manager))
   in length (items cm) = 4 \<and> paired (items cm) \<and> unambiguous (items cm) \<and>
      length (items (remove_first_item cm)) = 2 \<and> paired (items (remove_first_item cm))"
proof -
  let ?cm = "snd (normalize_history history_sample_env [] (remove_first_item history_sample_manager))"
  have 1: "items ?cm = hd (items ?cm) # tl (items ?cm)" by code_simp
  have 2: "paired (items ?cm)" "unambiguous (items ?cm)" "length (items ?cm) = 4" "length (items (remove_first_item ?cm)) = 2"
    by code_simp+
  from remove_first_item_keeps_pairs[OF 1 2(1,2)] 2 show ?thesis unfolding Let_def by blast
qed

section \<open>What a rollback keeps\<close>

definition turn_count :: "history_env \<Rightarrow> ('d, 'x) envelope list \<Rightarrow> nat" where
  "turn_count E es = length (filter (\<lambda>e. is_user_turn_boundary E (env_item e)) es)"

lemma positions_from:
  "map fst (filter (\<lambda>(idx, e). P e) (List.enumerate n es)) = filter (\<lambda>i. P (es ! (i - n))) [n..<n + length es]"
proof (induction es arbitrary: n)
  case (Cons e es)
  have "filter (\<lambda>i. P ((e # es) ! (i - n))) [Suc n..<n + length (e # es)] = filter (\<lambda>i. P (es ! (i - Suc n))) [Suc n..<Suc n + length es]"
    by (rule filter_cong) (auto simp: nth_Cons' diff_Suc split: nat.split)
  moreover have "[n..<n + length (e # es)] = n # [Suc n..<n + length (e # es)]" by (simp add: upt_rec)
  ultimately show ?case using Cons.IH[of "Suc n"] by (simp del: upt_Suc)
qed simp

lemma positions_filter:
  "user_message_positions E es = filter (\<lambda>i. is_user_turn_boundary E (env_item (es ! i))) [0..<length es]"
  using positions_from[of "\<lambda>e. is_user_turn_boundary E (env_item e)" 0 es] by (simp add: user_message_positions_def)

lemma sorted_below_nth: "sorted_wrt (<) ps \<Longrightarrow> k < length ps \<Longrightarrow> filter (\<lambda>i. i < ps ! k) ps = take k (ps :: nat list)"
proof (induction ps arbitrary: k)
  case (Cons p ps)
  show ?case
  proof (cases k)
    case 0
    then show ?thesis using Cons.prems(1) by (auto simp: filter_empty_conv)
  next
    case (Suc j)
    then have "p < ps ! j" "j < length ps" using Cons.prems by auto
    then show ?thesis using Cons Suc by simp
  qed
qed simp

lemma turn_count_take_position:
  assumes "k < length (user_message_positions E es)"
  shows "turn_count E (take (user_message_positions E es ! k) es) = k"
proof -
  let ?ps = "user_message_positions E es" and ?Q = "\<lambda>i. is_user_turn_boundary E (env_item (es ! i))"
  let ?c = "?ps ! k"
  have "?c \<in> set ?ps" using assms by simp
  then have c: "?c < length es" by (simp add: positions_filter)
  have "turn_count E (take ?c es) = card {i. i < ?c \<and> ?Q i}"
    unfolding turn_count_def length_filter_conv_card using c by (intro arg_cong[where f = card]) auto
  also have "{i. i < ?c \<and> ?Q i} = set (filter (\<lambda>i. i < ?c) ?ps)" using c by (auto simp: positions_filter)
  also have "filter (\<lambda>i. i < ?c) ?ps = take k ?ps"
    by (rule sorted_below_nth[OF _ assms]) (simp add: positions_filter sorted_wrt_filter)
  also have "card (set (take k ?ps)) = k"
    using assms by (subst distinct_card) (simp_all add: positions_filter distinct_take)
  finally show ?thesis .
qed

lemma length_positions: "length (user_message_positions E es) = turn_count E es"
  unfolding positions_filter turn_count_def by (metis (no_types, lifting) length_filter_map filter_map length_map map_nth comp_apply filter_cong)

lemma turn_count_append [simp]: "turn_count E (xs @ ys) = turn_count E xs + turn_count E ys"
  by (simp add: turn_count_def)

definition trimmable :: "history_env \<Rightarrow> ('d, 'x) envelope \<Rightarrow> bool" where
  "trimmable E e \<longleftrightarrow> trim_step E (env_item e) \<noteq> None"

lemma trimmable_no_boundary: "trimmable E e \<Longrightarrow> \<not> is_user_turn_boundary E (env_item e)"
  by (cases "env_item e") (auto simp: trimmable_def split: if_splits)

lemma trimmable_turn_count: "list_all (trimmable E) es \<Longrightarrow> turn_count E es = 0"
  by (auto simp: turn_count_def filter_empty_conv list_all_iff dest: trimmable_no_boundary)

lemma trim_walk:
  "trim_pre_turn_context_updates E es first_idx cut_idx clear = (cut_idx', clear') \<Longrightarrow>
     cut_idx' \<le> cut_idx \<and> (\<forall>k. cut_idx' \<le> k \<and> k < cut_idx \<longrightarrow> trimmable E (es ! k)) \<and> (cut_idx \<le> first_idx \<longrightarrow> cut_idx' = cut_idx)"
proof (induction E es first_idx cut_idx clear rule: trim_pre_turn_context_updates.induct)
  case (2 E es first_idx k clear)
  show ?case
  proof (cases "first_idx < Suc k \<and> trim_step E (env_item (es ! k)) \<noteq> None")
    case True
    then obtain mixed where "trim_step E (env_item (es ! k)) = Some mixed" by auto
    then show ?thesis using True 2 by (auto simp: trimmable_def less_Suc_eq)
  qed (use 2 in \<open>auto split: option.splits if_splits\<close>)
qed simp

lemma without_model_switch_boundary:
  "without_model_switch t i = Some j \<Longrightarrow> is_user_turn_boundary E j = is_user_turn_boundary E i"
  by (cases i) (auto simp: Let_def split: if_splits)

lemma retain_no_turns: "turn_count E es = 0 \<Longrightarrow> turn_count E (retain_without_model_switch t es) = 0"
  by (auto simp: turn_count_def filter_empty_conv retain_without_model_switch_def List.map_filter_def without_model_switch_boundary)

definition rollback_cut :: "history_env \<Rightarrow> nat \<Rightarrow> ('d, 'x) envelope list \<Rightarrow> nat" where
  "rollback_cut E n es = user_message_positions E es ! (turn_count E es - n)"

text \<open>A rollback that leaves turns is a cut at a turn, moved back over context updates.\<close>

lemma rollback_some:
  assumes "0 < n" "n < turn_count E (items cm)" "r = items (drop_last_n_user_turns E n cm)"
  shows "\<exists>ctx. list_all (trimmable E) ctx \<and> r @ ctx = take (rollback_cut E n (items cm)) (items cm)"
proof -
  let ?es = "items cm" let ?ps = "user_message_positions E ?es" let ?cut = "rollback_cut E n ?es"
  obtain first_idx rest where ps: "?ps = first_idx # rest" using assms(2) by (metis length_positions length_0_conv neq_Nil_conv not_less_zero)
  have len: "length ?ps = turn_count E ?es" by (rule length_positions)
  have cut: "?cut \<in> set ?ps" using assms len by (simp add: rollback_cut_def)
  then have cl: "?cut < length ?es" by (simp add: positions_filter)
  obtain cut' clear' where tr: "trim_pre_turn_context_updates E ?es first_idx ?cut False = (cut', clear')" by fastforce
  note w = trim_walk[OF tr]
  have "first_idx < ?cut"
  proof -
    have "sorted_wrt (<) ?ps" by (simp add: positions_filter sorted_wrt_filter)
    from sorted_wrt_nth_less[OF this, of 0 "turn_count E ?es - n"]
    have "?ps ! 0 < ?ps ! (turn_count E ?es - n)" using assms(1,2) len by simp
    then show ?thesis by (simp add: ps rollback_cut_def)
  qed
  moreover have "first_idx \<in> set ?ps" by (simp add: ps)
  then have "is_user_turn_boundary E (env_item (?es ! first_idx))" by (simp add: positions_filter)
  ultimately have "first_idx < cut'" using w trimmable_no_boundary by (metis not_less)
  then have r: "r = take cut' ?es"
    using assms tr ps len by (simp add: drop_last_n_user_turns_def Let_def rollback_cut_def replace_annotated_def split: if_splits)
  let ?ctx = "drop cut' (take ?cut ?es)"
  have "list_all (trimmable E) ?ctx" using w cl by (auto simp: list_all_length)
  moreover have "r @ ?ctx = take ?cut ?es" using w r by (metis append_take_drop_id min.absorb1 take_take)
  ultimately show ?thesis by blast
qed

lemma rollback_all:
  assumes "0 < n" "turn_count E (items cm) \<le> n"
  shows "turn_count E (items (drop_last_n_user_turns E n cm)) = 0"
proof (cases "user_message_positions E (items cm)")
  case Nil
  then show ?thesis using length_positions[of E "items cm"] assms by (simp add: drop_last_n_user_turns_def Let_def replace_annotated_def)
next
  case (Cons first_idx rest)
  let ?es = "items cm"
  obtain cut' clear' where tr: "trim_pre_turn_context_updates E ?es first_idx first_idx False = (cut', clear')" by fastforce
  have "cut' = first_idx" using trim_walk[OF tr] by simp
  moreover have "turn_count E (take first_idx ?es) = 0" using turn_count_take_position[of 0 E ?es] Cons by simp
  ultimately show ?thesis
    using assms tr Cons length_positions[of E ?es] retain_no_turns[of E "take first_idx ?es"]
    by (auto simp: drop_last_n_user_turns_def Let_def replace_annotated_def split: option.split)
qed



text \<open>
  The comment of \<open>drop_last_n_user_turns\<close> calls a rollback without turns a no-op; it keeps the items
  but counts as a rewrite of the history and forgets the world state.
\<close>

lemma rollback_without_turns:
  assumes "turn_count E (items cm) = 0" "0 < n"
  shows "drop_last_n_user_turns E n cm =
    cm\<lparr>history_version := sat_add (history_version cm) 1, world_state_baseline := None\<rparr>"
  using assms length_positions[of E "items cm"] by (simp add: drop_last_n_user_turns_def Let_def replace_annotated_def)

section \<open>Injected context\<close>



end
