(* ===== verification/Shell_Script.thy ===== *)
theory Shell_Script
  imports Utf8 Exec_Policy
begin

text \<open>
  \<open>shell-command/src/bash.rs\<close> and \<open>detect_shell_type\<close> of \<open>shell_detect.rs\<close>: reading the commands of a
  script that is passed to a shell. The syntax trees come from the tree-sitter crates, which are a
  parameter (\<open>parse_bash\<close>): a node has a kind, is named or not, covers a range of the source and
  has children, and a tree knows whether it contains an error. Paths follow \<open>std::path\<close> on Unix.
\<close>

section \<open>Paths\<close>

datatype path_component = RootDir | CurDir | ParentDir | Normal rust_str

fun inner_component :: "rust_str \<Rightarrow> path_component option" where
  "inner_component part =
     (if part = [] \<or> part = ''.'' then None else if part = ''..'' then Some ParentDir else Some (Normal part))"

definition path_components :: "rust_str \<Rightarrow> path_component list" where
  "path_components p =
     (let has_root = prefix ''/'' p; parts = split_on CHR ''/'' p
      in (if has_root then [RootDir] else if hd parts = ''.'' then [CurDir] else []) @ List.map_filter inner_component parts)"

definition file_name :: "rust_str \<Rightarrow> rust_str option" where
  "file_name p = (case last_opt (path_components p) of Some (Normal n) \<Rightarrow> Some n | _ \<Rightarrow> None)"

definition file_stem :: "rust_str \<Rightarrow> rust_str option" where
  "file_stem p =
     map_option (\<lambda>n. case rsplit_once CHR ''.'' n of
         Some (before, _) \<Rightarrow> if before = [] then n else before | None \<Rightarrow> n) (file_name p)"

section \<open>Shells\<close>

datatype shell_type = Zsh | Bash | PowerShell | Sh | Cmd

text \<open>The result is \<open>Some\<close> when the recursion ends.\<close>

partial_function (option) detect_shell_type :: "rust_str \<Rightarrow> shell_type option option" where
  "detect_shell_type shell_path =
     (if shell_path = ''zsh'' then Some (Some Zsh)
      else if shell_path = ''sh'' then Some (Some Sh)
      else if shell_path = ''cmd'' then Some (Some Cmd)
      else if shell_path = ''bash'' then Some (Some Bash)
      else if shell_path = ''pwsh'' then Some (Some PowerShell)
      else if shell_path = ''powershell'' then Some (Some PowerShell)
      else case file_stem shell_path of
             Some shell_name \<Rightarrow>
               if path_components shell_name \<noteq> path_components shell_path then detect_shell_type shell_name else Some None
           | None \<Rightarrow> Some None)"

declare detect_shell_type.simps [code]

fun extract_bash_command :: "command \<Rightarrow> (rust_str \<times> rust_str) option" where
  "extract_bash_command [shell, flag, script] =
     (if flag \<notin> {''-lc'', ''-c''} \<or> detect_shell_type shell \<notin> {Some (Some Zsh), Some (Some Bash), Some (Some Sh)}
      then None else Some (shell, script))"
| "extract_bash_command _ = None"

section \<open>Syntax trees\<close>

datatype ts_node =
  TsNode (kind: rust_str) (is_named: bool) (start_byte: nat) (end_byte: nat) (children: "ts_node list")

record ts_tree =
  root_node :: ts_node
  has_error :: bool

type_synonym bash_parser = "rust_str \<Rightarrow> ts_tree option"

definition named_children :: "ts_node \<Rightarrow> ts_node list" where
  "named_children n = filter is_named (children n)"

definition utf8_text :: "rust_str \<Rightarrow> ts_node \<Rightarrow> rust_str option" where
  "utf8_text src n =
     (let text = take (end_byte n - start_byte n) (drop (start_byte n) src) in if utf8_valid text then Some text else None)"

lemma size_filter_children: "sum_list (map size (filter P cs)) \<le> sum_list (map size (cs :: ts_node list))"
  by (induction cs) auto

lemma size_children: "sum_list (map size (children n)) < size n"
proof (cases n)
  case (TsNode k nm s e cs)
  have "sum_list (map size cs) \<le> size_list size cs" by (induction cs) auto
  with TsNode show ?thesis by simp
qed

text \<open>The nodes in the order in which a stack visits them: the last child first.\<close>

function ts_walk :: "bool \<Rightarrow> ts_node list \<Rightarrow> ts_node list" where
  "ts_walk named_only [] = []"
| "ts_walk named_only (n # stack) =
     n # ts_walk named_only (rev (if named_only then named_children n else children n) @ stack)"
  by pat_completeness auto
termination ts_walk
proof (relation "measure (\<lambda>(_, stack). sum_list (map size stack))")
  fix named_only n stack
  have "sum_list (map size (if named_only then named_children n else children n)) < size n"
    using size_filter_children[of is_named "children n"] size_children[of n] by (auto simp: named_children_def)
  then show "((named_only, rev (if named_only then named_children n else children n) @ stack), named_only, n # stack)
      \<in> measure (\<lambda>(_, stack). sum_list (map size stack))"
    by (simp add: rev_map[symmetric])
qed simp

section \<open>Words\<close>

definition strip_quotes :: "rust_str \<Rightarrow> rust_str \<Rightarrow> rust_str option" where
  "strip_quotes q raw = Option.bind (strip_prefix q raw) (strip_suffix q)"

definition parse_double_quoted_string :: "rust_str \<Rightarrow> ts_node \<Rightarrow> rust_str option" where
  "parse_double_quoted_string src n =
     (if kind n \<noteq> ''string'' then None
      else if list_ex (\<lambda>part. kind part \<noteq> ''string_content'') (named_children n) then None
      else Option.bind (utf8_text src n) (strip_quotes [CHR 0x22]))"

definition parse_raw_string :: "rust_str \<Rightarrow> ts_node \<Rightarrow> rust_str option" where
  "parse_raw_string src n =
     (if kind n \<noteq> ''raw_string'' then None else Option.bind (utf8_text src n) (strip_quotes [CHR 0x27]))"

definition plain_part :: "rust_str \<Rightarrow> ts_node \<Rightarrow> rust_str option" where
  "plain_part src part =
     (if kind part = ''word'' \<or> kind part = ''number'' then utf8_text src part
      else if kind part = ''string'' then parse_double_quoted_string src part
      else if kind part = ''raw_string'' then parse_raw_string src part
      else None)"

definition first_named_child :: "ts_node \<Rightarrow> ts_node option" where
  "first_named_child n = (case named_children n of [] \<Rightarrow> None | c # _ \<Rightarrow> Some c)"

text \<open>One word of a plain command.\<close>

definition plain_word :: "rust_str \<Rightarrow> ts_node \<Rightarrow> rust_str option" where
  "plain_word src child =
     (if kind child = ''command_name''
      then Option.bind (first_named_child child) (\<lambda>word_node. if kind word_node \<noteq> ''word'' then None else utf8_text src word_node)
      else if kind child = ''concatenation''
      then (case those (map (plain_part src) (named_children child)) of
              Some parts \<Rightarrow> if concat parts = [] then None else Some (concat parts)
            | None \<Rightarrow> None)
      else plain_part src child)"

definition parse_plain_command_from_node :: "rust_str \<Rightarrow> ts_node \<Rightarrow> command option" where
  "parse_plain_command_from_node src cmd =
     (if kind cmd \<noteq> ''command'' then None else those (map (plain_word src) (named_children cmd)))"

definition is_literal_word_or_number :: "ts_node \<Rightarrow> bool" where
  "is_literal_word_or_number n \<longleftrightarrow> kind n \<in> {''word'', ''number''} \<and> named_children n = []"

fun parse_literal_shell_word :: "rust_str \<Rightarrow> ts_node \<Rightarrow> rust_str option" where
  "parse_literal_shell_word src (TsNode k nm s e cs) =
     (let n = TsNode k nm s e cs
      in if k \<in> {''word'', ''number''} \<and> is_literal_word_or_number n then utf8_text src n
         else if k = ''string'' then parse_double_quoted_string src n
         else if k = ''raw_string'' then parse_raw_string src n
         else if k = ''concatenation''
         then (case those (map (parse_literal_shell_word src) (filter is_named cs)) of
                 Some parts \<Rightarrow> if concat parts = [] then None else Some (concat parts)
               | None \<Rightarrow> None)
         else None)"

text \<open>The loop over the children of a command: the words so far and whether its name was found.\<close>

fun literal_words :: "rust_str \<Rightarrow> command \<times> bool \<Rightarrow> ts_node list \<Rightarrow> (command \<times> bool) option" where
  "literal_words src acc [] = Some acc"
| "literal_words src (words, found) (child # cs) =
     (if kind child = ''command_name''
      then case Option.bind (first_named_child child) (parse_literal_shell_word src) of
             None \<Rightarrow> None
           | Some name \<Rightarrow> literal_words src (words @ [name], True) cs
      else case (if found then parse_literal_shell_word src child else None) of
             Some word \<Rightarrow> literal_words src (words @ [word], found) cs
           | None \<Rightarrow> literal_words src (words, found) cs)"

definition parse_literal_command_from_node :: "rust_str \<Rightarrow> ts_node \<Rightarrow> command option" where
  "parse_literal_command_from_node src cmd =
     (if kind cmd \<noteq> ''command'' then None
      else case literal_words src ([], False) (named_children cmd) of
             Some (words, found) \<Rightarrow> if found then Some words else None
           | None \<Rightarrow> None)"

section \<open>Scripts\<close>

definition ALLOWED_KINDS :: "rust_str list" where
  "ALLOWED_KINDS = [''program'', ''list'', ''pipeline'', ''command'', ''command_name'', ''word'', ''string'',
     ''string_content'', ''raw_string'', ''number'', ''concatenation'']"

definition ALLOWED_PUNCT_TOKENS :: "rust_str list" where
  "ALLOWED_PUNCT_TOKENS = [''&&'', ''||'', '';'', ''|'', [CHR 0x22], [CHR 0x27]]"

definition plain_node :: "ts_node \<Rightarrow> bool" where
  "plain_node n =
     (if is_named n then kind n \<in> set ALLOWED_KINDS
      else if list_ex (\<lambda>c. c \<in> set ''&;|'') (kind n) \<and> kind n \<notin> set ALLOWED_PUNCT_TOKENS then False
      else kind n \<in> set ALLOWED_PUNCT_TOKENS \<or> trim (kind n) = [])"

definition try_parse_word_only_commands_sequence :: "ts_tree \<Rightarrow> rust_str \<Rightarrow> command list option" where
  "try_parse_word_only_commands_sequence tree src =
     (if has_error tree then None
      else (let nodes = ts_walk False [root_node tree]
            in if \<not> list_all plain_node nodes then None
               else those (map (parse_plain_command_from_node src)
                      (sort_key start_byte (filter (\<lambda>n. is_named n \<and> kind n = ''command'') nodes)))))"

definition parse_shell_script_into_commands :: "bash_parser \<Rightarrow> rust_str \<Rightarrow> command list option" where
  "parse_shell_script_into_commands parse_bash script =
     Option.bind (parse_bash script) (\<lambda>tree. try_parse_word_only_commands_sequence tree script)"

definition parse_shell_lc_plain_commands :: "bash_parser \<Rightarrow> command \<Rightarrow> command list option" where
  "parse_shell_lc_plain_commands parse_bash cmd =
     Option.bind (extract_bash_command cmd) (\<lambda>(_, script). parse_shell_script_into_commands parse_bash script)"

definition parse_shell_lc_literal_commands :: "bash_parser \<Rightarrow> command \<Rightarrow> command list option" where
  "parse_shell_lc_literal_commands parse_bash cmd =
     Option.bind (extract_bash_command cmd) (\<lambda>(_, script).
       Option.bind (parse_bash script) (\<lambda>tree.
         if has_error tree then None
         else Some (List.map_filter (parse_literal_command_from_node script) (ts_walk True [root_node tree]))))"

definition has_named_descendant_kind :: "ts_node \<Rightarrow> rust_str \<Rightarrow> bool" where
  "has_named_descendant_kind n k = list_ex (\<lambda>m. kind m = k) (ts_walk True [n])"

definition find_single_command_node :: "ts_node \<Rightarrow> ts_node option" where
  "find_single_command_node n =
     (case filter (\<lambda>m. kind m = ''command'') (ts_walk True [n]) of [c] \<Rightarrow> Some c | _ \<Rightarrow> None)"

definition is_allowed_heredoc_attachment_kind :: "rust_str \<Rightarrow> bool" where
  "is_allowed_heredoc_attachment_kind k \<longleftrightarrow>
     k \<in> {''heredoc_body'', ''simple_heredoc_body'', ''heredoc_redirect'', ''herestring_redirect'', ''redirected_statement''}"

text \<open>The words that one child contributes; \<open>None\<close> rejects the command.\<close>

definition heredoc_child_words :: "rust_str \<Rightarrow> ts_node \<Rightarrow> command option" where
  "heredoc_child_words src child =
     (if kind child = ''command_name''
      then Option.bind (first_named_child child) (\<lambda>word_node.
             if is_literal_word_or_number word_node then map_option (\<lambda>w. [w]) (utf8_text src word_node) else None)
      else if kind child \<in> {''word'', ''number''}
      then (if is_literal_word_or_number child then map_option (\<lambda>w. [w]) (utf8_text src child) else None)
      else if kind child = ''comment'' \<or> is_allowed_heredoc_attachment_kind (kind child) then Some []
      else None)"

definition parse_heredoc_command_words :: "rust_str \<Rightarrow> ts_node \<Rightarrow> command option" where
  "parse_heredoc_command_words src cmd =
     (if kind cmd \<noteq> ''command'' then None
      else case those (map (heredoc_child_words src) (named_children cmd)) of
             Some wss \<Rightarrow> if concat wss = [] then None else Some (concat wss)
           | None \<Rightarrow> None)"

definition parse_shell_lc_single_command_prefix :: "bash_parser \<Rightarrow> command \<Rightarrow> command option" where
  "parse_shell_lc_single_command_prefix parse_bash cmd =
     Option.bind (extract_bash_command cmd) (\<lambda>(_, script).
       Option.bind (parse_bash script) (\<lambda>tree.
         (let root = root_node tree
          in if has_error tree then None
             else if \<not> has_named_descendant_kind root ''heredoc_redirect'' then None
             else if has_named_descendant_kind root ''file_redirect'' then None
             else Option.bind (find_single_command_node root) (parse_heredoc_command_words script))))"

section \<open>Detecting a shell ends\<close>

lemma split_on_parts: "x \<in> set (split_on d s) \<Longrightarrow> length x < length s \<or> x = s"
proof (induction s arbitrary: x)
  case (Cons c s)
  obtain l ls where s: "split_on d s = l # ls" using split_on_ne[of d s] by (cases "split_on d s") auto
  show ?case using Cons.prems Cons.IH[of x] Cons.IH[of l] s by (auto split: if_splits)
qed simp

lemma file_name_part: "file_name p = Some n \<Longrightarrow> length n < length p \<or> n = p"
proof -
  assume "file_name p = Some n"
  then have "last_opt (path_components p) = Some (Normal n)"
    by (auto simp: file_name_def split: option.splits path_component.splits)
  then have "Normal n \<in> set (path_components p)" by (auto simp: last_opt_def split: if_splits list.splits dest: last_in_set)
  then have "n \<in> set (split_on CHR ''/'' p)"
    by (auto simp: path_components_def Let_def List.map_filter_def split: if_splits)
  then show ?thesis by (rule split_on_parts)
qed

lemma rsplit_once_shorter: "rsplit_once d s = Some (a, b) \<Longrightarrow> length a < length s"
proof -
  assume "rsplit_once d s = Some (a, b)"
  then obtain x where "dropWhile (\<lambda>c. c \<noteq> d) (rev s) = x # rev a"
    by (auto simp: rsplit_once_def split_once_def split: list.splits)
  then have "length (x # rev a) \<le> length (rev s)" by (metis length_dropWhile_le)
  then show ?thesis by simp
qed

lemma file_stem_part: "file_stem p = Some n \<Longrightarrow> length n < length p \<or> n = p"
  using file_name_part[of p] rsplit_once_shorter
  by (fastforce simp: file_stem_def split: option.splits if_splits)

text \<open>
  C40. Detecting the type of a shell ends for every path: each step takes the stem of the file name,
  which is shorter, or stops.
\<close>

theorem detect_shell_type_terminates: "\<exists>r. detect_shell_type p = Some r"
proof (induction "length p" arbitrary: p rule: less_induct)
  case less
  show ?case
  proof (cases "file_stem p")
    case (Some n)
    then have "length n < length p \<or> n = p" by (rule file_stem_part)
    then show ?thesis using less[of n] Some by (subst detect_shell_type.simps) auto
  qed (subst detect_shell_type.simps, simp)
qed

section \<open>The nodes of a walk\<close>

fun subtree :: "bool \<Rightarrow> ts_node \<Rightarrow> ts_node set" where
  "subtree named_only (TsNode k nm s e cs) =
     insert (TsNode k nm s e cs) (\<Union>c \<in> set (filter (\<lambda>c. named_only \<longrightarrow> is_named c) cs). subtree named_only c)"

lemma subtree_unfold:
  "subtree b n = insert n (\<Union>c \<in> set (if b then named_children n else children n). subtree b c)"
  by (cases n) (simp add: named_children_def)

lemma set_ts_walk: "set (ts_walk b st) = (\<Union>n \<in> set st. subtree b n)"
proof (induction b st rule: ts_walk.induct)
  case (2 b n st)
  then show ?case using subtree_unfold[of b n] by (simp add: Un_assoc)
qed simp

declare ts_walk.simps [simp del]

lemma subtree_named: "subtree True n \<subseteq> subtree False n"
proof (induction n)
  case (TsNode k nm s e cs)
  then show ?case by fastforce
qed

lemma subtree_True_named: "m \<in> subtree True n \<Longrightarrow> m = n \<or> is_named m"
proof (induction n)
  case (TsNode k nm s e cs)
  then show ?case by fastforce
qed

lemma those_Some: "those (map f xs) = Some ys \<Longrightarrow> x \<in> set xs \<Longrightarrow> \<exists>y \<in> set ys. f x = Some y"
  by (induction xs arbitrary: ys) (auto split: option.splits)

lemma those_Cons: "those (map f (x # xs)) = Some ys \<Longrightarrow> \<exists>y ys'. f x = Some y \<and> ys = y # ys'"
  by (auto split: option.splits)

section \<open>Plain and literal commands\<close>

text \<open>
  In the bash grammar the first named child of a command is its name, and the root of a tree is a
  named node.
\<close>

definition names_first :: "ts_tree \<Rightarrow> bool" where
  "names_first tree \<longleftrightarrow> is_named (root_node tree) \<and>
     (\<forall>n \<in> set (ts_walk True [root_node tree]). kind n = ''command'' \<longrightarrow>
        (case named_children n of c # _ \<Rightarrow> kind c = ''command_name'' | [] \<Rightarrow> False))"

lemma literal_words_keep:
  "literal_words src (w # ws, found) cs = Some (words, found') \<Longrightarrow> \<exists>ws'. words = w # ws'"
  by (induction src "(w # ws, found)" cs arbitrary: ws found rule: literal_words.induct) (auto split: option.splits if_splits)

text \<open>The literal command of a node begins with the same word as its plain command.\<close>

lemma literal_starts_like_plain:
  assumes "parse_plain_command_from_node src n = Some plain" "parse_literal_command_from_node src n = Some literal"
    "named_children n = c # cs" "kind c = ''command_name''"
  shows "\<exists>w ps ls. plain = w # ps \<and> literal = w # ls"
proof -
  from assms(1,3) obtain w ps where plain: "plain = w # ps" "plain_word src c = Some w"
    by (auto simp: parse_plain_command_from_node_def split: if_splits option.splits)
  then obtain word where word: "first_named_child c = Some word" "kind word = ''word''" "utf8_text src word = Some w"
    using assms(4) by (auto simp: plain_word_def bind_eq_Some_conv split: if_splits)
  have "parse_literal_shell_word src word = (if is_literal_word_or_number word then Some w else None)"
    using word(2,3) by (cases word) simp
  moreover from assms(2) obtain found where "literal_words src ([], False) (c # cs) = Some (literal, found)"
    using assms(3) by (auto simp: parse_literal_command_from_node_def split: if_splits option.splits)
  ultimately have "literal_words src ([w], True) cs = Some (literal, found)"
    using word(1) assms(4) by (auto split: if_splits)
  from literal_words_keep[OF this] plain(1) show ?thesis by blast
qed

lemma literal_commands_of_plain_script:
  assumes "names_first tree" "try_parse_word_only_commands_sequence tree src = Some cmds"
    "n \<in> set (ts_walk True [root_node tree])" "parse_literal_command_from_node src n = Some literal"
  shows "\<exists>w ps ls. w # ps \<in> set cmds \<and> literal = w # ls"
proof -
  have k: "kind n = ''command''" using assms(4) by (simp add: parse_literal_command_from_node_def split: if_splits)
  have "n \<in> subtree True (root_node tree)" using assms(3) unfolding set_ts_walk by simp
  from subsetD[OF subtree_named this] subtree_True_named[OF this]
  have "n \<in> set (ts_walk False [root_node tree])" "is_named n"
    using assms(1) unfolding set_ts_walk names_first_def by auto
  with k have "n \<in> set (sort_key start_byte (filter (\<lambda>n. is_named n \<and> kind n = ''command'') (ts_walk False [root_node tree])))"
    by simp
  moreover have "those (map (parse_plain_command_from_node src)
      (sort_key start_byte (filter (\<lambda>n. is_named n \<and> kind n = ''command'') (ts_walk False [root_node tree])))) = Some cmds"
    using assms(2) by (simp add: try_parse_word_only_commands_sequence_def Let_def split: if_splits)
  ultimately obtain plain where plain: "plain \<in> set cmds" "parse_plain_command_from_node src n = Some plain"
    by (blast dest: those_Some)
  obtain c cs where "named_children n = c # cs" "kind c = ''command_name''"
    using assms(1,3) k by (cases "named_children n") (auto simp: names_first_def)
  from literal_starts_like_plain[OF plain(2) assms(4) this] plain(1) show ?thesis by blast
qed

end
