(* ===== verification/Command_Safety.thy ===== *)
theory Command_Safety
  imports Shell_Script
begin

text \<open>
  \<open>shell-command/src/command_safety/is_safe_command.rs\<close> and \<open>is_dangerous_command.rs\<close> in the Linux
  build: commands that only read, and commands that need a second look.
\<close>

section \<open>Git\<close>

definition executable_name_lookup_key :: "rust_str \<Rightarrow> rust_str option" where
  "executable_name_lookup_key raw = file_name raw"

definition is_git_global_option_with_value :: "rust_str \<Rightarrow> bool" where
  "is_git_global_option_with_value arg \<longleftrightarrow>
     arg \<in> set [''-C'', ''-c'', ''--config-env'', ''--exec-path'', ''--git-dir'', ''--namespace'', ''--super-prefix'', ''--work-tree'']"

definition is_git_global_option_with_inline_value :: "rust_str \<Rightarrow> bool" where
  "is_git_global_option_with_inline_value arg \<longleftrightarrow>
     list_ex (\<lambda>p. prefix p arg)
       [''--config-env='', ''--exec-path='', ''--git-dir='', ''--namespace='', ''--super-prefix='', ''--work-tree=''] \<or>
     ((prefix ''-C'' arg \<or> prefix ''-c'' arg) \<and> length arg > 2)"

text \<open>The loop over the arguments; \<open>idx\<close> is the index of the first of them.\<close>

fun git_scan :: "rust_str list \<Rightarrow> bool \<Rightarrow> nat \<Rightarrow> rust_str list \<Rightarrow> (nat \<times> rust_str) option" where
  "git_scan subcommands skip_next idx [] = None"
| "git_scan subcommands skip_next idx (arg # args) =
     (if skip_next then git_scan subcommands False (idx + 1) args
      else if is_git_global_option_with_inline_value arg then git_scan subcommands False (idx + 1) args
      else if is_git_global_option_with_value arg then git_scan subcommands True (idx + 1) args
      else if arg = ''--'' \<or> prefix ''-'' arg then git_scan subcommands False (idx + 1) args
      else if arg \<in> set subcommands then Some (idx, arg)
      else None)"

definition find_git_subcommand :: "command \<Rightarrow> rust_str list \<Rightarrow> (nat \<times> rust_str) option" where
  "find_git_subcommand cmd subcommands =
     (case cmd of
        [] \<Rightarrow> None
      | cmd0 # args \<Rightarrow>
          if executable_name_lookup_key cmd0 \<noteq> Some ''git'' then None else git_scan subcommands False 1 args)"

datatype git_option_pattern = Exact rust_str | ShortWithInlineValue rust_str | PrefixOf rust_str

fun option_matches :: "git_option_pattern \<Rightarrow> rust_str \<Rightarrow> bool" where
  "option_matches (Exact option) arg = (arg = option)"
| "option_matches (ShortWithInlineValue option) arg = (prefix option arg \<and> length arg > length option)"
| "option_matches (PrefixOf p) arg = prefix p arg"

definition UNSAFE_GIT_GLOBAL_OPTIONS :: "git_option_pattern list" where
  "UNSAFE_GIT_GLOBAL_OPTIONS =
     [Exact ''-C'', ShortWithInlineValue ''-C'', Exact ''-c'', ShortWithInlineValue ''-c'', Exact ''-p'',
      Exact ''--config-env'', PrefixOf ''--config-env='', Exact ''--exec-path'', PrefixOf ''--exec-path='',
      Exact ''--git-dir'', PrefixOf ''--git-dir='', Exact ''--namespace'', PrefixOf ''--namespace='', Exact ''--paginate'',
      Exact ''--super-prefix'', PrefixOf ''--super-prefix='', Exact ''--work-tree'', PrefixOf ''--work-tree='']"

definition UNSAFE_GIT_SUBCOMMAND_OPTIONS :: "git_option_pattern list" where
  "UNSAFE_GIT_SUBCOMMAND_OPTIONS =
     [Exact ''--output'', PrefixOf ''--output='', Exact ''--ext-diff'', Exact ''--textconv'', Exact ''--exec'', PrefixOf ''--exec='']"

definition git_matches_option_pattern :: "rust_str \<Rightarrow> git_option_pattern list \<Rightarrow> bool" where
  "git_matches_option_pattern arg patterns = list_ex (\<lambda>p. option_matches p arg) patterns"

definition git_has_unsafe_global_option :: "rust_str list \<Rightarrow> bool" where
  "git_has_unsafe_global_option args = list_ex (\<lambda>arg. git_matches_option_pattern arg UNSAFE_GIT_GLOBAL_OPTIONS) args"

definition git_subcommand_args_are_read_only :: "rust_str list \<Rightarrow> bool" where
  "git_subcommand_args_are_read_only args =
     (\<not> list_ex (\<lambda>arg. git_matches_option_pattern arg UNSAFE_GIT_SUBCOMMAND_OPTIONS) args)"

definition branch_listing_flag :: "rust_str \<Rightarrow> bool" where
  "branch_listing_flag arg \<longleftrightarrow>
     arg \<in> set [''--list'', ''-l'', ''--show-current'', ''-a'', ''--all'', ''-r'', ''--remotes'', ''-v'', ''-vv'', ''--verbose''] \<or>
     prefix ''--format='' arg"

fun branch_flags :: "bool \<Rightarrow> rust_str list \<Rightarrow> bool" where
  "branch_flags saw [] = saw"
| "branch_flags saw (arg # args) = (if branch_listing_flag arg then branch_flags True args else False)"

definition git_branch_is_read_only :: "rust_str list \<Rightarrow> bool" where
  "git_branch_is_read_only args = (if args = [] then True else branch_flags False args)"

definition is_safe_git_command :: "command \<Rightarrow> bool" where
  "is_safe_git_command cmd =
     (case find_git_subcommand cmd [''status'', ''log'', ''diff'', ''show'', ''branch''] of
        None \<Rightarrow> False
      | Some (idx, subcommand) \<Rightarrow>
          (let global_args = take (idx - 1) (drop 1 cmd); subcommand_args = drop (idx + 1) cmd
           in if git_has_unsafe_global_option global_args then False
              else if subcommand \<in> set [''status'', ''log'', ''diff'', ''show''] then git_subcommand_args_are_read_only subcommand_args
              else if subcommand = ''branch''
              then git_subcommand_args_are_read_only subcommand_args \<and> git_branch_is_read_only subcommand_args
              else False))"

section \<open>Safe commands\<close>

definition is_digits :: "rust_str \<Rightarrow> bool" where
  "is_digits s \<longleftrightarrow> s \<noteq> [] \<and> list_all is_ascii_digit s"

definition is_valid_sed_n_arg :: "rust_str option \<Rightarrow> bool" where
  "is_valid_sed_n_arg arg =
     (case Option.bind arg (strip_suffix ''p'') of
        None \<Rightarrow> False
      | Some core \<Rightarrow>
          (case split_on CHR '','' core of
             [num] \<Rightarrow> is_digits num
           | [a, b] \<Rightarrow> is_digits a \<and> is_digits b
           | _ \<Rightarrow> False))"

definition nth_opt :: "'a list \<Rightarrow> nat \<Rightarrow> 'a option" where
  "nth_opt xs i = (if i < length xs then Some (xs ! i) else None)"

definition ALWAYS_SAFE :: "rust_str list" where
  "ALWAYS_SAFE =
     [''numfmt'', ''tac'', ''cat'', ''cd'', ''cut'', ''echo'', ''expr'', ''false'', ''grep'', ''head'', ''id'', ''ls'', ''nl'', ''paste'',
      ''pwd'', ''rev'', ''seq'', ''stat'', ''tail'', ''tr'', ''true'', ''uname'', ''uniq'', ''wc'', ''which'', ''whoami'']"

definition UNSAFE_FIND_OPTIONS :: "rust_str list" where
  "UNSAFE_FIND_OPTIONS =
     [''-exec'', ''-execdir'', ''-ok'', ''-okdir'', ''-delete'', ''-fls'', ''-fprint'', ''-fprint0'', ''-fprintf'']"

definition base64_writes :: "rust_str \<Rightarrow> bool" where
  "base64_writes arg \<longleftrightarrow>
     arg \<in> set [''-o'', ''--output''] \<or> prefix ''--output='' arg \<or> (prefix ''-o'' arg \<and> arg \<noteq> ''-o'')"

definition ripgrep_executes :: "rust_str \<Rightarrow> bool" where
  "ripgrep_executes arg \<longleftrightarrow>
     arg \<in> set [''--search-zip'', ''-z''] \<or>
     list_ex (\<lambda>opt. arg = opt \<or> prefix (opt @ ''='') arg) [''--pre'', ''--hostname-bin'']"

definition is_safe_to_call_with_exec :: "command \<Rightarrow> bool" where
  "is_safe_to_call_with_exec cmd =
     (case cmd of
        [] \<Rightarrow> False
      | cmd0 # args \<Rightarrow>
          (case executable_name_lookup_key cmd0 of
             None \<Rightarrow> False
           | Some key \<Rightarrow>
               if key \<in> set ALWAYS_SAFE then True
               else if key = ''base64'' then \<not> list_ex base64_writes args
               else if key = ''find'' then \<not> list_ex (\<lambda>arg. arg \<in> set UNSAFE_FIND_OPTIONS) cmd
               else if key = ''rg'' then \<not> list_ex ripgrep_executes cmd
               else if key = ''git'' then is_safe_git_command cmd
               else if key = ''sed''
               then length cmd \<le> 4 \<and> nth_opt cmd 1 = Some ''-n'' \<and> is_valid_sed_n_arg (nth_opt cmd 2)
               else False))"

definition is_known_safe_command :: "bash_parser \<Rightarrow> command \<Rightarrow> bool" where
  "is_known_safe_command parse_bash cmd =
     (let cmd = map (\<lambda>s. if s = ''zsh'' then ''bash'' else s) cmd
      in if is_safe_to_call_with_exec cmd then True
         else case parse_shell_lc_plain_commands parse_bash cmd of
                Some all_commands \<Rightarrow> all_commands \<noteq> [] \<and> list_all is_safe_to_call_with_exec all_commands
              | None \<Rightarrow> False)"

section \<open>Dangerous commands\<close>

datatype dangerous_match = ForcedRm | OtherDanger

definition MAX_DANGEROUS_COMMAND_WRAPPER_DEPTH :: nat where
  "MAX_DANGEROUS_COMMAND_WRAPPER_DEPTH = 8"

definition rm_args_include_force_option :: "rust_str list \<Rightarrow> bool" where
  "rm_args_include_force_option args =
     list_ex (\<lambda>arg. arg = ''--force'' \<or>
         (case strip_prefix ''-'' arg of Some flags \<Rightarrow> \<not> prefix ''-'' flags \<and> CHR ''f'' \<in> set flags | None \<Rightarrow> False))
       (takeWhile (\<lambda>arg. arg \<noteq> ''--'') args)"

text \<open>The loop of \<open>dangerous_command_match_for_env\<close>: the arguments from the command on.\<close>

fun env_command :: "command \<Rightarrow> command" where
  "env_command [] = []"
| "env_command (arg # args) =
     (if arg = ''--'' then args
      else if arg \<in> set [''-i'', ''--ignore-environment''] \<or>
              (case split_once CHR ''='' arg of Some (name, _) \<Rightarrow> name \<noteq> [] \<and> \<not> prefix ''-'' name | None \<Rightarrow> False)
      then env_command args
      else arg # args)"

definition trap_action :: "command \<Rightarrow> rust_str option" where
  "trap_action cmd =
     (case nth_opt cmd (if nth_opt cmd 1 = Some ''--'' then 2 else 1) of
        Some action \<Rightarrow> if prefix ''-'' action then None else Some action
      | None \<Rightarrow> None)"

text \<open>What \<open>dangerous_command_match_for_exec\<close> does with a command: decide, or look at the command it wraps.\<close>

datatype exec_outcome = Verdict "dangerous_match option" | Wraps command

definition exec_step :: "command \<Rightarrow> exec_outcome" where
  "exec_step cmd =
     (case cmd of
        [] \<Rightarrow> Verdict None
      | cmd0 # args \<Rightarrow>
          (let key = executable_name_lookup_key cmd0
           in if key = Some ''rm'' \<and> rm_args_include_force_option args then Verdict (Some ForcedRm)
              else if key = Some ''sudo'' then Wraps args
              else if key = Some ''env'' then Wraps (env_command args)
              else if key = Some ''trap''
              then (case trap_action cmd of Some action \<Rightarrow> Wraps [''sh'', ''-c'', action] | None \<Rightarrow> Verdict None)
              else Verdict None))"

fun find_map :: "('a \<Rightarrow> 'b option) \<Rightarrow> 'a list \<Rightarrow> 'b option" where
  "find_map f [] = None"
| "find_map f (x # xs) = (case f x of Some y \<Rightarrow> Some y | None \<Rightarrow> find_map f xs)"

lemma find_map_cong [fundef_cong]: "xs = ys \<Longrightarrow> (\<And>x. x \<in> set ys \<Longrightarrow> f x = g x) \<Longrightarrow> find_map f xs = find_map g ys"
  by (induction ys arbitrary: xs) (auto split: option.split)

function dangerous_command_match_with_depth :: "bash_parser \<Rightarrow> command \<Rightarrow> nat \<Rightarrow> dangerous_match option" where
  "dangerous_command_match_with_depth parse_bash cmd wrapper_depth =
     (if wrapper_depth > MAX_DANGEROUS_COMMAND_WRAPPER_DEPTH then None
      else case (case exec_step cmd of
                   Verdict v \<Rightarrow> v
                 | Wraps inner \<Rightarrow> dangerous_command_match_with_depth parse_bash inner (wrapper_depth + 1)) of
             Some m \<Rightarrow> Some m
           | None \<Rightarrow>
               (case parse_shell_lc_literal_commands parse_bash cmd of
                  Some commands \<Rightarrow>
                    find_map (\<lambda>c. dangerous_command_match_with_depth parse_bash c (wrapper_depth + 1)) commands
                | None \<Rightarrow> None))"
  by pat_completeness auto
termination
  by (relation "measure (\<lambda>(_, _, wrapper_depth). Suc MAX_DANGEROUS_COMMAND_WRAPPER_DEPTH - wrapper_depth)") auto

declare dangerous_command_match_with_depth.simps [simp del]

definition dangerous_command_match :: "bash_parser \<Rightarrow> command \<Rightarrow> dangerous_match option" where
  "dangerous_command_match parse_bash cmd = dangerous_command_match_with_depth parse_bash cmd 0"

section \<open>Safe commands are not dangerous\<close>

definition SAFE_KEYS :: "rust_str list" where
  "SAFE_KEYS = ALWAYS_SAFE @ [''base64'', ''find'', ''rg'', ''git'', ''sed'']"

definition WRAPPER_KEYS :: "rust_str list" where
  "WRAPPER_KEYS = [''rm'', ''sudo'', ''env'', ''trap'']"

lemma safe_exec_key:
  "is_safe_to_call_with_exec cmd \<Longrightarrow> \<exists>c args k. cmd = c # args \<and> file_name c = Some k \<and> k \<in> set SAFE_KEYS"
  by (auto simp: is_safe_to_call_with_exec_def executable_name_lookup_key_def SAFE_KEYS_def split: list.splits option.splits if_splits)

text \<open>None of these names is a shell, and none has an extension.\<close>

lemma plain_key:
  "k \<in> set (SAFE_KEYS @ WRAPPER_KEYS) \<Longrightarrow>
     detect_shell_type k = Some None \<and> rsplit_once CHR ''.'' k = None \<and> k \<noteq> ''zsh''"
proof -
  have "list_all (\<lambda>k. detect_shell_type k = Some None \<and> rsplit_once CHR ''.'' k = None \<and> k \<noteq> ''zsh'') (SAFE_KEYS @ WRAPPER_KEYS)"
    by code_simp
  then show "k \<in> set (SAFE_KEYS @ WRAPPER_KEYS) \<Longrightarrow> ?thesis" unfolding list_all_iff by blast
qed

definition SHELL_NAMES :: "rust_str list" where
  "SHELL_NAMES = [''zsh'', ''sh'', ''cmd'', ''bash'', ''pwsh'', ''powershell'']"

lemma shell_names: "p \<in> set SHELL_NAMES \<Longrightarrow> file_name p = Some p \<and> detect_shell_type p \<noteq> Some None"
proof -
  have "list_all (\<lambda>p. file_name p = Some p \<and> detect_shell_type p \<noteq> Some None) SHELL_NAMES" by code_simp
  then show "p \<in> set SHELL_NAMES \<Longrightarrow> ?thesis" unfolding list_all_iff by blast
qed

lemma key_no_shell:
  assumes "file_name c = Some k" "k \<in> set (SAFE_KEYS @ WRAPPER_KEYS)"
  shows "detect_shell_type c = Some None"
proof -
  note k = plain_key[OF assms(2)]
  have "c \<notin> set SHELL_NAMES" using shell_names[of c] assms(1) k by force
  moreover have "file_stem c = Some k" using assms(1) k by (simp add: file_stem_def)
  ultimately show ?thesis using k by (subst detect_shell_type.simps) (simp add: SHELL_NAMES_def)
qed

lemma extract_needs_shell: "detect_shell_type c = Some None \<Longrightarrow> extract_bash_command (c # args) = None"
  by (cases "c # args" rule: extract_bash_command.cases) auto

lemma safe_key_steps:
  assumes "file_name c = Some k" "k \<in> set SAFE_KEYS"
  shows "exec_step (c # args) = Verdict None" "parse_shell_lc_literal_commands parse_bash (c # args) = None"
proof -
  have "list_all (\<lambda>k. k \<notin> set WRAPPER_KEYS) SAFE_KEYS" by code_simp
  then have "k \<notin> set WRAPPER_KEYS" using assms(2) unfolding list_all_iff by blast
  then show "exec_step (c # args) = Verdict None"
    using assms(1) by (auto simp: exec_step_def executable_name_lookup_key_def WRAPPER_KEYS_def Let_def)
  have "detect_shell_type c = Some None" using key_no_shell[OF assms(1)] assms(2) by simp
  from extract_needs_shell[OF this] show "parse_shell_lc_literal_commands parse_bash (c # args) = None"
    by (simp add: parse_shell_lc_literal_commands_def)
qed

lemma safe_key_not_dangerous:
  assumes "file_name c = Some k" "k \<in> set SAFE_KEYS"
  shows "dangerous_command_match_with_depth parse_bash (c # args) d = None"
  by (subst dangerous_command_match_with_depth.simps) (simp add: safe_key_steps[OF assms])

lemma find_map_None: "(\<And>x. x \<in> set xs \<Longrightarrow> f x = None) \<Longrightarrow> find_map f xs = None"
  by (induction xs) auto

lemma safe_script_not_dangerous:
  assumes "\<And>tree. parse_bash script = Some tree \<Longrightarrow> names_first tree"
    "parse_shell_script_into_commands parse_bash script = Some cmds" "list_all is_safe_to_call_with_exec cmds"
    "extract_bash_command cmd = Some (shell, script)"
  shows "dangerous_command_match parse_bash cmd = None"
proof -
  obtain tree where tree: "parse_bash script = Some tree" "try_parse_word_only_commands_sequence tree script = Some cmds"
    using assms(2) by (auto simp: parse_shell_script_into_commands_def bind_eq_Some_conv)
  have no_error: "\<not> has_error tree" using tree(2) by (auto simp: try_parse_word_only_commands_sequence_def)
  let ?lits = "List.map_filter (parse_literal_command_from_node script) (ts_walk True [root_node tree])"
  have none: "dangerous_command_match_with_depth parse_bash literal (Suc 0) = None" if lit: "literal \<in> set ?lits" for literal
  proof -
    obtain n where "n \<in> set (ts_walk True [root_node tree])" "parse_literal_command_from_node script n = Some literal"
      using lit by (auto simp: List.map_filter_def)
    from literal_commands_of_plain_script[OF assms(1)[OF tree(1)] tree(2) this]
    obtain w ps ls where w: "w # ps \<in> set cmds" "literal = w # ls" by blast
    then have "is_safe_to_call_with_exec (w # ps)" using assms(3) by (auto simp: list_all_iff)
    from safe_exec_key[OF this] obtain k where "file_name w = Some k" "k \<in> set SAFE_KEYS" by auto
    from safe_key_not_dangerous[OF this] show ?thesis by (simp add: w(2))
  qed
  have lits: "parse_shell_lc_literal_commands parse_bash cmd = Some ?lits"
    using assms(4) tree(1) no_error by (simp add: parse_shell_lc_literal_commands_def)
  obtain c args where cmd: "cmd = c # args" using assms(4) by (cases cmd) auto
  have "detect_shell_type c \<noteq> Some None" using extract_needs_shell[of c args] assms(4) cmd by auto
  then have "file_name c \<noteq> Some k" if "k \<in> set WRAPPER_KEYS" for k using key_no_shell[of c k] that by auto
  then have "exec_step cmd = Verdict None"
    by (simp add: cmd exec_step_def executable_name_lookup_key_def WRAPPER_KEYS_def Let_def)
  then show ?thesis
    unfolding dangerous_command_match_def
    by (subst dangerous_command_match_with_depth.simps) (simp add: lits find_map_None none)
qed

lemma known_safe_not_dangerous:
  assumes "\<forall>script tree. parse_bash script = Some tree \<longrightarrow> names_first tree" "''zsh'' \<notin> set (tl cmd)"
    "is_known_safe_command parse_bash cmd"
  shows "dangerous_command_match parse_bash cmd = None"
proof -
  let ?f = "\<lambda>s. if s = ''zsh'' then ''bash'' else s"
  obtain c args where cmd: "cmd = c # args"
    using assms(3) by (cases cmd) (auto simp: is_known_safe_command_def is_safe_to_call_with_exec_def parse_shell_lc_plain_commands_def)
  have "map ?f args = args" using assms(2) by (intro map_idI) (auto simp: cmd)
  then have m: "map ?f cmd = ?f c # args" by (simp add: cmd)
  consider "is_safe_to_call_with_exec (?f c # args)" |
    cmds shell script where "extract_bash_command (?f c # args) = Some (shell, script)"
      "parse_shell_script_into_commands parse_bash script = Some cmds" "list_all is_safe_to_call_with_exec cmds"
    using assms(3) unfolding is_known_safe_command_def m Let_def
    by (auto simp: parse_shell_lc_plain_commands_def bind_eq_Some_conv split: if_splits option.splits)
  then show ?thesis
  proof cases
    case 1
    from safe_exec_key[OF 1] obtain k where k: "file_name (?f c) = Some k" "k \<in> set SAFE_KEYS" by auto
    have "c \<noteq> ''zsh''"
    proof
      assume "c = ''zsh''"
      then have "k = ''bash''" using k(1) shell_names[of "''bash''"] by (simp add: SHELL_NAMES_def)
      moreover have "''bash'' \<notin> set SAFE_KEYS" by code_simp
      ultimately show False using k(2) by simp
    qed
    then show ?thesis using safe_key_not_dangerous[of c k] k by (simp add: cmd dangerous_command_match_def)
  next
    case (2 cmds shell script)
    have "\<exists>shell'. extract_bash_command cmd = Some (shell', script)"
    proof (cases "c = ''zsh''")
      case True
      have "detect_shell_type ''zsh'' = Some (Some Zsh)" by code_simp
      then show ?thesis using 2(1) True cmd by (cases "''bash'' # args" rule: extract_bash_command.cases) (auto split: if_splits)
    qed (use 2(1) cmd in auto)
    then show ?thesis using safe_script_not_dangerous[OF _ 2(2,3)] assms(1) by blast
  qed
qed

text \<open>A parser for the witness: it knows the script \<open>ls\<close>.\<close>

definition ls_tree :: ts_tree where
  "ls_tree = \<lparr>root_node = TsNode ''program'' True 0 2 [TsNode ''command'' True 0 2
     [TsNode ''command_name'' True 0 2 [TsNode ''word'' True 0 2 []]]], has_error = False\<rparr>"

definition ls_parser :: bash_parser where
  "ls_parser script = (if script = ''ls'' then Some ls_tree else None)"



section \<open>Git commands that only read\<close>

lemma option_value_unsafe:
  "is_git_global_option_with_value arg \<Longrightarrow> git_matches_option_pattern arg UNSAFE_GIT_GLOBAL_OPTIONS"
  "is_git_global_option_with_inline_value arg \<Longrightarrow> git_matches_option_pattern arg UNSAFE_GIT_GLOBAL_OPTIONS"
  by (auto simp: is_git_global_option_with_value_def is_git_global_option_with_inline_value_def
      git_matches_option_pattern_def UNSAFE_GIT_GLOBAL_OPTIONS_def)

lemma git_scan_step:
  "git_scan subs skip idx (arg # args) =
     (if \<not> skip \<and> \<not> is_git_global_option_with_inline_value arg \<and> \<not> is_git_global_option_with_value arg \<and> \<not> prefix ''-'' arg
      then if arg \<in> set subs then Some (idx, arg) else None
      else git_scan subs (\<not> skip \<and> \<not> is_git_global_option_with_inline_value arg \<and> is_git_global_option_with_value arg) (Suc idx) args)"
  by simp

lemma git_scan_split:
  "git_scan subs skip idx args = Some (j, sub) \<Longrightarrow>
     \<exists>globals rest. args = globals @ sub # rest \<and> j = idx + length globals \<and> sub \<in> set subs \<and>
       (\<not> skip \<longrightarrow> list_all (\<lambda>g. \<not> git_matches_option_pattern g UNSAFE_GIT_GLOBAL_OPTIONS) globals \<longrightarrow>
          list_all (prefix ''-'') globals)"
proof (induction args arbitrary: skip idx)
  case (Cons arg args)
  let ?I = "is_git_global_option_with_inline_value arg" and ?V = "is_git_global_option_with_value arg"
  show ?case
  proof (cases "\<not> skip \<and> \<not> ?I \<and> \<not> ?V \<and> \<not> prefix ''-'' arg")
    case True
    then have "j = idx" "sub = arg" "arg \<in> set subs" using Cons.prems unfolding git_scan_step by (simp_all split: if_splits)
    then show ?thesis by (intro exI[of _ "[]"] exI[of _ args]) simp
  next
    case False
    then have "git_scan subs (\<not> skip \<and> \<not> ?I \<and> ?V) (Suc idx) args = Some (j, sub)"
      using Cons.prems unfolding git_scan_step if_not_P[OF False] by blast
    from Cons.IH[OF this] obtain globals rest where
      g: "args = globals @ sub # rest" "j = Suc idx + length globals" "sub \<in> set subs"
        "\<not> (\<not> skip \<and> \<not> ?I \<and> ?V) \<longrightarrow> list_all (\<lambda>g. \<not> git_matches_option_pattern g UNSAFE_GIT_GLOBAL_OPTIONS) globals \<longrightarrow>
           list_all (prefix ''-'') globals" by blast
    have "list_all (prefix ''-'') (arg # globals)"
      if "\<not> skip" "list_all (\<lambda>g. \<not> git_matches_option_pattern g UNSAFE_GIT_GLOBAL_OPTIONS) (arg # globals)"
      using that False g(4) option_value_unsafe[of arg] by simp blast
    then show ?thesis using g(1-3) by (intro exI[of _ "arg # globals"] exI[of _ rest]) simp
  qed
qed simp

lemma branch_flags_all: "branch_flags saw args \<Longrightarrow> list_all branch_listing_flag args"
  by (induction args arbitrary: saw) (auto split: if_splits)

text \<open>
  C30. A git command that counts as safe is one of five reading subcommands, with nothing but
  options before it, none of which redirects git to other directories, configurations or programs
  or starts a pager, and with no option after it that writes a file or runs a program; a branch
  command only lists.
\<close>

theorem safe_git_only_reads:
  assumes "is_safe_git_command cmd"
  shows "\<exists>c globals sub args. cmd = c # globals @ sub # args \<and> file_name c = Some ''git'' \<and>
    sub \<in> {''status'', ''log'', ''diff'', ''show'', ''branch''} \<and>
    list_all (\<lambda>g. prefix ''-'' g \<and> \<not> git_matches_option_pattern g UNSAFE_GIT_GLOBAL_OPTIONS) globals \<and>
    list_all (\<lambda>a. \<not> git_matches_option_pattern a UNSAFE_GIT_SUBCOMMAND_OPTIONS) args \<and>
    (sub = ''branch'' \<longrightarrow> list_all branch_listing_flag args)"
proof -
  let ?subs = "[''status'', ''log'', ''diff'', ''show'', ''branch'']"
  obtain idx sub where f: "find_git_subcommand cmd ?subs = Some (idx, sub)"
    using assms by (auto simp: is_safe_git_command_def split: option.splits)
  then obtain c rest where c: "cmd = c # rest" "file_name c = Some ''git''" "git_scan ?subs False 1 rest = Some (idx, sub)"
    by (auto simp: find_git_subcommand_def executable_name_lookup_key_def split: list.splits if_splits)
  from git_scan_split[OF c(3)] obtain globals args where g: "rest = globals @ sub # args" "idx = 1 + length globals" "sub \<in> set ?subs"
    "list_all (\<lambda>g. \<not> git_matches_option_pattern g UNSAFE_GIT_GLOBAL_OPTIONS) globals \<longrightarrow> list_all (prefix ''-'') globals"
    by blast
  have parts: "take (idx - 1) (drop 1 cmd) = globals" "drop (idx + 1) cmd = args" using c(1) g(1,2) by simp_all
  have safe: "\<not> git_has_unsafe_global_option globals" "git_subcommand_args_are_read_only args"
    "sub = ''branch'' \<longrightarrow> git_branch_is_read_only args"
    using assms unfolding is_safe_git_command_def f option.case prod.case Let_def parts by (auto split: if_splits)
  have ok: "list_all (\<lambda>g. \<not> git_matches_option_pattern g UNSAFE_GIT_GLOBAL_OPTIONS) globals"
    using safe(1) by (simp add: git_has_unsafe_global_option_def list_ex_iff list_all_iff)
  moreover have "list_all (\<lambda>a. \<not> git_matches_option_pattern a UNSAFE_GIT_SUBCOMMAND_OPTIONS) args"
    using safe(2) by (simp add: git_subcommand_args_are_read_only_def list_ex_iff list_all_iff)
  moreover have "sub = ''branch'' \<longrightarrow> list_all branch_listing_flag args"
    using safe(3) branch_flags_all by (auto simp: git_branch_is_read_only_def split: if_splits)
  moreover have "cmd = c # globals @ sub # args" "sub \<in> {''status'', ''log'', ''diff'', ''show'', ''branch''}" using c(1) g(1,3) by simp_all
  moreover have "list_all (\<lambda>g. prefix ''-'' g \<and> \<not> git_matches_option_pattern g UNSAFE_GIT_GLOBAL_OPTIONS) globals"
    using g(4) ok by (simp add: list_all_iff)
  ultimately show ?thesis using c(2) by blast
qed

theorem safe_git_only_reads_witness:
  "is_safe_git_command [''/usr/bin/git'', ''--no-pager'', ''branch'', ''-v''] \<and>
   (\<exists>c globals sub args. [''/usr/bin/git'', ''--no-pager'', ''branch'', ''-v''] = c # globals @ sub # args \<and>
      list_all (\<lambda>g. \<not> git_matches_option_pattern g UNSAFE_GIT_GLOBAL_OPTIONS) globals)"
proof -
  have 1: "is_safe_git_command [''/usr/bin/git'', ''--no-pager'', ''branch'', ''-v'']" by code_simp
  from safe_git_only_reads[OF 1] 1 show ?thesis by (fastforce simp: list_all_iff)
qed

section \<open>Wrapped commands\<close>

lemma sudo_facts: "file_name ''sudo'' = Some ''sudo''" "file_name ''rm'' = Some ''rm''"
  "detect_shell_type ''sudo'' = Some None" by code_simp+

lemma sudo_step:
  "dangerous_command_match_with_depth parse_bash (''sudo'' # args) d =
     (if d > 8 then None else dangerous_command_match_with_depth parse_bash args (d + 1))"
proof -
  have "parse_shell_lc_literal_commands parse_bash (''sudo'' # args) = None"
    using extract_needs_shell[OF sudo_facts(3)] by (simp add: parse_shell_lc_literal_commands_def)
  then show ?thesis
    by (subst dangerous_command_match_with_depth.simps)
      (simp add: exec_step_def executable_name_lookup_key_def sudo_facts Let_def MAX_DANGEROUS_COMMAND_WRAPPER_DEPTH_def split: option.split)
qed

text \<open>
  A forced removal is recognised under up to eight wrappers and under no more: the search gives
  up on a command that is wrapped deeper.
\<close>

theorem forced_rm_under_sudo:
  assumes "rm_args_include_force_option args"
  shows "dangerous_command_match parse_bash (replicate n ''sudo'' @ ''rm'' # args) = (if n \<le> 8 then Some ForcedRm else None)"
proof -
  have "dangerous_command_match_with_depth parse_bash (replicate n ''sudo'' @ ''rm'' # args) d = (if n + d \<le> 8 then Some ForcedRm else None)" for d
  proof (induction n arbitrary: d)
    case 0
    then show ?case
      by (subst dangerous_command_match_with_depth.simps)
        (simp add: exec_step_def executable_name_lookup_key_def sudo_facts assms Let_def MAX_DANGEROUS_COMMAND_WRAPPER_DEPTH_def)
  qed (simp add: sudo_step)
  then show ?thesis by (simp add: dangerous_command_match_def)
qed

theorem forced_rm_under_sudo_witness:
  "dangerous_command_match ls_parser (replicate 8 ''sudo'' @ ''rm'' # [''-rf'', ''/'']) = Some ForcedRm \<and>
   dangerous_command_match ls_parser (replicate 9 ''sudo'' @ ''rm'' # [''-rf'', ''/'']) = None"
proof -
  have "rm_args_include_force_option [''-rf'', ''/'']" by code_simp
  from forced_rm_under_sudo[OF this] show ?thesis by simp
qed

section \<open>Options that slip through\<close>

text \<open>
  The fourth word of \<open>sed -n 1p\<close> is not checked, so an option with another script counts as safe,
  and \<open>-z\<close> of ripgrep is recognised on its own but not among other short options.
\<close>

lemma sed_script_option_counts_as_safe: "is_safe_to_call_with_exec [''sed'', ''-n'', ''1p'', ''-ew out'']"
  by code_simp

lemma ripgrep_option_cluster_counts_as_safe:
  "is_safe_to_call_with_exec [''rg'', ''-iz'', ''pattern''] \<and> \<not> is_safe_to_call_with_exec [''rg'', ''-i'', ''-z'', ''pattern'']"
  by code_simp

end
