(* ===== verification/Command_Approval.thy ===== *)
theory Command_Approval
  imports Command_Safety Policy_Parser Policy_Amend
begin

text \<open>
  \<open>core/src/exec_policy.rs\<close> and \<open>exec_policy/model_policy.rs\<close> in the Linux build: whether a command
  runs, needs approval or is forbidden, and how an accepted amendment changes the policy. Not in
  the repository and so parameters (\<open>approval_env\<close>) are the bash parser, absolute paths,
  \<open>shlex::try_join\<close> and the JSON printer. The policy is an \<open>ArcSwap\<close> that updates replace under a
  semaphore, so an update is one step from the manager and the file system to their next states.
  A panic of \<open>Evaluation::from_matches\<close> is \<open>None\<close>.
\<close>

section \<open>Requests\<close>

record granular_config =
  sandbox_approval :: bool
  rules_approval :: bool
  skill_approval :: bool
  request_permissions :: bool
  mcp_elicitations :: bool

datatype ask_for_approval = UnlessTrusted | OnRequest | Granular granular_config | Never

datatype sandbox_permissions = UseDefault | RequireEscalated | WithAdditionalPermissions

fun requests_sandbox_override :: "sandbox_permissions \<Rightarrow> bool" where
  "requests_sandbox_override UseDefault = False"
| "requests_sandbox_override _ = True"

datatype sandbox_kind = Restricted | Unrestricted | ExternalSandbox

text \<open>\<open>'e\<close> stands for the entries of a restricted sandbox, \<open>'n\<close> for the network policy.\<close>

datatype 'e managed_file_system = ManagedRestricted "'e list" "nat option" | ManagedUnrestricted

datatype ('e, 'n) permission_profile = Managed "'e managed_file_system" 'n | DisabledProfile | External 'n

fun sandbox_kind_of :: "('e, 'n) permission_profile \<Rightarrow> sandbox_kind" where
  "sandbox_kind_of (Managed (ManagedRestricted _ _) _) = Restricted"
| "sandbox_kind_of (Managed ManagedUnrestricted _) = Unrestricted"
| "sandbox_kind_of DisabledProfile = Unrestricted"
| "sandbox_kind_of (External _) = ExternalSandbox"

datatype allow_prefix_rules = Honor | IgnoreForCyberModel

record ('e, 'n) exec_approval_request =
  req_command :: command
  approval_policy :: ask_for_approval
  req_permission_profile :: "('e, 'n) permission_profile"
  req_sandbox_permissions :: sandbox_permissions
  req_prefix_rule :: "command option"
  req_allow_prefix_rules :: allow_prefix_rules

datatype exec_approval_requirement =
  Skip bool "command option"                     \<comment> \<open>bypass\_sandbox, proposed amendment\<close>
| NeedsApproval "rust_str option" "command option"  \<comment> \<open>reason, proposed amendment\<close>
| ForbiddenReq rust_str                          \<comment> \<open>reason\<close>

record 'a approval_env =
  parse_bash :: bash_parser
  paths :: "'a abs_paths"
  shlex_try_join :: "command \<Rightarrow> rust_str option"
  to_json :: "rust_str \<Rightarrow> rust_str"

section \<open>Reading the command\<close>

record exec_policy_commands =
  commands :: "command list"
  used_complex_parsing :: bool

definition commands_for_exec_policy :: "bash_parser \<Rightarrow> command \<Rightarrow> exec_policy_commands" where
  "commands_for_exec_policy parse cmd =
     (case parse_shell_lc_plain_commands parse cmd of
        Some (c # cs) \<Rightarrow> \<lparr>commands = c # cs, used_complex_parsing = False\<rparr>
      | _ \<Rightarrow>
          (case parse_shell_lc_single_command_prefix parse cmd of
             Some single \<Rightarrow> \<lparr>commands = [single], used_complex_parsing = True\<rparr>
           | None \<Rightarrow> \<lparr>commands = [cmd], used_complex_parsing = False\<rparr>))"

fun is_policy_match :: "'a rule_match \<Rightarrow> bool" where
  "is_policy_match (PrefixRuleMatch _ _ _ _) = True"
| "is_policy_match (HeuristicsRuleMatch _ _) = False"

definition PROMPT_CONFLICT_REASON :: rust_str where
  "PROMPT_CONFLICT_REASON = ''approval required by policy, but AskForApproval is set to Never''"

definition REJECT_SANDBOX_APPROVAL_REASON :: rust_str where
  "REJECT_SANDBOX_APPROVAL_REASON =
     ''approval required by policy, but AskForApproval::Granular.sandbox_approval is false''"

definition REJECT_RULES_APPROVAL_REASON :: rust_str where
  "REJECT_RULES_APPROVAL_REASON = ''approval required by policy rule, but AskForApproval::Granular.rules is false''"

fun prompt_is_rejected_by_policy :: "ask_for_approval \<Rightarrow> bool \<Rightarrow> rust_str option" where
  "prompt_is_rejected_by_policy Never prompt_is_rule = Some PROMPT_CONFLICT_REASON"
| "prompt_is_rejected_by_policy OnRequest prompt_is_rule = None"
| "prompt_is_rejected_by_policy UnlessTrusted prompt_is_rule = None"
| "prompt_is_rejected_by_policy (Granular g) prompt_is_rule =
     (if prompt_is_rule then (if \<not> rules_approval g then Some REJECT_RULES_APPROVAL_REASON else None)
      else if \<not> sandbox_approval g then Some REJECT_SANDBOX_APPROVAL_REASON
      else None)"

section \<open>Commands that no rule matches\<close>

definition render_decision_for_unmatched_command ::
    "bash_parser \<Rightarrow> ask_for_approval \<Rightarrow> ('e, 'n) permission_profile \<Rightarrow> sandbox_permissions \<Rightarrow> bool \<Rightarrow> command \<Rightarrow> decision" where
  "render_decision_for_unmatched_command parse policy profile sandbox complex cmd =
     (let dangerous = dangerous_command_match parse cmd; is_known_safe = is_known_safe_command parse cmd
      in if is_known_safe \<and> \<not> complex \<and> policy = UnlessTrusted then Allow
         else if dangerous \<noteq> None then (case policy of Never \<Rightarrow> Forbidden | _ \<Rightarrow> Prompt)
         else case policy of
                Never \<Rightarrow> Allow
              | UnlessTrusted \<Rightarrow> Prompt
              | OnRequest \<Rightarrow>
                  (case sandbox_kind_of profile of
                     Restricted \<Rightarrow> if requests_sandbox_override sandbox then Prompt else Allow
                   | _ \<Rightarrow> Allow)
              | Granular _ \<Rightarrow>
                  (case sandbox_kind_of profile of
                     Restricted \<Rightarrow> if requests_sandbox_override sandbox then Prompt else Allow
                   | _ \<Rightarrow> Allow))"

fun heuristics_danger :: "bash_parser \<Rightarrow> decision \<Rightarrow> 'a rule_match \<Rightarrow> dangerous_match option" where
  "heuristics_danger parse d (HeuristicsRuleMatch cmd d') = (if d' = d then dangerous_command_match parse cmd else None)"
| "heuristics_danger parse d _ = None"

definition dangerous_command_match_for_heuristics ::
    "bash_parser \<Rightarrow> 'a evaluation \<Rightarrow> decision \<Rightarrow> dangerous_match option" where
  "dangerous_command_match_for_heuristics parse ev d = find_map (heuristics_danger parse d) (matched_rules ev)"

section \<open>Reasons\<close>

definition render_shlex_command :: "'a approval_env \<Rightarrow> command \<Rightarrow> rust_str" where
  "render_shlex_command E args = (case shlex_try_join E args of Some s \<Rightarrow> s | None \<Rightarrow> join_with '' '' args)"

text \<open>\<open>max_by_key\<close>: the last element with the greatest key.\<close>

fun max_by_key :: "('a \<Rightarrow> nat) \<Rightarrow> 'a list \<Rightarrow> 'a option" where
  "max_by_key f [] = None"
| "max_by_key f (x # xs) = (case max_by_key f xs of Some y \<Rightarrow> if f x > f y then Some x else Some y | None \<Rightarrow> Some x)"

fun matched_prefix_of :: "decision \<Rightarrow> 'a rule_match \<Rightarrow> (command \<times> rust_str option) option" where
  "matched_prefix_of d (PrefixRuleMatch m d' _ j) = (if d' = d then Some (m, j) else None)"
| "matched_prefix_of d _ = None"

definition most_specific :: "decision \<Rightarrow> 'a evaluation \<Rightarrow> (command \<times> rust_str option) option" where
  "most_specific d ev = max_by_key (\<lambda>(m, _). length m) (List.map_filter (matched_prefix_of d) (matched_rules ev))"

definition backquoted :: "rust_str \<Rightarrow> rust_str" where
  "backquoted s = [CHR 0x60] @ s @ [CHR 0x60]"

definition derive_prompt_reason :: "'a approval_env \<Rightarrow> command \<Rightarrow> 'a evaluation \<Rightarrow> rust_str option" where
  "derive_prompt_reason E cmd ev =
     (let shown = backquoted (render_shlex_command E cmd)
      in case most_specific Prompt ev of
           Some (_, Some justification) \<Rightarrow> Some (shown @ '' requires approval: '' @ justification)
         | Some (_, None) \<Rightarrow> Some (shown @ '' requires approval by policy'')
         | None \<Rightarrow> None)"

fun dangerous_command_rejection_reason :: "dangerous_match \<Rightarrow> rust_str" where
  "dangerous_command_rejection_reason ForcedRm = ''rm -f style commands are not permitted. Use a safer approach''"
| "dangerous_command_rejection_reason OtherDanger = ''blocked by policy''"

definition derive_forbidden_reason :: "'a approval_env \<Rightarrow> command \<Rightarrow> 'a evaluation \<Rightarrow> dangerous_match option \<Rightarrow> rust_str" where
  "derive_forbidden_reason E cmd ev danger =
     (let shown = backquoted (render_shlex_command E cmd)
      in case most_specific Forbidden ev of
           Some (_, Some justification) \<Rightarrow> shown @ '' rejected: '' @ justification
         | Some (matched, None) \<Rightarrow>
             shown @ '' rejected: policy forbids commands starting with '' @ backquoted (render_shlex_command E matched)
         | None \<Rightarrow>
             (case danger of
                Some m \<Rightarrow> shown @ '' rejected: '' @ dangerous_command_rejection_reason m
              | None \<Rightarrow> shown @ '' rejected: blocked by policy''))"

definition derive_rejected_prompt_reason :: "rust_str \<Rightarrow> dangerous_match option \<Rightarrow> rust_str" where
  "derive_rejected_prompt_reason fallback_reason danger =
     (case danger of Some ForcedRm \<Rightarrow> dangerous_command_rejection_reason ForcedRm | _ \<Rightarrow> fallback_reason)"

section \<open>Proposed amendments\<close>

definition BANNED_PREFIX_SUGGESTIONS :: "command list" where
  "BANNED_PREFIX_SUGGESTIONS =
     [[''/bin/bash''], [''/bin/bash'', ''-c''], [''/bin/bash'', ''-lc''], [''/bin/sh''], [''/bin/sh'', ''-c''],
      [''/bin/sh'', ''-lc''], [''/bin/zsh''], [''/bin/zsh'', ''-c''], [''/bin/zsh'', ''-lc''], [''Rscript''], [''bash''],
      [''bash'', ''-c''], [''bash'', ''-lc''], [''bun''], [''bun'', ''-e''], [''bun'', ''run''], [''cmd''],
      [''cmd'', ''/c''], [''cmd'', ''/k''], [''cmd.exe''], [''cmd.exe'', ''/c''], [''cmd.exe'', ''/k''], [''dash''],
      [''dash'', ''-c''], [''deno''], [''deno'', ''eval''], [''env''], [''fish''], [''fish'', ''-c''], [''git''],
      [''julia''], [''julia'', ''-e''], [''ksh''], [''ksh'', ''-c''], [''lua''], [''lua'', ''-e''], [''node''],
      [''node'', ''-e''], [''nodejs''], [''nodejs'', ''-e''], [''npm'', ''run''], [''osascript''], [''perl''],
      [''perl'', ''-e''], [''php''], [''php'', ''-r''], [''pnpm'', ''run''], [''powershell''],
      [''powershell'', ''-Command''], [''powershell'', ''-EncodedCommand''], [''powershell'', ''-File''],
      [''powershell'', ''-c''], [''powershell.exe''], [''powershell.exe'', ''-Command''],
      [''powershell.exe'', ''-EncodedCommand''], [''powershell.exe'', ''-File''], [''powershell.exe'', ''-c''], [''pwsh''],
      [''pwsh'', ''-Command''], [''pwsh'', ''-EncodedCommand''], [''pwsh'', ''-File''], [''pwsh'', ''-c''],
      [''pwsh'', ''-e''], [''pwsh'', ''-ec''], [''pwsh'', ''-f''], [''py''], [''py'', ''-3''], [''pypy''], [''pypy3''],
      [''python''], [''python'', ''-''], [''python'', ''-c''], [''python3''], [''python3'', ''-''], [''python3'', ''-c''],
      [''pythonw''], [''pyw''], [''rm''], [''ruby''], [''ruby'', ''-e''], [''sh''], [''sh'', ''-c''], [''sh'', ''-lc''],
      [''sudo''], [''yarn'', ''run''], [''zsh''], [''zsh'', ''-c''], [''zsh'', ''-lc'']]"

fun heuristics_command :: "decision \<Rightarrow> 'a rule_match \<Rightarrow> command option" where
  "heuristics_command d (HeuristicsRuleMatch cmd d') = (if d' = d then Some cmd else None)"
| "heuristics_command d _ = None"

definition try_derive_execpolicy_amendment_for_prompt_rules :: "'a rule_match list \<Rightarrow> command option" where
  "try_derive_execpolicy_amendment_for_prompt_rules ms =
     (if list_ex (\<lambda>m. is_policy_match m \<and> match_decision m = Prompt) ms then None
      else find_map (heuristics_command Prompt) ms)"

definition try_derive_execpolicy_amendment_for_allow_rules :: "'a rule_match list \<Rightarrow> command option" where
  "try_derive_execpolicy_amendment_for_allow_rules ms =
     (if list_ex is_policy_match ms then None else find_map (heuristics_command Allow) ms)"

definition prefix_rule_would_approve_all_commands ::
    "'a abs_paths \<Rightarrow> 'a policy \<Rightarrow> command \<Rightarrow> command list \<Rightarrow> (command \<Rightarrow> decision) \<Rightarrow> match_options \<Rightarrow> bool" where
  "prefix_rule_would_approve_all_commands A p prefix_rule cmds fallback options =
     (case add_prefix_rule prefix_rule Allow p of
        Inl _ \<Rightarrow> False
      | Inr p' \<Rightarrow>
          list_all (\<lambda>c. map_option eval_decision (check_with_options A p' c fallback options) = Some Allow) cmds)"

definition derive_requested_execpolicy_amendment_from_prefix_rule ::
    "'a abs_paths \<Rightarrow> command option \<Rightarrow> 'a rule_match list \<Rightarrow> 'a policy \<Rightarrow> command list \<Rightarrow> (command \<Rightarrow> decision) \<Rightarrow>
     match_options \<Rightarrow> command option" where
  "derive_requested_execpolicy_amendment_from_prefix_rule A requested ms p cmds fallback options =
     (case requested of
        None \<Rightarrow> None
      | Some prefix_rule \<Rightarrow>
          if prefix_rule = [] then None
          else if prefix_rule \<in> set BANNED_PREFIX_SUGGESTIONS then None
          else if list_ex is_policy_match ms then None
          else if prefix_rule_would_approve_all_commands A p prefix_rule cmds fallback options then Some prefix_rule
          else None)"

section \<open>The decision\<close>

definition current_for_prefix_rules :: "allow_prefix_rules \<Rightarrow> 'a policy \<Rightarrow> 'a policy" where
  "current_for_prefix_rules allow p =
     (if allow = Honor then p
      else p\<lparr>rules_by_program := filter (\<lambda>(_, rules). rules \<noteq> [])
               (map (\<lambda>(program, rules). (program, filter (\<lambda>r. rule_decision r \<noteq> Allow) rules)) (rules_by_program p))\<rparr>)"

abbreviation host_options :: match_options where
  "host_options \<equiv> \<lparr>resolve_host_executables = True\<rparr>"

definition approval_requirement ::
    "'a approval_env \<Rightarrow> 'a policy \<Rightarrow> ('e, 'n) exec_approval_request \<Rightarrow> exec_policy_commands \<Rightarrow> (command \<Rightarrow> decision) \<Rightarrow>
     'a evaluation \<Rightarrow> exec_approval_requirement" where
  "approval_requirement E p req parsed fallback ev =
     (let cmds = commands parsed;
          auto_amendment_allowed = (\<not> used_complex_parsing parsed \<and> req_allow_prefix_rules req = Honor);
          requested_amendment =
            (if auto_amendment_allowed
             then derive_requested_execpolicy_amendment_from_prefix_rule (paths E) (req_prefix_rule req) (matched_rules ev) p
                    cmds fallback host_options
             else None)
      in case eval_decision ev of
           Forbidden \<Rightarrow>
             ForbiddenReq (derive_forbidden_reason E (req_command req) ev
               (dangerous_command_match_for_heuristics (parse_bash E) ev Forbidden))
         | Prompt \<Rightarrow>
             (let prompt_is_rule = list_ex (\<lambda>m. is_policy_match m \<and> match_decision m = Prompt) (matched_rules ev)
              in case prompt_is_rejected_by_policy (approval_policy req) prompt_is_rule of
                   Some reason \<Rightarrow>
                     if prompt_is_rule then ForbiddenReq reason
                     else ForbiddenReq (derive_rejected_prompt_reason reason
                            (dangerous_command_match_for_heuristics (parse_bash E) ev Prompt))
                 | None \<Rightarrow>
                     NeedsApproval (derive_prompt_reason E (req_command req) ev)
                       (case requested_amendment of
                          Some a \<Rightarrow> Some a
                        | None \<Rightarrow> if auto_amendment_allowed
                                  then try_derive_execpolicy_amendment_for_prompt_rules (matched_rules ev) else None))
         | Allow \<Rightarrow>
             Skip (list_all (\<lambda>c. list_ex (\<lambda>m. is_policy_match m \<and> match_decision m = Allow)
                     (matches_for_command_with_options (paths E) p c None host_options)) cmds)
               (if auto_amendment_allowed then try_derive_execpolicy_amendment_for_allow_rules (matched_rules ev) else None))"

definition unmatched_fallback ::
    "'a approval_env \<Rightarrow> ('e, 'n) exec_approval_request \<Rightarrow> exec_policy_commands \<Rightarrow> command \<Rightarrow> decision" where
  "unmatched_fallback E req parsed =
     render_decision_for_unmatched_command (parse_bash E) (approval_policy req) (req_permission_profile req)
       (req_sandbox_permissions req) (used_complex_parsing parsed)"

definition create_exec_approval_requirement_for_command ::
    "'a approval_env \<Rightarrow> 'a policy \<Rightarrow> ('e, 'n) exec_approval_request \<Rightarrow> exec_approval_requirement option" where
  "create_exec_approval_requirement_for_command E current req =
     (let p = current_for_prefix_rules (req_allow_prefix_rules req) current;
          parsed = commands_for_exec_policy (parse_bash E) (req_command req);
          fallback = unmatched_fallback E req parsed
      in map_option (approval_requirement E p req parsed fallback)
           (check_multiple_with_options (paths E) p (commands parsed) fallback host_options))"

section \<open>Updating the policy\<close>

datatype policy_update_error = AppendRule abs_path amend_error | AddRule policy_error

definition default_policy_path :: "abs_path \<Rightarrow> abs_path" where
  "default_policy_path codex_home = codex_home @ [''rules'', ''default.rules'']"

definition already_allowed :: "'a abs_paths \<Rightarrow> 'a policy \<Rightarrow> command \<Rightarrow> bool option" where
  "already_allowed A p cmd =
     map_option (\<lambda>ev. eval_decision ev = Allow \<and> list_ex (\<lambda>m. is_policy_match m \<and> match_decision m = Allow) (matched_rules ev))
       (check_multiple_with_options A p [cmd] (\<lambda>_. Forbidden) host_options)"

definition append_amendment_and_update ::
    "'a approval_env \<Rightarrow> abs_path \<Rightarrow> command \<Rightarrow> 'a policy \<times> os_world \<Rightarrow> ((policy_update_error, unit) result \<times> 'a policy \<times> os_world) option" where
  "append_amendment_and_update E codex_home amendment s =
     (case s of (p, w) \<Rightarrow>
        (let policy_path = default_policy_path codex_home
         in case blocking_append_allow_prefix_rule (to_json E) w policy_path amendment of
              (Inl e, w') \<Rightarrow> Some (Err (AppendRule policy_path e), p, w')
            | (Inr _, w') \<Rightarrow>
                (case already_allowed (paths E) p amendment of
                   None \<Rightarrow> None
                 | Some True \<Rightarrow> Some (Ok (), p, w')
                 | Some False \<Rightarrow>
                     (case add_prefix_rule amendment Allow p of
                        Inl e \<Rightarrow> Some (Err (AddRule e), p, w')
                      | Inr p' \<Rightarrow> Some (Ok (), p', w')))))"

definition append_network_rule_and_update ::
    "'a approval_env \<Rightarrow> abs_path \<Rightarrow> rust_str \<Rightarrow> network_rule_protocol \<Rightarrow> decision \<Rightarrow> rust_str option \<Rightarrow> 'a policy \<times> os_world \<Rightarrow>
     (policy_update_error, unit) result \<times> 'a policy \<times> os_world" where
  "append_network_rule_and_update E codex_home h pr d j s =
     (case s of (p, w) \<Rightarrow>
        (let policy_path = default_policy_path codex_home
         in case blocking_append_network_rule (to_json E) w policy_path h pr d j of
              (Inl e, w') \<Rightarrow> (Err (AppendRule policy_path e), p, w')
            | (Inr _, w') \<Rightarrow>
                (case add_network_rule h pr d j p of
                   Inl e \<Rightarrow> (Err (AddRule e), p, w')
                 | Inr p' \<Rightarrow> (Ok (), p', w'))))"

section \<open>Loading the policy\<close>

text \<open>
  A layer of the configuration: whether it belongs to the user or a project, and the rule files of
  its folder as \<open>collect_policy_files\<close> finds them, each with the result of reading it.
\<close>

datatype exec_policy_error = ReadDir rust_str io_error | ReadFile rust_str io_error | ParsePolicy rust_str policy_error

record policy_layer =
  user_or_project :: bool
  policy_files :: "(exec_policy_error, (rust_str \<times> (io_error, rust_str) result) list) result option"

record 'a config_stack =
  layers_low_to_high :: "policy_layer list"
  ignore_user_and_project_rules :: bool
  requirements_policy :: "'a policy option"

fun collect_layers :: "bool \<Rightarrow> policy_layer list \<Rightarrow> (exec_policy_error, (rust_str \<times> (io_error, rust_str) result) list) result" where
  "collect_layers ignore [] = Ok []"
| "collect_layers ignore (layer # layers) =
     (if ignore \<and> user_or_project layer then collect_layers ignore layers
      else case policy_files layer of
             None \<Rightarrow> collect_layers ignore layers
           | Some files \<Rightarrow> bind_result files (\<lambda>fs. bind_result (collect_layers ignore layers) (\<lambda>rest. Ok (fs @ rest))))"

fun parse_files ::
    "(rust_str \<Rightarrow> rust_str \<Rightarrow> 'b \<Rightarrow> (policy_error, unit) result \<times> 'b) \<Rightarrow>
     (rust_str \<times> (io_error, rust_str) result) list \<Rightarrow> 'b \<Rightarrow> (exec_policy_error, 'b) result" where
  "parse_files parse [] b = Ok b"
| "parse_files parse ((path, contents) # files) b =
     (case contents of
        Inl e \<Rightarrow> Err (ReadFile path e)
      | Inr text \<Rightarrow>
          (case parse path text b of
             (Inl e, _) \<Rightarrow> Err (ParsePolicy path e)
           | (Inr _, b') \<Rightarrow> parse_files parse files b'))"

definition load_exec_policy ::
    "(rust_str \<Rightarrow> rust_str \<Rightarrow> 'a policy_builder \<Rightarrow> (policy_error, unit) result \<times> 'a policy_builder) \<Rightarrow> 'a config_stack \<Rightarrow>
     (exec_policy_error, 'a policy) result" where
  "load_exec_policy parse stack =
     bind_result (collect_layers (ignore_user_and_project_rules stack) (layers_low_to_high stack)) (\<lambda>files.
     bind_result (parse_files parse files new_builder) (\<lambda>b.
       Ok (case requirements_policy stack of None \<Rightarrow> build b | Some req \<Rightarrow> merge_overlay (build b) req)))"

definition load_exec_policy_with_warning ::
    "(rust_str \<Rightarrow> rust_str \<Rightarrow> 'a policy_builder \<Rightarrow> (policy_error, unit) result \<times> 'a policy_builder) \<Rightarrow> 'a config_stack \<Rightarrow>
     (exec_policy_error, 'a policy \<times> exec_policy_error option) result" where
  "load_exec_policy_with_warning parse stack =
     (case load_exec_policy parse stack of
        Inr p \<Rightarrow> Ok (p, None)
      | Inl (ParsePolicy path e) \<Rightarrow>
          Ok (case requirements_policy stack of None \<Rightarrow> empty_policy | Some req \<Rightarrow> req, Some (ParsePolicy path e))
      | Inl e \<Rightarrow> Err e)"

end
