(* ===== verification/Absolute_Path.thy ===== *)
theory Absolute_Path
  imports Shell_Script Exec_Policy_Props
begin

text \<open>
  \<open>utils/absolute-path\<close> in the Unix build: \<open>AbsolutePathBuf\<close> and its normalisation
  (\<open>absolutize.rs\<close>). \<open>std::path\<close> compares paths by their components, so a path is the list of its
  components. The home directory and the working directory of the process are the parameters
  \<open>home\<close> and \<open>cwd\<close>; \<open>None\<close> stands for a missing home and a failing \<open>current_dir\<close>. The system reports
  the working directory as an absolute path, so \<open>cwd\<close> is what follows its first slash. The
  thread-local guard of the deserialiser and the functions that ask the file system are not modelled.
\<close>

section \<open>Paths as components\<close>

type_synonym path = "path_component list"

definition is_absolute :: "path \<Rightarrow> bool" where
  "is_absolute p \<longleftrightarrow> take 1 p = [RootDir]"

text \<open>\<open>PathBuf::push\<close>, \<open>pop\<close> and \<open>join\<close>: an absolute path replaces, a root has no parent.\<close>

definition buf_join :: "path \<Rightarrow> path \<Rightarrow> path" where
  "buf_join base p =
     (if is_absolute p then p else base @ (if base = [] then p else filter (\<lambda>c. c \<noteq> CurDir) p))"

definition buf_pop :: "path \<Rightarrow> path" where
  "buf_pop p = (case last_opt p of Some RootDir \<Rightarrow> p | _ \<Rightarrow> butlast p)"

definition buf_file_name :: "path \<Rightarrow> rust_str option" where
  "buf_file_name p = (case last_opt p of Some (Normal n) \<Rightarrow> Some n | _ \<Rightarrow> None)"

section \<open>Normalisation\<close>

fun normalize_step :: "path_component \<Rightarrow> path \<Rightarrow> path" where
  "normalize_step CurDir normalized = normalized"
| "normalize_step ParentDir normalized = buf_pop normalized"
| "normalize_step RootDir normalized = buf_join normalized [RootDir]"
| "normalize_step (Normal n) normalized = buf_join normalized [Normal n]"

definition normalize_path :: "path \<Rightarrow> path" where
  "normalize_path p = (let normalized = fold normalize_step p [] in if normalized = [] then [CurDir] else normalized)"

definition path_with_base :: "path \<Rightarrow> path \<Rightarrow> path" where
  "path_with_base p base = (if is_absolute p then p else buf_join base p)"

definition absolutize_from :: "path \<Rightarrow> path \<Rightarrow> path" where
  "absolutize_from p base = normalize_path (path_with_base p base)"

definition current_dir :: "rust_str option \<Rightarrow> path option" where
  "current_dir cwd = map_option (\<lambda>s. path_components (''/'' @ s)) cwd"

definition absolutize :: "rust_str option \<Rightarrow> path \<Rightarrow> path option" where
  "absolutize cwd p = (if is_absolute p then Some (normalize_path p) else map_option (absolutize_from p) (current_dir cwd))"

section \<open>Absolute paths\<close>

definition maybe_expand_home_directory :: "rust_str option \<Rightarrow> rust_str \<Rightarrow> path" where
  "maybe_expand_home_directory home p =
     (case (strip_prefix ''~'' p, home) of
        (Some rest, Some home) \<Rightarrow>
          if rest = [] then path_components home
          else (case strip_prefix ''/'' rest of
                  Some rest \<Rightarrow> buf_join (path_components home) (path_components (dropWhile (\<lambda>c. c = CHR ''/'') rest))
                | None \<Rightarrow> path_components p)
      | _ \<Rightarrow> path_components p)"

definition resolve_path_against_base :: "rust_str option \<Rightarrow> rust_str \<Rightarrow> path \<Rightarrow> path" where
  "resolve_path_against_base home p base = absolutize_from (maybe_expand_home_directory home p) base"

definition from_absolute_path :: "rust_str option \<Rightarrow> rust_str option \<Rightarrow> rust_str \<Rightarrow> path option" where
  "from_absolute_path home cwd p = absolutize cwd (maybe_expand_home_directory home p)"

definition from_absolute_path_checked :: "rust_str option \<Rightarrow> rust_str \<Rightarrow> path option" where
  "from_absolute_path_checked home p =
     (let expanded = maybe_expand_home_directory home p
      in if \<not> is_absolute expanded then None else Some (absolutize_from expanded [RootDir]))"

definition relative_to_current_dir :: "rust_str option \<Rightarrow> rust_str option \<Rightarrow> rust_str \<Rightarrow> path option" where
  "relative_to_current_dir home cwd p = map_option (resolve_path_against_base home p) (current_dir cwd)"

definition buf_parent :: "path \<Rightarrow> path option" where
  "buf_parent p = (case last_opt p of None \<Rightarrow> None | Some RootDir \<Rightarrow> None | _ \<Rightarrow> Some (butlast p))"

section \<open>Windows device paths\<close>

definition is_ascii_alphabetic :: "char \<Rightarrow> bool" where
  "is_ascii_alphabetic c \<longleftrightarrow> 65 \<le> byte_of c \<and> byte_of c \<le> 90 \<or> 97 \<le> byte_of c \<and> byte_of c \<le> 122"

definition is_windows_drive_absolute_path :: "rust_str \<Rightarrow> bool" where
  "is_windows_drive_absolute_path p =
     (case p of a # b # c # _ \<Rightarrow> is_ascii_alphabetic a \<and> b = CHR '':'' \<and> (c = CHR 0x5C \<or> c = CHR ''/'') | _ \<Rightarrow> False)"

definition backslashes :: "rust_str \<Rightarrow> rust_str" where
  "backslashes s = map (\<lambda>c. if c = CHR ''/'' then CHR 0x5C else c) s"

definition normalize_windows_device_path :: "rust_str \<Rightarrow> rust_str option" where
  "normalize_windows_device_path p =
     (case strip_prefix (backslashes ''//?/UNC/'') p of
        Some unc \<Rightarrow> Some (backslashes ''//'' @ unc)
      | None \<Rightarrow>
     (case strip_prefix (backslashes ''//./UNC/'') p of
        Some unc \<Rightarrow> Some (backslashes ''//'' @ unc)
      | None \<Rightarrow>
     (case Option.bind (strip_prefix (backslashes ''//?/'') p)
             (\<lambda>p. if is_windows_drive_absolute_path p then Some p else None) of
        Some p \<Rightarrow> Some p
      | None \<Rightarrow>
          Option.bind (strip_prefix (backslashes ''//./'') p)
            (\<lambda>p. if is_windows_drive_absolute_path p then Some p else None))))"

section \<open>The paths of the policy engine\<close>

definition process_paths :: "rust_str option \<Rightarrow> rust_str option \<Rightarrow> path abs_paths" where
  "process_paths home cwd = \<lparr>to_absolute = from_absolute_path home cwd, path_file_name = buf_file_name\<rparr>"

section \<open>Lemmas\<close>

fun part_ok :: "path_component \<Rightarrow> bool" where
  "part_ok (Normal n) = (n \<noteq> [] \<and> n \<noteq> ''.'' \<and> n \<noteq> ''..'' \<and> CHR ''/'' \<notin> set n)"
| "part_ok _ = True"

text \<open>A path as \<open>components\<close> returns it, and the promise of \<open>AbsolutePathBuf\<close>: absolute, with no dots.\<close>

definition path_ok :: "path \<Rightarrow> bool" where
  "path_ok p \<longleftrightarrow> list_all part_ok p \<and> RootDir \<notin> set (tl p)"

definition absolute_normal :: "path \<Rightarrow> bool" where
  "absolute_normal p \<longleftrightarrow> (\<exists>names. p = RootDir # map Normal names \<and> list_all (\<lambda>n. part_ok (Normal n)) names)"

lemma path_components_ok: "path_ok (path_components p)"
proof -
  let ?cs = "List.map_filter inner_component (split_on CHR ''/'' p)"
  have "part_ok c \<and> c \<noteq> RootDir" if "c \<in> set ?cs" for c
    using that split_on_no_sep[of _ "CHR ''/''" p] by (auto simp: set_map_filter split: if_splits)
  then have "list_all part_ok ?cs" "RootDir \<notin> set ?cs" by (auto simp: list_all_iff)
  moreover from this have "RootDir \<notin> set (tl ?cs)" by (cases ?cs) auto
  ultimately show ?thesis by (auto simp: path_ok_def path_components_def Let_def)
qed

lemma normalize_keeps_absolute:
  "absolute_normal acc \<Longrightarrow> list_all part_ok p \<Longrightarrow> RootDir \<notin> set p \<Longrightarrow> absolute_normal (fold normalize_step p acc)"
proof (induction p arbitrary: acc)
  case (Cons c p)
  from Cons.prems(1) obtain names where acc: "acc = RootDir # map Normal names" "list_all (\<lambda>n. part_ok (Normal n)) names"
    by (auto simp: absolute_normal_def)
  have "absolute_normal (normalize_step c acc)"
  proof (cases c)
    case (Normal n)
    then show ?thesis using acc Cons.prems(2) unfolding absolute_normal_def
      by (intro exI[of _ "names @ [n]"]) (simp add: buf_join_def is_absolute_def)
  next
    case ParentDir
    show ?thesis
    proof (cases names rule: rev_cases)
      case (snoc ns n)
      then show ?thesis using ParentDir acc unfolding absolute_normal_def
        by (intro exI[of _ ns]) (simp add: buf_pop_def last_opt_def butlast_append)
    qed (use ParentDir acc in \<open>simp add: buf_pop_def last_opt_def absolute_normal_def\<close>)
  qed (use Cons.prems in auto)
  then show ?case using Cons by simp
qed simp

lemma absolute_root: "absolute_normal [RootDir]" by (simp add: absolute_normal_def)

lemma normalize_absolute:
  assumes "path_ok p" "is_absolute p"
  shows "absolute_normal (normalize_path p)"
proof -
  obtain cs where p: "p = RootDir # cs" using assms(2) by (cases p) (auto simp: is_absolute_def)
  have "absolute_normal (fold normalize_step cs [RootDir])"
    using assms(1) p absolute_root by (intro normalize_keeps_absolute) (auto simp: path_ok_def)
  moreover from this have "fold normalize_step cs [RootDir] \<noteq> []" by (auto simp: absolute_normal_def)
  ultimately show ?thesis by (simp add: p normalize_path_def buf_join_def is_absolute_def)
qed

lemma buf_join_ok:
  assumes "path_ok base" "path_ok p"
  shows "path_ok (buf_join base p)"
proof (cases "is_absolute p")
  case False
  have "RootDir \<notin> set p" using assms(2) False by (cases p) (auto simp: path_ok_def is_absolute_def)
  then show ?thesis using assms False by (cases base) (auto simp: path_ok_def buf_join_def list_all_iff)
qed (simp add: buf_join_def assms)

lemma is_absolute_join: "is_absolute base \<Longrightarrow> is_absolute (buf_join base p)"
  by (cases base) (auto simp: is_absolute_def buf_join_def)

lemma absolutize_from_absolute:
  assumes "path_ok p" "path_ok base" "is_absolute base"
  shows "absolute_normal (absolutize_from p base)"
  unfolding absolutize_from_def
  by (rule normalize_absolute) (use assms in \<open>auto simp: path_with_base_def buf_join_ok is_absolute_join\<close>)

lemma expand_ok: "path_ok (maybe_expand_home_directory home p)"
  using buf_join_ok path_components_ok by (auto simp: maybe_expand_home_directory_def split: option.splits)

lemma current_dir_ok: "current_dir cwd = Some d \<Longrightarrow> path_ok d \<and> is_absolute d"
proof -
  assume "current_dir cwd = Some d"
  then obtain s where "d = path_components (''/'' @ s)" by (auto simp: current_dir_def)
  moreover have "is_absolute (path_components (''/'' @ s))" by (simp add: path_components_def Let_def is_absolute_def)
  ultimately show ?thesis using path_components_ok by simp
qed

lemma from_absolute_path_normal: "from_absolute_path home cwd p = Some q \<Longrightarrow> absolute_normal q"
  using expand_ok current_dir_ok normalize_absolute absolutize_from_absolute
  by (auto simp: from_absolute_path_def absolutize_def split: if_splits)

lemma part_components: "part_ok (Normal n) \<Longrightarrow> path_components n = [Normal n]"
  by (cases n) (auto simp: path_components_def split_on_single List.map_filter_def Let_def)

lemma fold_normal_names:
  "fold normalize_step (map Normal names) acc = acc @ map Normal names"
  by (induction names arbitrary: acc) (simp_all add: buf_join_def is_absolute_def)

lemma normalize_stable: "absolute_normal p \<Longrightarrow> normalize_path p = p"
  by (auto simp: absolute_normal_def normalize_path_def fold_normal_names buf_join_def is_absolute_def Let_def)

lemma from_bare_name:
  assumes "part_ok (Normal n)" "n \<noteq> ''~''" "from_absolute_path home cwd n = Some q"
  shows "buf_file_name q = Some n"
proof -
  have "maybe_expand_home_directory home n = [Normal n]"
    using assms(1,2) part_components[OF assms(1)]
    by (auto simp: maybe_expand_home_directory_def strip_prefix_def prefix_def split: option.splits if_splits)
  then obtain d where d: "current_dir cwd = Some d" "q = absolutize_from [Normal n] d"
    using assms(3) by (auto simp: from_absolute_path_def absolutize_def is_absolute_def)
  then have "d \<noteq> []" using current_dir_ok[OF d(1)] by (auto simp: is_absolute_def)
  then show ?thesis
    by (simp add: d(2) absolutize_from_def path_with_base_def buf_join_def is_absolute_def normalize_path_def Let_def buf_file_name_def last_opt_def)
qed

section \<open>File names\<close>

text \<open>What the policy engine relies on: a file name resolves to a path that ends in it.\<close>

locale name_keeping_paths =
  fixes A :: "'a abs_paths"
  assumes name_kept: "to_absolute A c = Some q \<Longrightarrow> path_file_name A q = Some n \<Longrightarrow> n \<noteq> ''~'' \<Longrightarrow>
    to_absolute A n = Some q' \<Longrightarrow> path_file_name A q' = Some n"

interpretation process: name_keeping_paths "process_paths home cwd"
proof
  fix c q n q'
  assume a: "to_absolute (process_paths home cwd) c = Some q" "path_file_name (process_paths home cwd) q = Some n"
    "n \<noteq> ''~''" "to_absolute (process_paths home cwd) n = Some q'"
  have "absolute_normal q" using a(1) from_absolute_path_normal by (simp add: process_paths_def)
  moreover have "Normal n \<in> set q"
    using a(2) by (auto simp: process_paths_def buf_file_name_def last_opt_def split: option.splits path_component.splits if_splits)
      (metis last_in_set)
  ultimately have "part_ok (Normal n)" by (auto simp: absolute_normal_def list_all_iff simp del: part_ok.simps)
  then show "path_file_name (process_paths home cwd) q' = Some n"
    using from_bare_name a(3,4) by (simp add: process_paths_def)
qed

section \<open>Properties\<close>

text \<open>
  C39. The promise of \<open>AbsolutePathBuf\<close> holds of every path that \<open>from_absolute_path\<close> returns, from any
  string, home directory and working directory: it is the root followed by names only, with no
  dot, double dot, empty name or slash left, and normalising it again or joining it to a base
  changes nothing.
\<close>

theorem absolute_paths_are_normal:
  assumes "from_absolute_path home cwd p = Some q"
  shows "(\<exists>names. q = RootDir # map Normal names \<and>
      (\<forall>n \<in> set names. n \<noteq> [] \<and> n \<noteq> ''.'' \<and> n \<noteq> ''..'' \<and> CHR ''/'' \<notin> set n)) \<and>
    normalize_path q = q \<and> (\<forall>base. absolutize_from q base = q)"
proof -
  note n = from_absolute_path_normal[OF assms]
  then obtain names where q: "q = RootDir # map Normal names" "list_all (\<lambda>n. part_ok (Normal n)) names"
    by (auto simp: absolute_normal_def)
  then have "absolutize_from q base = q" for base
    using normalize_stable[OF n] by (simp add: absolutize_from_def path_with_base_def is_absolute_def)
  then show ?thesis using q normalize_stable[OF n] by (auto simp: list_all_iff)
qed

theorem absolute_paths_are_normal_witness:
  "from_absolute_path (Some ''/home/u'') (Some ''work'') ''~/../x/./y'' = Some [RootDir, Normal ''home'', Normal ''x'', Normal ''y''] \<and>
   normalize_path [RootDir, Normal ''home'', Normal ''x'', Normal ''y''] = [RootDir, Normal ''home'', Normal ''x'', Normal ''y'']"
proof -
  have 1: "from_absolute_path (Some ''/home/u'') (Some ''work'') ''~/../x/./y'' =
      Some [RootDir, Normal ''home'', Normal ''x'', Normal ''y'']" by code_simp
  from absolute_paths_are_normal[OF 1] 1 show ?thesis by blast
qed

lemma relative_base_escapes:
  "resolve_path_against_base home ''x'' (path_components ''rel'') = [Normal ''rel'', Normal ''x'']"
  by (simp add: resolve_path_against_base_def maybe_expand_home_directory_def strip_prefix_def path_components_def
      Let_def List.map_filter_def absolutize_from_def path_with_base_def is_absolute_def buf_join_def normalize_path_def)

end
