(* ===== verification/Command_Approval_Props.thy ===== *)
theory Command_Approval_Props
  imports Command_Approval Absolute_Path
begin

text \<open>
  What the approval decision guarantees: a decision is always made and respects the approval
  policy, the sandbox is only bypassed for commands that rules allow, dangerous commands are never
  run unasked, and an accepted amendment takes effect.
\<close>

section \<open>Matches of rules\<close>

abbreviation rule_matches_of :: "'a abs_paths \<Rightarrow> 'a policy \<Rightarrow> command \<Rightarrow> 'a rule_match list" where
  "rule_matches_of A p c \<equiv> matches_for_command_with_options A p c None host_options"

abbreviation parsed_commands :: "'a approval_env \<Rightarrow> ('e, 'n) exec_approval_request \<Rightarrow> command list" where
  "parsed_commands E req \<equiv> commands (commands_for_exec_policy (parse_bash E) (req_command req))"

lemma matches_with_fallback:
  "matches_for_command_with_options A p c (Some f) opt =
     (let ms = matches_for_command_with_options A p c None opt in if ms = [] then [HeuristicsRuleMatch c (f c)] else ms)"
  by (simp add: matches_for_command_with_options_def Let_def)

text \<open>The program and the file name under which the rules of a host executable apply.\<close>

definition host_program :: "'a abs_paths \<Rightarrow> 'a policy \<Rightarrow> rust_str \<Rightarrow> ('a \<times> rust_str) option" where
  "host_program A p c =
     Option.bind (to_absolute A c) (\<lambda>q. Option.bind (path_file_name A q) (\<lambda>b.
       if (case map_of (host_executables_by_name p) b of Some known \<Rightarrow> q \<notin> set known | None \<Rightarrow> False) then None
       else Some (q, b)))"

abbreviation matches_under :: "'a policy \<Rightarrow> rust_str \<Rightarrow> rust_str list \<Rightarrow> 'a rule_match list" where
  "matches_under p b args \<equiv> List.map_filter (\<lambda>r. rule_matches r (b # args)) (get_vec (rules_by_program p) b)"

lemma host_rules:
  "match_host_executable_rules A p (c # args) =
     (case host_program A p c of None \<Rightarrow> [] | Some (q, b) \<Rightarrow> map (with_resolved_program q) (matches_under p b args))"
  by (auto simp: match_host_executable_rules_def host_program_def executable_path_lookup_key_def executable_lookup_key_def
      get_vec_def List.map_filter_simps split: option.splits)

lemma rule_matches_of_Cons:
  "rule_matches_of A p (c # args) =
     (if matches_under p c args \<noteq> [] then matches_under p c args
      else case host_program A p c of None \<Rightarrow> [] | Some (q, b) \<Rightarrow> map (with_resolved_program q) (matches_under p b args))"
  unfolding matches_for_command_with_options_def match_exact_rules_def Let_def
  by (auto simp: host_rules split: list.splits option.splits)

lemma rule_matches_of_Nil [simp]: "rule_matches_of A p [] = []"
  by (simp add: matches_for_command_with_options_def match_exact_rules_def match_host_executable_rules_def)

lemma rule_match_origin:
  assumes "m \<in> set (rule_matches_of A p c)"
  obtains k r where "r \<in> set (get_vec (rules_by_program p) k)" "match_decision m = rule_decision r" "is_policy_match m"
proof -
  obtain d args where c: "c = d # args" using assms by (cases c) auto
  have "\<exists>k r. r \<in> set (get_vec (rules_by_program p) k) \<and> match_decision m = rule_decision r \<and> is_policy_match m"
    using assms unfolding c rule_matches_of_Cons
    by (fastforce simp: set_map_filter rule_matches_def split: if_splits option.splits)
  then show thesis using that by blast
qed

lemma rule_matches_policy: "m \<in> set (rule_matches_of A p c) \<Longrightarrow> is_policy_match m"
  by (erule rule_match_origin)

lemma commands_nonempty [simp]: "commands (commands_for_exec_policy parse cmd) \<noteq> []"
  by (auto simp: commands_for_exec_policy_def split: option.splits list.splits)

definition all_matches :: "'a abs_paths \<Rightarrow> 'a policy \<Rightarrow> (command \<Rightarrow> decision) \<Rightarrow> command list \<Rightarrow> 'a rule_match list" where
  "all_matches A p f cmds = concat (map (\<lambda>c. matches_for_command_with_options A p c (Some f) host_options) cmds)"

lemma check_multiple_Some:
  assumes "cmds \<noteq> []"
  shows "check_multiple_with_options A p cmds f host_options =
    Some \<lparr>eval_decision = Max (match_decision ` set (all_matches A p f cmds)), matched_rules = all_matches A p f cmds\<rparr>"
proof -
  have "all_matches A p f cmds \<noteq> []" using assms by (cases cmds) (simp_all add: all_matches_def)
  from from_matches_Max[OF this] show ?thesis unfolding check_multiple_with_options_def all_matches_def .
qed

lemma match_in_all:
  "c \<in> set cmds \<Longrightarrow> m \<in> set (matches_for_command_with_options A p c (Some f) host_options) \<Longrightarrow> m \<in> set (all_matches A p f cmds)"
  by (auto simp: all_matches_def)

lemma decision_le_Max:
  "m \<in> set ms \<Longrightarrow> match_decision m \<le> Max (match_decision ` set ms)"
  by simp

lemma decision_Allow_iff: "d \<le> Allow \<longleftrightarrow> d = Allow" and decision_Forbidden_iff: "Forbidden \<le> d \<longleftrightarrow> d = Forbidden"
  by (cases d; simp add: less_eq_decision_def)+

section \<open>The decision\<close>

lemma requirement_Some:
  "create_exec_approval_requirement_for_command E current req =
     (let p = current_for_prefix_rules (req_allow_prefix_rules req) current;
          parsed = commands_for_exec_policy (parse_bash E) (req_command req);
          ms = all_matches (paths E) p (unmatched_fallback E req parsed) (commands parsed)
      in Some (approval_requirement E p req parsed (unmatched_fallback E req parsed)
           \<lparr>eval_decision = Max (match_decision ` set ms), matched_rules = ms\<rparr>))"
  by (simp add: create_exec_approval_requirement_for_command_def check_multiple_Some Let_def)

lemma requirement_Skip:
  "approval_requirement E p req parsed f ev = Skip b a \<longleftrightarrow>
     eval_decision ev = Allow \<and>
     b = list_all (\<lambda>c. list_ex (\<lambda>m. is_policy_match m \<and> match_decision m = Allow) (rule_matches_of (paths E) p c)) (commands parsed) \<and>
     a = (if \<not> used_complex_parsing parsed \<and> req_allow_prefix_rules req = Honor
          then try_derive_execpolicy_amendment_for_allow_rules (matched_rules ev) else None)"
  by (auto simp: approval_requirement_def Let_def split: decision.splits option.splits)

lemma requirement_NeedsApproval:
  "approval_requirement E p req parsed f ev = NeedsApproval r a \<Longrightarrow>
     eval_decision ev = Prompt \<and> approval_policy req \<noteq> Never \<and>
     (a \<noteq> None \<longrightarrow> \<not> used_complex_parsing parsed \<and> req_allow_prefix_rules req = Honor)"
  by (auto simp: approval_requirement_def Let_def split: decision.splits option.splits if_splits)

lemma ignored_rules_not_allow:
  assumes "m \<in> set (rule_matches_of A (current_for_prefix_rules IgnoreForCyberModel p) c)"
  shows "match_decision m \<noteq> Allow"
proof -
  let ?p = "current_for_prefix_rules IgnoreForCyberModel p"
  from assms obtain k r where r: "r \<in> set (get_vec (rules_by_program ?p) k)" "match_decision m = rule_decision r"
    by (rule rule_match_origin)
  then obtain rs where "(k, rs) \<in> set (rules_by_program ?p)" "r \<in> set rs"
    using map_of_SomeD[of "rules_by_program ?p" k] by (auto simp: get_vec_def split: option.splits) (metis map_of_SomeD)
  then show ?thesis using r(2) by (auto simp: current_for_prefix_rules_def)
qed

text \<open>An environment, a policy and requests for the witnesses.\<close>

definition ls_env :: "path approval_env" where
  "ls_env = \<lparr>parse_bash = ls_parser, paths = process_paths None (Some ''w''), shlex_try_join = (\<lambda>_. None), to_json = (\<lambda>s. s)\<rparr>"

definition ls_request :: "ask_for_approval \<Rightarrow> command \<Rightarrow> (unit, unit) exec_approval_request" where
  "ls_request ask cmd =
     \<lparr>req_command = cmd, approval_policy = ask, req_permission_profile = DisabledProfile, req_sandbox_permissions = UseDefault,
      req_prefix_rule = None, req_allow_prefix_rules = Honor\<rparr>"

definition git_policy :: "path policy" where
  "git_policy = (case add_prefix_rule [''git''] Allow empty_policy of Inr p \<Rightarrow> p | Inl _ \<Rightarrow> empty_policy)"

section \<open>Properties of the decision\<close>

text \<open>
  Every request is decided, without a panic. Under the policy that never asks the decision is not
  a question, and for a model that must not profit from allow rules it neither bypasses the
  sandbox nor proposes an amendment.
\<close>

theorem decision_respects_policy:
  "\<exists>r. create_exec_approval_requirement_for_command E current req = Some r \<and>
     (case r of
        Skip bypass amendment \<Rightarrow> req_allow_prefix_rules req = IgnoreForCyberModel \<longrightarrow> \<not> bypass \<and> amendment = None
      | NeedsApproval _ amendment \<Rightarrow>
          approval_policy req \<noteq> Never \<and> (req_allow_prefix_rules req = IgnoreForCyberModel \<longrightarrow> amendment = None)
      | ForbiddenReq _ \<Rightarrow> True)"
proof -
  let ?parsed = "commands_for_exec_policy (parse_bash E) (req_command req)"
  obtain r where r: "create_exec_approval_requirement_for_command E current req = Some r" by (simp add: requirement_Some Let_def)
  then obtain f ev where a: "approval_requirement E (current_for_prefix_rules (req_allow_prefix_rules req) current) req ?parsed f ev = r"
    by (auto simp: requirement_Some Let_def)
  show ?thesis
  proof (cases r)
    case (Skip bypass amendment)
    obtain c where c: "c \<in> set (commands ?parsed)"
      using list.set_sel(1)[OF commands_nonempty[of "parse_bash E" "req_command req"]] by blast
    have "\<not> bypass \<and> amendment = None" if "req_allow_prefix_rules req = IgnoreForCyberModel"
      using a c that ignored_rules_not_allow unfolding Skip requirement_Skip list_all_iff list_ex_iff by force
    then show ?thesis using r Skip by simp
  qed (use r a requirement_NeedsApproval in fastforce)+
qed

theorem decision_respects_policy_witness:
  "\<exists>r. create_exec_approval_requirement_for_command ls_env git_policy
         ((ls_request Never [''git'', ''log''])\<lparr>req_allow_prefix_rules := IgnoreForCyberModel\<rparr>) = Some r \<and>
     (\<forall>reason a. r \<noteq> NeedsApproval reason a) \<and> (\<forall>a. r \<noteq> Skip True a)"
proof -
  let ?req = "(ls_request Never [''git'', ''log''])\<lparr>req_allow_prefix_rules := IgnoreForCyberModel\<rparr>"
  have "approval_policy ?req = Never" "req_allow_prefix_rules ?req = IgnoreForCyberModel" by (simp_all add: ls_request_def)
  moreover obtain r where r: "create_exec_approval_requirement_for_command ls_env git_policy ?req = Some r"
    "case r of Skip bypass amendment \<Rightarrow> req_allow_prefix_rules ?req = IgnoreForCyberModel \<longrightarrow> \<not> bypass \<and> amendment = None
     | NeedsApproval _ amendment \<Rightarrow>
         approval_policy ?req \<noteq> Never \<and> (req_allow_prefix_rules ?req = IgnoreForCyberModel \<longrightarrow> amendment = None)
     | ForbiddenReq _ \<Rightarrow> True"
    using decision_respects_policy[of ls_env git_policy ?req] by blast
  ultimately show ?thesis by (cases r) auto
qed

text \<open>
  The sandbox is bypassed only when every command of the script is matched by a rule of the
  current policy, and by allow rules only.
\<close>

theorem bypass_needs_allow_rules:
  assumes "create_exec_approval_requirement_for_command E current req = Some (Skip True a)" "c \<in> set (parsed_commands E req)"
  shows "rule_matches_of (paths E) current c \<noteq> [] \<and>
    list_all (\<lambda>m. is_policy_match m \<and> match_decision m = Allow) (rule_matches_of (paths E) current c)"
proof -
  let ?p = "current_for_prefix_rules (req_allow_prefix_rules req) current"
  let ?f = "unmatched_fallback E req (commands_for_exec_policy (parse_bash E) (req_command req))"
  let ?all = "all_matches (paths E) ?p ?f (parsed_commands E req)"
  have max: "Max (match_decision ` set ?all) = Allow"
    and ex: "list_ex (\<lambda>m. is_policy_match m \<and> match_decision m = Allow) (rule_matches_of (paths E) ?p c)"
    using assms by (auto simp: requirement_Some requirement_Skip Let_def list_all_iff)
  then have honor: "req_allow_prefix_rules req = Honor"
    using ignored_rules_not_allow by (cases "req_allow_prefix_rules req") (auto simp: list_ex_iff)
  then have p: "?p = current" by (simp add: current_for_prefix_rules_def)
  have "match_decision m = Allow" if "m \<in> set (rule_matches_of (paths E) current c)" for m
  proof -
    have "rule_matches_of (paths E) current c \<noteq> []" using that by auto
    then have "m \<in> set (matches_for_command_with_options (paths E) ?p c (Some ?f) host_options)"
      using that p by (simp add: matches_with_fallback[of _ _ _ ?f] Let_def)
    from decision_le_Max[OF match_in_all[OF assms(2) this]] show ?thesis by (simp add: max decision_Allow_iff)
  qed
  then show ?thesis using ex p rule_matches_policy by (auto simp: list_all_iff list_ex_iff)
qed

theorem bypass_needs_allow_rules_witness:
  "create_exec_approval_requirement_for_command ls_env git_policy (ls_request OnRequest [''/bin/git'', ''log'']) = Some (Skip True None) \<and>
   rule_matches_of (paths ls_env) git_policy [''/bin/git'', ''log''] \<noteq> []"
proof -
  have 1: "create_exec_approval_requirement_for_command ls_env git_policy (ls_request OnRequest [''/bin/git'', ''log'']) =
      Some (Skip True None)" by code_simp
  have 2: "[''/bin/git'', ''log''] \<in> set (parsed_commands ls_env (ls_request OnRequest [''/bin/git'', ''log'']))" by code_simp
  from bypass_needs_allow_rules[OF 1 2] 1 show ?thesis by blast
qed

section \<open>Dangerous commands\<close>

lemma dangerous_not_allowed:
  assumes "\<forall>script tree. parse script = Some tree \<longrightarrow> names_first tree" "''zsh'' \<notin> set (tl c)"
    "dangerous_command_match parse c \<noteq> None"
  shows "render_decision_for_unmatched_command parse policy profile sandbox complex c = (if policy = Never then Forbidden else Prompt)"
proof -
  have "\<not> is_known_safe_command parse c" using known_safe_not_dangerous[OF assms(1,2)] assms(3) by blast
  then show ?thesis using assms(3)
    by (auto simp: render_decision_for_unmatched_command_def Let_def split: ask_for_approval.splits)
qed



section \<open>Amendments\<close>

lemma host_program_add: "add_prefix_rule a d p = Inr p' \<Longrightarrow> host_program A p' c = host_program A p c"
  by (auto simp: add_prefix_rule_def host_program_def split: list.splits)

definition amendment_rule :: "command \<Rightarrow> prefix_rule" where
  "amendment_rule a =
     \<lparr>pattern = \<lparr>first_token = hd a, rest_tokens = map Single (tl a)\<rparr>, rule_decision = Allow, rule_justification = None\<rparr>"

lemma matches_under_add:
  "add_prefix_rule a Allow p = Inr p' \<Longrightarrow>
     matches_under p' b args = matches_under p b args @
       (if b = hd a then List.map_filter (\<lambda>r. rule_matches r (b # args)) [amendment_rule a] else [])"
  by (auto simp: add_prefix_rule_def get_vec_insert amendment_rule_def List.map_filter_def split: list.splits)

lemma singles_match: "list_all2 token_matches (map Single ts) m \<longleftrightarrow> m = ts"
  by (induction ts arbitrary: m) (auto simp: list_all2_Cons1)

lemma amendment_rule_matches:
  assumes "a \<noteq> []"
  shows "rule_matches (amendment_rule a) cmd \<noteq> None \<longleftrightarrow> prefix a cmd"
proof -
  have "pattern_tokens (pattern (amendment_rule a)) = map Single a" using assms by (cases a) (simp_all add: pattern_tokens_def amendment_rule_def)
  then have "matches_prefix (pattern (amendment_rule a)) cmd = Some m \<longleftrightarrow> m = a \<and> prefix a cmd" for m
    by (auto simp: matches_prefix_iff singles_match prefix_def)
  then show ?thesis by (auto simp: rule_matches_def)
qed

lemma no_matches_iff:
  "matches_under p b args = [] \<longleftrightarrow> (\<forall>r \<in> set (get_vec (rules_by_program p) b). matches_prefix (pattern r) (b # args) = None)"
  by (auto simp: List.map_filter_def filter_empty_conv rule_matches_def)

lemma matches_under_shorter:
  assumes "matches_under p b (args @ rest) = []"
  shows "matches_under p b args = []"
proof -
  have "matches_prefix pat (b # args) = None" if "matches_prefix pat (b # args @ rest) = None" for pat
  proof (rule ccontr)
    assume "matches_prefix pat (b # args) \<noteq> None"
    then obtain m extra where "b # args = m @ extra" "list_all2 token_matches (pattern_tokens pat) m" by (auto simp: matches_prefix_iff)
    then have "matches_prefix pat ((b # args) @ rest) = Some m" by (auto simp: matches_prefix_iff)
    then show False using that by simp
  qed
  then show ?thesis using assms unfolding no_matches_iff by simp
qed

lemma unmatched_iff:
  "rule_matches_of A p (c # args) = [] \<longleftrightarrow>
     matches_under p c args = [] \<and> (\<forall>q b. host_program A p c = Some (q, b) \<longrightarrow> matches_under p b args = [])"
  unfolding rule_matches_of_Cons by (auto split: option.splits)

lemma amendment_matches:
  assumes "add_prefix_rule a Allow p = Inr p'" "matches_under p b args = []" "matches_under p' b args \<noteq> []"
  shows "prefix a (b # args)"
proof -
  have "a \<noteq> []" using assms(1) by (auto simp: add_prefix_rule_def)
  moreover have "rule_matches (amendment_rule a) (b # args) \<noteq> (None :: 'a rule_match option)"
    using assms(3) unfolding matches_under_add[OF assms(1)] assms(2) by (auto simp: List.map_filter_def split: if_splits)
  ultimately show ?thesis using amendment_rule_matches by blast
qed

context name_keeping_paths
begin

text \<open>If a new rule matches a command that none matched before, then none matched its prefix either.\<close>

lemma amendment_was_unmatched:
  assumes un: "rule_matches_of A p c = []" and add: "add_prefix_rule a Allow p = Inr p'" and new: "rule_matches_of A p' c \<noteq> []"
    and tilde: "hd a \<noteq> ''~''"
  shows "rule_matches_of A p a = []"
proof -
  obtain d args where c: "c = d # args" using new by (cases c) auto
  obtain t ts where a: "a = t # ts" using add by (cases a) (auto simp: add_prefix_rule_def)
  note u = un[unfolded c unmatched_iff]
  from new[unfolded c unmatched_iff] consider "matches_under p' d args \<noteq> []"
    | q b where "host_program A p d = Some (q, b)" "matches_under p' b args \<noteq> []"
    using host_program_add[OF add] by auto
  then show ?thesis
  proof cases
    case 1
    then have "prefix a (d # args)" using u add amendment_matches by blast
    then obtain rest where d: "d = t" "args = ts @ rest" by (auto simp: a prefix_def)
    have "matches_under p t ts = []" using u d by (blast intro: matches_under_shorter)
    moreover have "matches_under p b ts = []" if "host_program A p t = Some (q, b)" for q b
      using u d that by (blast intro: matches_under_shorter)
    ultimately show ?thesis unfolding a unmatched_iff by blast
  next
    case (2 q b)
    then have "prefix a (b # args)" using u add amendment_matches by blast
    then obtain rest where b: "b = t" "args = ts @ rest" by (auto simp: a prefix_def)
    have "matches_under p t (ts @ rest) = []" using u 2(1) b by blast
    then have none: "matches_under p t ts = []" by (rule matches_under_shorter)
    have "b' = t" if "host_program A p t = Some (q', b')" for q' b'
      using that 2(1) name_kept[of d q t q'] tilde
      by (auto simp: host_program_def bind_eq_Some_conv a b split: if_splits)
    then show ?thesis using none unfolding a unmatched_iff by blast
  qed
qed

end

lemma all_matches_single: "all_matches A p f [c] = matches_for_command_with_options A p c (Some f) host_options"
  by (simp add: all_matches_def)

lemma find_map_SomeD: "find_map f xs = Some y \<Longrightarrow> \<exists>x \<in> set xs. f x = Some y"
  by (induction xs) (auto split: option.splits)

lemma no_policy_match_unmatched:
  assumes "m \<in> set (matches_for_command_with_options A p c (Some f) host_options)" "\<not> is_policy_match m"
  shows "rule_matches_of A p c = []" "m = HeuristicsRuleMatch c (f c)"
proof -
  show "rule_matches_of A p c = []" using assms rule_matches_policy by (auto simp: matches_with_fallback[of _ _ _ f] Let_def split: if_splits)
  then show "m = HeuristicsRuleMatch c (f c)" using assms(1) by (simp add: matches_with_fallback[of _ _ _ f] Let_def)
qed

lemma whole_command_amendment:
  assumes "rule_matches_of A p c = []" "add_prefix_rule c Allow p = Inr p'"
  shows "rule_matches_of A p' c \<noteq> [] \<and> (\<forall>m \<in> set (rule_matches_of A p' c). match_decision m = Allow)"
proof -
  obtain d args where c: "c = d # args" using assms(2) by (cases c) (auto simp: add_prefix_rule_def)
  have none: "matches_under p d args = []" using assms(1) unfolding c unmatched_iff by blast
  obtain m :: "'a rule_match" where m: "rule_matches (amendment_rule c) (d # args) = Some m"
    using amendment_rule_matches[of c c] by (auto simp: c)
  then have "matches_under p' d args = [m]" unfolding matches_under_add[OF assms(2)] none by (simp add: c List.map_filter_simps)
  moreover have "match_decision m = Allow" using m by (auto simp: rule_matches_def amendment_rule_def)
  ultimately show ?thesis by (simp add: c rule_matches_of_Cons)
qed

text \<open>The amendment that a question about one command proposes makes rules allow that command.\<close>

lemma proposed_amendment:
  assumes "parsed_commands E req = [c]" "create_exec_approval_requirement_for_command E p req = Some (NeedsApproval reason (Some a))"
    "add_prefix_rule a Allow p = Inr p'"
  shows "req_allow_prefix_rules req = Honor" "rule_matches_of (paths E) p c = []"
    "rule_matches_of (paths E) p' c \<noteq> []" "\<forall>m \<in> set (rule_matches_of (paths E) p' c). match_decision m = Allow"
proof -
  let ?parsed = "commands_for_exec_policy (parse_bash E) (req_command req)"
  let ?f = "unmatched_fallback E req ?parsed" and ?p = "current_for_prefix_rules (req_allow_prefix_rules req) p"
  let ?ms = "matches_for_command_with_options (paths E) ?p c (Some ?f) host_options"
  let ?ev = "\<lparr>eval_decision = Max (match_decision ` set ?ms), matched_rules = ?ms\<rparr>"
  have req: "approval_requirement E ?p req ?parsed ?f ?ev = NeedsApproval reason (Some a)"
    using assms(2) by (simp add: requirement_Some Let_def assms(1) all_matches_single)
  then show honor: "req_allow_prefix_rules req = Honor" using requirement_NeedsApproval by blast
  then have p: "?p = p" by (simp add: current_for_prefix_rules_def)
  have max: "Max (match_decision ` set ?ms) = Prompt"
    using requirement_NeedsApproval[OF req, THEN conjunct1] unfolding evaluation.select_convs .
  from req consider
    "derive_requested_execpolicy_amendment_from_prefix_rule (paths E) (req_prefix_rule req) ?ms p [c] ?f host_options = Some a"
    | "try_derive_execpolicy_amendment_for_prompt_rules ?ms = Some a"
    using p assms(1) by (auto simp: approval_requirement_def Let_def split: decision.splits option.splits if_splits)
  then have "rule_matches_of (paths E) p c = [] \<and> rule_matches_of (paths E) p' c \<noteq> [] \<and>
    (\<forall>m \<in> set (rule_matches_of (paths E) p' c). match_decision m = Allow)"
  proof cases
    case 1
    then have ok: "\<not> list_ex is_policy_match ?ms" "prefix_rule_would_approve_all_commands (paths E) p a [c] ?f host_options"
      by (auto simp: derive_requested_execpolicy_amendment_from_prefix_rule_def split: option.splits if_splits)
    obtain m where "m \<in> set ?ms" "\<not> is_policy_match m"
      using ok(1) list.set_sel(1)[OF fallback_nonempty[of "paths E" ?p c ?f host_options]] unfolding list_ex_iff by blast
    note um = no_policy_match_unmatched[OF this]
    then have "?ms = [HeuristicsRuleMatch c (?f c)]" by (simp add: matches_with_fallback[of _ _ _ ?f] Let_def)
    then have prompt: "?f c = Prompt" using max by simp
    let ?ms' = "matches_for_command_with_options (paths E) p' c (Some ?f) host_options"
    have "Max (match_decision ` set ?ms') = Allow"
      using ok(2) assms(3) from_matches_Max[OF fallback_nonempty[of "paths E" p' c ?f host_options]]
      by (simp add: prefix_rule_would_approve_all_commands_def check_with_options_def)
    then have allow: "match_decision m = Allow" if "m \<in> set ?ms'" for m using decision_le_Max[OF that] by (simp add: decision_Allow_iff)
    have "rule_matches_of (paths E) p' c \<noteq> []"
      using allow prompt by (force simp: matches_with_fallback[of _ _ _ ?f] Let_def)
    then show ?thesis using um p allow by (simp add: matches_with_fallback[of _ _ _ ?f] Let_def)
  next
    case 2
    then obtain m where m: "m \<in> set ?ms" "heuristics_command Prompt m = Some a"
      by (auto simp: try_derive_execpolicy_amendment_for_prompt_rules_def split: if_splits dest: find_map_SomeD)
    have "\<not> is_policy_match m" using m(2) by (cases m) simp_all
    note um = no_policy_match_unmatched[OF m(1) this]
    then have "a = c" using m(2) by (auto split: if_splits)
    then show ?thesis using um p whole_command_amendment assms(3) by simp
  qed
  then show "rule_matches_of (paths E) p c = []" "rule_matches_of (paths E) p' c \<noteq> []"
    "\<forall>m \<in> set (rule_matches_of (paths E) p' c). match_decision m = Allow" by blast+
qed

lemma allowed_by_rules_skips:
  assumes "parsed_commands E req = [c]" "req_allow_prefix_rules req = Honor" "rule_matches_of (paths E) p c \<noteq> []"
    "\<forall>m \<in> set (rule_matches_of (paths E) p c). match_decision m = Allow"
  shows "create_exec_approval_requirement_for_command E p req = Some (Skip True None)"
proof -
  let ?f = "unmatched_fallback E req (commands_for_exec_policy (parse_bash E) (req_command req))"
  have p: "current_for_prefix_rules Honor p = p" by (simp add: current_for_prefix_rules_def)
  have ms: "all_matches (paths E) p ?f [c] = rule_matches_of (paths E) p c"
    using assms(3) by (simp add: all_matches_single matches_with_fallback[of _ _ _ ?f] Let_def)
  have "match_decision ` set (rule_matches_of (paths E) p c) = {Allow}" using assms(3,4) by (cases "rule_matches_of (paths E) p c") auto
  then have max: "Max (match_decision ` set (rule_matches_of (paths E) p c)) = Allow" by simp
  obtain m where m: "m \<in> set (rule_matches_of (paths E) p c)" using list.set_sel(1)[OF assms(3)] by blast
  then have "list_ex is_policy_match (rule_matches_of (paths E) p c)"
    "list_ex (\<lambda>m. is_policy_match m \<and> match_decision m = Allow) (rule_matches_of (paths E) p c)"
    using rule_matches_policy[OF m] assms(4) by (auto simp: list_ex_iff)
  then show ?thesis
    by (simp add: requirement_Some Let_def requirement_Skip assms(1,2) p ms max try_derive_execpolicy_amendment_for_allow_rules_def)
qed

text \<open>
  C9. When a question about a single command proposes an amendment and the update that accepts it
  succeeds, the same request is from then on run without a question and outside the sandbox.
\<close>

theorem accepted_amendment_takes_effect:
  assumes "paths E = process_paths home cwd" "parsed_commands E req = [c]"
    "create_exec_approval_requirement_for_command E p req = Some (NeedsApproval reason (Some a))"
    "append_amendment_and_update E codex_home a (p, w) = Some (Ok (), p', w')" "hd a \<noteq> ''~''"
  shows "create_exec_approval_requirement_for_command E p' req = Some (Skip True None)"
proof -
  let ?A = "process_paths home cwd"
  have "a \<noteq> []" using assms(4) by (auto simp: append_amendment_and_update_def blocking_append_allow_prefix_rule_def)
  then obtain p1 where add: "add_prefix_rule a Allow p = Inr p1" by (cases a) (auto simp: add_prefix_rule_def)
  note eff = proposed_amendment[OF assms(2,3) add]
  have "rule_matches_of ?A p a = []" using process.amendment_was_unmatched[OF _ add] eff assms(1,5) by simp
  then have "already_allowed ?A p a = Some False"
    by (simp add: already_allowed_def check_multiple_Some all_matches_single matches_with_fallback[of _ _ _ "\<lambda>_. Forbidden"] Let_def)
  then have "p' = p1"
    using assms(1,4) add by (auto simp: append_amendment_and_update_def Let_def split: prod.splits sum.splits)
  then show ?thesis using allowed_by_rules_skips[OF assms(2) eff(1)] eff(3,4) by simp
qed

definition make_request :: "(unit, unit) exec_approval_request" where
  "make_request = ls_request UnlessTrusted [''make'']"

theorem accepted_amendment_takes_effect_witness:
  "\<exists>p' w'. append_amendment_and_update ls_env [''home''] [''make''] (git_policy, [([], Directory), ([''home''], Directory)]) = Some (Ok (), p', w') \<and>
     create_exec_approval_requirement_for_command ls_env p' make_request = Some (Skip True None)"
proof -
  have 1: "paths ls_env = process_paths None (Some ''w'')" by (simp add: ls_env_def)
  have 2: "parsed_commands ls_env make_request = [[''make'']]" by code_simp
  have 3: "create_exec_approval_requirement_for_command ls_env git_policy make_request = Some (NeedsApproval None (Some [''make'']))" by code_simp
  have "case append_amendment_and_update ls_env [''home''] [''make''] (git_policy, [([], Directory), ([''home''], Directory)]) of
      Some (Inr _, _, _) \<Rightarrow> True | _ \<Rightarrow> False" by code_simp
  then obtain p' w' where 4: "append_amendment_and_update ls_env [''home''] [''make''] (git_policy, [([], Directory), ([''home''], Directory)]) =
      Some (Ok (), p', w')" by (auto split: option.splits prod.splits sum.splits)
  from accepted_amendment_takes_effect[OF 1 2 3 4] 4 show ?thesis by auto
qed

section \<open>Required rules\<close>

lemma get_vec_ignored:
  assumes "r \<in> set (get_vec (rules_by_program p) k)" "rule_decision r \<noteq> Allow"
  shows "r \<in> set (get_vec (rules_by_program (current_for_prefix_rules allow p)) k)"
proof -
  let ?keep = "\<lambda>m. filter (\<lambda>(_, rules). rules \<noteq> []) (map (\<lambda>(program, rules). (program, filter (\<lambda>r. rule_decision r \<noteq> Allow) rules)) m)"
  have "r \<in> set (get_vec (?keep m) k)" if "r \<in> set (get_vec m k)" for m
    using that assms(2) by (induction m) (auto simp: get_vec_def filter_empty_conv split: if_splits option.splits)
  then show ?thesis using assms(1) by (simp add: current_for_prefix_rules_def)
qed

lemma exact_rule_used:
  assumes "r \<in> set (get_vec (rules_by_program p) c)" "rule_matches r (c # args) = Some m"
  shows "m \<in> set (rule_matches_of A p (c # args))"
proof -
  have "m \<in> set (matches_under p c args)" using assms by (auto simp: set_map_filter)
  moreover from this have "matches_under p c args \<noteq> []" by auto
  ultimately show ?thesis by (simp add: rule_matches_of_Cons)
qed

lemma loaded_keeps_requirements:
  assumes "load_exec_policy_with_warning parse stack = Ok (p, warning)" "requirements_policy stack = Some q" "policy_wf q"
    "r \<in> set (get_vec (rules_by_program q) k)"
  shows "r \<in> set (get_vec (rules_by_program p) k)"
proof -
  have "p = q \<or> (\<exists>base. p = merge_overlay base q)"
    using assms(1,2) by (auto simp: load_exec_policy_with_warning_def load_exec_policy_def bind_result_def
        split: sum.splits exec_policy_error.splits)
  moreover have "r \<in> set (get_vec (rules_by_program (merge_overlay base q)) k)" for base :: "'a policy"
    using assms(3,4) by (simp add: merge_overlay_def policy_wf_def get_vec_merge)
  ultimately show ?thesis using assms(4) by auto
qed


definition no_push :: "path policy" where
  "no_push = (case add_prefix_rule [''git'', ''push''] Forbidden empty_policy of Inr p \<Rightarrow> p | Inl _ \<Rightarrow> empty_policy)"

text \<open>A parser of rule files that rejects everything.\<close>

definition reject_all :: "rust_str \<Rightarrow> rust_str \<Rightarrow> path policy_builder \<Rightarrow> (policy_error, unit) result \<times> path policy_builder" where
  "reject_all path contents b = (Err (Starlark ''bad''), b)"

definition required_stack :: "path config_stack" where
  "required_stack =
     \<lparr>layers_low_to_high = [\<lparr>user_or_project = True, policy_files = Some (Ok [(''default.rules'', Ok ''?'')])\<rparr>],
      ignore_user_and_project_rules = False, requirements_policy = Some no_push\<rparr>"


end
