(* ===== verification/Ip_Address.thy ===== *)
theory Ip_Address
  imports Prelude "HOL-Library.Word"
begin

unbundle bit_operations_syntax

text \<open>
  IP addresses of \<open>std::net\<close>: parsing an \<open>IpAddr\<close> and its classification, and on top of them the
  classification of \<open>network-proxy/src/policy.rs\<close> that keeps the proxy away from local networks. An
  \<open>Ipv4Addr\<close> is a 32-bit word, an \<open>Ipv6Addr\<close> the list of its eight 16-bit segments.
\<close>

section \<open>Addresses\<close>

type_synonym ipv4 = "32 word"
type_synonym ipv6 = "16 word list"

datatype ip_addr = V4 ipv4 | V6 ipv6

definition ipv4_of :: "int list \<Rightarrow> ipv4" where
  "ipv4_of os = of_int (foldl (\<lambda>n d. n * 256 + d) 0 os)"

definition octet :: "nat \<Rightarrow> ipv4 \<Rightarrow> nat" where
  "octet i ip = unat (drop_bit (8 * (3 - i)) ip AND 0xFF)"

section \<open>Parsing\<close>

definition to_digit :: "int \<Rightarrow> char \<Rightarrow> int option" where
  "to_digit radix c =
     (let b = of_char c :: int;
          d = (if 48 \<le> b \<and> b \<le> 57 then Some (b - 48)
               else if 97 \<le> b \<and> b \<le> 122 then Some (b - 87)
               else if 65 \<le> b \<and> b \<le> 90 then Some (b - 55) else None)
      in case d of Some n \<Rightarrow> if n < radix then Some n else None | None \<Rightarrow> None)"

definition read_number :: "int \<Rightarrow> nat \<Rightarrow> bool \<Rightarrow> int \<Rightarrow> rust_str \<Rightarrow> (int \<times> rust_str) option" where
  "read_number radix max_digits allow_zero_prefix bound s =
     (let digits = takeWhile (\<lambda>c. to_digit radix c \<noteq> None) s;
          n = foldl (\<lambda>n c. n * radix + the (to_digit radix c)) 0 digits
      in if digits = [] \<or> length digits > max_digits \<or> n > bound \<or>
            (\<not> allow_zero_prefix \<and> hd digits = CHR ''0'' \<and> length digits > 1)
         then None else Some (n, drop (length digits) s))"

definition read_separator :: "char \<Rightarrow> nat \<Rightarrow> (rust_str \<Rightarrow> ('a \<times> rust_str) option) \<Rightarrow> rust_str \<Rightarrow> ('a \<times> rust_str) option" where
  "read_separator sep index inner s =
     (if index > 0 then (case s of c # cs \<Rightarrow> if c = sep then inner cs else None | [] \<Rightarrow> None) else inner s)"

fun read_octets :: "nat \<Rightarrow> nat \<Rightarrow> rust_str \<Rightarrow> (int list \<times> rust_str) option" where
  "read_octets i 0 s = Some ([], s)"
| "read_octets i (Suc k) s =
     (case read_separator CHR ''.'' i (read_number 10 3 False 255) s of
        None \<Rightarrow> None
      | Some (n, s) \<Rightarrow> map_option (\<lambda>(ns, s). (n # ns, s)) (read_octets (Suc i) k s))"

definition read_ipv4_addr :: "rust_str \<Rightarrow> (int list \<times> rust_str) option" where
  "read_ipv4_addr s = read_octets 0 4 s"

fun read_groups :: "nat \<Rightarrow> nat \<Rightarrow> rust_str \<Rightarrow> int list \<times> bool \<times> rust_str" where
  "read_groups i 0 s = ([], False, s)"
| "read_groups i (Suc k) s =
     (case (if k > 0 then read_separator CHR '':'' i read_ipv4_addr s else None) of
        Some (os, s) \<Rightarrow> ([os ! 0 * 256 + os ! 1, os ! 2 * 256 + os ! 3], True, s)
      | None \<Rightarrow>
          (case read_separator CHR '':'' i (read_number 16 4 True 65535) s of
             Some (g, s) \<Rightarrow> (case read_groups (Suc i) k s of (gs, ipv4, s) \<Rightarrow> (g # gs, ipv4, s))
           | None \<Rightarrow> ([], False, s)))"

definition read_ipv6_addr :: "rust_str \<Rightarrow> (int list \<times> rust_str) option" where
  "read_ipv6_addr s =
     (case read_groups 0 8 s of (head, head_ipv4, s) \<Rightarrow>
        if length head = 8 then Some (head, s)
        else if head_ipv4 then None
        else (case strip_prefix ''::'' s of
                None \<Rightarrow> None
              | Some s \<Rightarrow>
                  (case read_groups 0 (8 - (length head + 1)) s of (tail, _, s) \<Rightarrow>
                     Some (head @ replicate (8 - length head - length tail) 0 @ tail, s))))"

definition parse_ip :: "rust_str \<Rightarrow> ip_addr option" where
  "parse_ip s =
     (case (case read_ipv4_addr s of
              Some (os, rest) \<Rightarrow> Some (V4 (ipv4_of os), rest)
            | None \<Rightarrow> map_option (\<lambda>(gs, rest). (V6 (map of_int gs), rest)) (read_ipv6_addr s)) of
        Some (ip, []) \<Rightarrow> Some ip
      | _ \<Rightarrow> None)"

section \<open>Classification by the standard library\<close>

definition v4_is_loopback :: "ipv4 \<Rightarrow> bool" where "v4_is_loopback ip \<longleftrightarrow> octet 0 ip = 127"

definition v4_is_private :: "ipv4 \<Rightarrow> bool" where
  "v4_is_private ip \<longleftrightarrow> octet 0 ip = 10 \<or> (octet 0 ip = 172 \<and> octet 1 ip \<in> {16..31}) \<or> (octet 0 ip = 192 \<and> octet 1 ip = 168)"

definition v4_is_link_local :: "ipv4 \<Rightarrow> bool" where "v4_is_link_local ip \<longleftrightarrow> octet 0 ip = 169 \<and> octet 1 ip = 254"

definition v4_is_multicast :: "ipv4 \<Rightarrow> bool" where "v4_is_multicast ip \<longleftrightarrow> octet 0 ip \<in> {224..239}"

definition v6_is_loopback :: "ipv6 \<Rightarrow> bool" where "v6_is_loopback ip \<longleftrightarrow> ip = [0, 0, 0, 0, 0, 0, 0, 1]"

definition v6_is_unspecified :: "ipv6 \<Rightarrow> bool" where "v6_is_unspecified ip \<longleftrightarrow> ip = [0, 0, 0, 0, 0, 0, 0, 0]"

definition v6_is_multicast :: "ipv6 \<Rightarrow> bool" where "v6_is_multicast ip \<longleftrightarrow> ip ! 0 AND 0xFF00 = 0xFF00"

definition v6_is_unique_local :: "ipv6 \<Rightarrow> bool" where "v6_is_unique_local ip \<longleftrightarrow> ip ! 0 AND 0xFE00 = 0xFC00"

definition v6_is_unicast_link_local :: "ipv6 \<Rightarrow> bool" where "v6_is_unicast_link_local ip \<longleftrightarrow> ip ! 0 AND 0xFFC0 = 0xFE80"

definition to_ipv4 :: "ipv6 \<Rightarrow> ipv4 option" where
  "to_ipv4 ip =
     (case ip of
        [a, b, c, d, e, f, ab, cd] \<Rightarrow>
          if a = 0 \<and> b = 0 \<and> c = 0 \<and> d = 0 \<and> e = 0 \<and> (f = 0 \<or> f = 0xFFFF)
          then Some (of_nat (unat ab * 65536 + unat cd)) else None
      | _ \<Rightarrow> None)"

fun is_loopback :: "ip_addr \<Rightarrow> bool" where
  "is_loopback (V4 ip) = v4_is_loopback ip"
| "is_loopback (V6 ip) = v6_is_loopback ip"

section \<open>Addresses that are not public\<close>

definition ipv4_in_cidr :: "ipv4 \<Rightarrow> int list \<Rightarrow> nat \<Rightarrow> bool" where
  "ipv4_in_cidr ip base prefix_len =
     (let mask = (if prefix_len = 0 then 0 else push_bit (32 - prefix_len) (- 1))
      in ip AND mask = ipv4_of base AND mask)"

definition is_non_public_ipv4 :: "ipv4 \<Rightarrow> bool" where
  "is_non_public_ipv4 ip \<longleftrightarrow>
     v4_is_loopback ip \<or> v4_is_private ip \<or> v4_is_link_local ip \<or> ip = 0 \<or> v4_is_multicast ip \<or> ip = - 1 \<or>
     ipv4_in_cidr ip [0, 0, 0, 0] 8 \<or> ipv4_in_cidr ip [100, 64, 0, 0] 10 \<or> ipv4_in_cidr ip [192, 0, 0, 0] 24 \<or>
     ipv4_in_cidr ip [192, 0, 2, 0] 24 \<or> ipv4_in_cidr ip [198, 18, 0, 0] 15 \<or> ipv4_in_cidr ip [198, 51, 100, 0] 24 \<or>
     ipv4_in_cidr ip [203, 0, 113, 0] 24 \<or> ipv4_in_cidr ip [240, 0, 0, 0] 4"

definition is_non_public_ipv6 :: "ipv6 \<Rightarrow> bool" where
  "is_non_public_ipv6 ip =
     (case to_ipv4 ip of
        Some v4 \<Rightarrow> is_non_public_ipv4 v4 \<or> v6_is_loopback ip
      | None \<Rightarrow> v6_is_loopback ip \<or> v6_is_unspecified ip \<or> v6_is_multicast ip \<or> v6_is_unique_local ip \<or> v6_is_unicast_link_local ip)"

fun is_non_public_ip :: "ip_addr \<Rightarrow> bool" where
  "is_non_public_ip (V4 ip) = is_non_public_ipv4 ip"
| "is_non_public_ip (V6 ip) = is_non_public_ipv6 ip"

section \<open>Ranges\<close>

text \<open>Masking with a prefix mask forgets the low bits, so two addresses agree under it exactly when their quotients do.\<close>

lemma and_mask_eq: "(w :: 32 word) AND push_bit n (- 1) = push_bit n (drop_bit n w)"
  by (rule bit_word_eqI) (auto simp: bit_simps)

lemma push_drop_eq_iff:
  fixes w b :: "32 word"
  shows "push_bit n (drop_bit n w) = push_bit n (drop_bit n b) \<longleftrightarrow> drop_bit n w = drop_bit n b"
proof
  assume "push_bit n (drop_bit n w) = push_bit n (drop_bit n b)"
  then have "drop_bit n (push_bit n (drop_bit n w)) = drop_bit n (push_bit n (drop_bit n b))" by (rule arg_cong)
  moreover have "drop_bit n (push_bit n (drop_bit n v)) = drop_bit n v" for v :: "32 word"
    by (rule bit_word_eqI) (auto simp: bit_simps dest: bit_imp_le_length)
  ultimately show "drop_bit n w = drop_bit n b" by simp
qed simp

lemma same_prefix_iff:
  fixes w b :: "32 word"
  shows "w AND push_bit n (- 1) = b AND push_bit n (- 1) \<longleftrightarrow> unat w div 2 ^ n = unat b div 2 ^ n"
proof -
  have "w AND push_bit n (- 1) = b AND push_bit n (- 1) \<longleftrightarrow> unat (drop_bit n w) = unat (drop_bit n b)"
    unfolding and_mask_eq push_drop_eq_iff by (simp only: word_unat_eq_iff)
  then show ?thesis unfolding unat_drop_bit_eq by (simp only: drop_bit_eq_div)
qed

lemma div_eq_iff_range: "0 < (d :: nat) \<Longrightarrow> n div d = q \<longleftrightarrow> q * d \<le> n \<and> n < q * d + d"
  by (metis add.commute div_nat_eqI dividend_less_div_times mult.commute mult_Suc mult_Suc_right times_div_less_eq_dividend)

lemma octet_div: "i \<le> 3 \<Longrightarrow> octet i ip = unat ip div 2 ^ (8 * (3 - i)) mod 256"
proof -
  have "(w :: 32 word) AND 0xFF = take_bit 8 w" for w by (simp add: take_bit_eq_mask mask_numeral)
  then show "octet i ip = unat ip div 2 ^ (8 * (3 - i)) mod 256"
    by (simp only: octet_def unsigned_take_bit_eq unat_drop_bit_eq) (simp add: take_bit_eq_mod drop_bit_eq_div)
qed


text \<open>The blocks of addresses the proxy treats as not public, as inclusive ranges of the 32-bit number.\<close>

definition non_public_blocks :: "(nat \<times> nat) list" where
  "non_public_blocks =
     [(0x00000000, 0x00FFFFFF), (0x0A000000, 0x0AFFFFFF), (0x64400000, 0x647FFFFF), (0x7F000000, 0x7FFFFFFF),
      (0xA9FE0000, 0xA9FEFFFF), (0xAC100000, 0xAC1FFFFF), (0xC0000000, 0xC00000FF), (0xC0000200, 0xC00002FF),
      (0xC0A80000, 0xC0A8FFFF), (0xC6120000, 0xC613FFFF), (0xC6336400, 0xC63364FF), (0xCB007100, 0xCB0071FF),
      (0xE0000000, 0xFFFFFFFF)]"

definition in_block :: "nat \<times> nat \<Rightarrow> nat \<Rightarrow> bool" where
  "in_block b n \<longleftrightarrow> fst b \<le> n \<and> n \<le> snd b"

definition in_blocks :: "(nat \<times> nat) list \<Rightarrow> nat \<Rightarrow> bool" where
  "in_blocks bs n \<longleftrightarrow> list_ex (\<lambda>b. in_block b n) bs"

lemma unat_less_32: "unat (ip :: 32 word) < 4294967296"
  using unsigned_less[of ip, where ?'a = nat] by simp

lemma ipv4_in_cidr_iff:
  assumes "unat (ipv4_of base) = q * 2 ^ k" "k < 32"
  shows "ipv4_in_cidr ip base (32 - k) \<longleftrightarrow> in_block (q * 2 ^ k, q * 2 ^ k + (2 ^ k - 1)) (unat ip)"
proof -
  have mask: "(if 32 - k = 0 then 0 else push_bit (32 - (32 - k)) (- 1)) = (push_bit k (- 1) :: 32 word)"
    using assms(2) by simp
  have "ipv4_in_cidr ip base (32 - k) \<longleftrightarrow> unat ip div 2 ^ k = q"
    unfolding ipv4_in_cidr_def Let_def mask same_prefix_iff assms(1) by simp
  moreover have "n < q * 2 ^ k + 2 ^ k \<longleftrightarrow> n \<le> q * 2 ^ k + (2 ^ k - 1)" for n :: nat
    using zero_less_power[of "2 :: nat" k] by linarith
  ultimately show ?thesis by (simp add: div_eq_iff_range in_block_def)
qed

lemma cidr_blocks:
  "ipv4_in_cidr ip [0, 0, 0, 0] 8 \<longleftrightarrow> in_block (0x00000000, 0x00FFFFFF) (unat ip)"
  "ipv4_in_cidr ip [100, 64, 0, 0] 10 \<longleftrightarrow> in_block (0x64400000, 0x647FFFFF) (unat ip)"
  "ipv4_in_cidr ip [192, 0, 0, 0] 24 \<longleftrightarrow> in_block (0xC0000000, 0xC00000FF) (unat ip)"
  "ipv4_in_cidr ip [192, 0, 2, 0] 24 \<longleftrightarrow> in_block (0xC0000200, 0xC00002FF) (unat ip)"
  "ipv4_in_cidr ip [198, 18, 0, 0] 15 \<longleftrightarrow> in_block (0xC6120000, 0xC613FFFF) (unat ip)"
  "ipv4_in_cidr ip [198, 51, 100, 0] 24 \<longleftrightarrow> in_block (0xC6336400, 0xC63364FF) (unat ip)"
  "ipv4_in_cidr ip [203, 0, 113, 0] 24 \<longleftrightarrow> in_block (0xCB007100, 0xCB0071FF) (unat ip)"
  "ipv4_in_cidr ip [240, 0, 0, 0] 4 \<longleftrightarrow> in_block (0xF0000000, 0xFFFFFFFF) (unat ip)"
  using ipv4_in_cidr_iff[of "[0, 0, 0, 0]" 0 24 ip] ipv4_in_cidr_iff[of "[100, 64, 0, 0]" "0x191" 22 ip]
    ipv4_in_cidr_iff[of "[192, 0, 0, 0]" "0xC00000" 8 ip] ipv4_in_cidr_iff[of "[192, 0, 2, 0]" "0xC00002" 8 ip]
    ipv4_in_cidr_iff[of "[198, 18, 0, 0]" "0x6309" 17 ip] ipv4_in_cidr_iff[of "[198, 51, 100, 0]" "0xC63364" 8 ip]
    ipv4_in_cidr_iff[of "[203, 0, 113, 0]" "0xCB0071" 8 ip] ipv4_in_cidr_iff[of "[240, 0, 0, 0]" "0xF" 28 ip]
  by (simp_all add: ipv4_of_def)

lemma first_octet: "octet 0 ip = unat ip div 16777216"
proof -
  have "unat ip div 16777216 < 256" using unat_less_32[of ip] by (simp add: div_less_iff_less_mult)
  then show ?thesis by (simp add: octet_div)
qed

lemma leading_octets:
  assumes "hi < 256"
  shows "octet 0 ip = a \<and> lo \<le> octet 1 ip \<and> octet 1 ip \<le> hi \<longleftrightarrow>
         (a * 256 + lo) * 65536 \<le> unat ip \<and> unat ip < (a * 256 + hi + 1) * 65536"
proof -
  define m where "m = unat ip div 65536"
  have octets: "octet 0 ip = m div 256" "octet 1 ip = m mod 256"
    by (simp_all add: first_octet octet_div m_def div_mult2_eq [symmetric])
  have "m div 256 = a \<and> lo \<le> m mod 256 \<and> m mod 256 \<le> hi \<longleftrightarrow> a * 256 + lo \<le> m \<and> m < a * 256 + hi + 1"
    (is "?l \<longleftrightarrow> ?r")
  proof -
    obtain q r where "m = q * 256 + r" "r < 256" by (metis div_mod_decomp mod_less_divisor zero_less_numeral)
    then have "m div 256 = q" "m mod 256 = r" by simp_all
    then show ?thesis using assms \<open>m = q * 256 + r\<close> \<open>r < 256\<close> by (cases q a rule: linorder_cases) auto
  qed
  also have "\<dots> \<longleftrightarrow> (a * 256 + lo) * 65536 \<le> unat ip \<and> unat ip < (a * 256 + hi + 1) * 65536"
    by (simp only: m_def less_eq_div_iff_mult_less_eq div_less_iff_less_mult zero_less_numeral)
  finally show ?thesis by (simp only: octets)
qed


lemma first_octet_block: "octet 0 ip = a \<longleftrightarrow> in_block (a * 16777216, a * 16777216 + 16777215) (unat ip)"
  using div_eq_iff_range[of 16777216 "unat ip" a] by (auto simp: first_octet in_block_def)

lemma v4_is_loopback_block: "v4_is_loopback ip \<longleftrightarrow> in_block (0x7F000000, 0x7FFFFFFF) (unat ip)"
  by (simp add: v4_is_loopback_def first_octet_block)

lemma v4_is_multicast_block: "v4_is_multicast ip \<longleftrightarrow> in_block (0xE0000000, 0xEFFFFFFF) (unat ip)"
  using less_eq_div_iff_mult_less_eq[of 16777216 224 "unat ip"] div_less_iff_less_mult[of 16777216 "unat ip" 240]
  by (auto simp: v4_is_multicast_def first_octet in_block_def)

lemma leading_octets_block:
  "hi < 256 \<Longrightarrow> octet 0 ip = a \<and> octet 1 ip \<in> {lo..hi} \<longleftrightarrow>
     in_block ((a * 256 + lo) * 65536, (a * 256 + hi) * 65536 + 65535) (unat ip)"
  using leading_octets[of hi ip a lo] by (auto simp: in_block_def)

lemma v4_is_link_local_block: "v4_is_link_local ip \<longleftrightarrow> in_block (0xA9FE0000, 0xA9FEFFFF) (unat ip)"
  using leading_octets_block[of 254 ip 169 254] by (simp add: v4_is_link_local_def)

lemma v4_is_private_block:
  "v4_is_private ip \<longleftrightarrow> in_block (0x0A000000, 0x0AFFFFFF) (unat ip) \<or> in_block (0xAC100000, 0xAC1FFFFF) (unat ip) \<or>
     in_block (0xC0A80000, 0xC0A8FFFF) (unat ip)"
  using leading_octets_block[of 31 ip 172 16] leading_octets_block[of 168 ip 192 168] first_octet_block[of ip 10]
  by (simp add: v4_is_private_def del: atLeastAtMost_iff)

lemmas block_classes = v4_is_loopback_block v4_is_multicast_block v4_is_link_local_block v4_is_private_block cidr_blocks

lemma adjacent_blocks: "in_block (a, b) n \<or> in_block (Suc b, c) n \<longleftrightarrow> in_block (a, c) n" if "a \<le> Suc b" "b \<le> c"
  using that by (auto simp: in_block_def)

lemma extreme_addresses: "(ip :: ipv4) = 0 \<longleftrightarrow> unat ip = 0" "ip = - 1 \<longleftrightarrow> unat ip = 0xFFFFFFFF"
  by (simp_all add: word_unat_eq_iff unsigned_minus_1_eq_mask mask_numeral)

text \<open>
  C25. The octet tests and CIDR masks of \<open>is_non_public_ipv4\<close> together accept exactly the addresses of
  thirteen blocks: no private, loopback, link-local, carrier-grade, documentation, benchmarking, multicast or
  reserved address is missed, and no other address is refused.
\<close>

theorem is_non_public_ipv4_blocks: "is_non_public_ipv4 ip \<longleftrightarrow> in_blocks non_public_blocks (unat ip)"
proof -
  have "ip = 0 \<Longrightarrow> in_block (0x00000000, 0x00FFFFFF) (unat ip)" "ip = - 1 \<Longrightarrow> in_block (0xF0000000, 0xFFFFFFFF) (unat ip)"
    using extreme_addresses[of ip] by (simp_all add: in_block_def)
  moreover have "in_block (0xE0000000, 0xFFFFFFFF) (unat ip) \<longleftrightarrow>
      in_block (0xE0000000, 0xEFFFFFFF) (unat ip) \<or> in_block (0xF0000000, 0xFFFFFFFF) (unat ip)"
    using adjacent_blocks[of "0xE0000000" "0xEFFFFFFF" "0xFFFFFFFF" "unat ip"] by simp
  ultimately show ?thesis
    unfolding is_non_public_ipv4_def block_classes in_blocks_def non_public_blocks_def list_ex_iff list.set bex_simps
    by argo
qed

end
