(* ===== verification/Network_Host.thy ===== *)
theory Network_Host
  imports Ip_Address Absolute_Path
begin

text \<open>
  Hosts and domain patterns of the network proxy (\<open>network-proxy/src/policy.rs\<close>): normalising a host,
  recognising local hosts, compiling domain patterns into glob sets, and comparing patterns against managed
  ones. The crates \<open>globset\<close> and \<open>url\<close> are not part of the sources: they are the record of
  functions \<open>proxy_libs\<close>, and \<open>globs_ok\<close> states what is relied on of \<open>globset\<close>.
\<close>

section \<open>Libraries\<close>

text \<open>What the code reads of a \<open>url::Url\<close>.\<close>

record parsed_url =
  url_scheme :: rust_str
  url_username :: rust_str
  url_password :: "rust_str option"
  url_host_str :: "rust_str option"
  url_port :: "nat option"

record ('g, 'gs) proxy_libs =
  glob_build :: "bool \<Rightarrow> bool \<Rightarrow> rust_str \<Rightarrow> 'g option"
    \<comment> \<open>\<open>GlobBuilder\<close> with \<open>case_insensitive\<close> and \<open>literal_separator\<close>\<close>
  glob_is_match :: "'g \<Rightarrow> rust_str \<Rightarrow> bool"
  globset_build :: "'g list \<Rightarrow> 'gs option"
  globset_is_match :: "'gs \<Rightarrow> rust_str \<Rightarrow> bool"
  url_host_parse :: "rust_str \<Rightarrow> rust_str option"
    \<comment> \<open>\<open>UrlHost::parse(s)\<close>, displayed\<close>
  url_parse :: "rust_str \<Rightarrow> parsed_url option"

datatype net_error =
    HostIsEmpty | GlobalWildcardUnsupported | InvalidGlob rust_str | GlobSetFailed
  | InvalidSocketPath nat | BrokerNeedsMitm | HooksNeedMitm | InvalidHook nat rust_str | HookCompile rust_str
  | MissingEnvVar rust_str | SecretFileUnreadable | InvalidHeaderValue rust_str | MitmStateFailed
  | InvalidValue rust_str | ReloadFailed | MissingProxyHost | PortNotFixed rust_str | ProxyDisabled

section \<open>Hosts\<close>

definition unscoped_ip_literal :: "rust_str \<Rightarrow> rust_str option" where
  "unscoped_ip_literal h =
     (case split_once CHR ''%'' h of
        Some (ip, _) \<Rightarrow> if parse_ip ip = None then None else Some ip
      | None \<Rightarrow> None)"

definition scoped_literal :: "rust_str \<Rightarrow> rust_str \<Rightarrow> rust_str option" where
  "scoped_literal delimiter h =
     (case split_once_str delimiter h of
        Some (ip, scope) \<Rightarrow> if parse_ip ip = None then None else Some (ip @ ''%'' @ scope)
      | None \<Rightarrow> None)"

definition normalize_ip_literal :: "rust_str \<Rightarrow> rust_str option" where
  "normalize_ip_literal h =
     (if parse_ip h \<noteq> None then Some h
      else (case scoped_literal ''%25'' h of
              Some ip \<Rightarrow> Some ip
            | None \<Rightarrow> scoped_literal ''%'' h))"

definition normalize_dns_host_or_ip_literal :: "rust_str \<Rightarrow> rust_str" where
  "normalize_dns_host_or_ip_literal h =
     (let h = trim_end_matches CHR ''.'' (to_ascii_lowercase h)
      in case normalize_ip_literal h of Some ip \<Rightarrow> ip | None \<Rightarrow> h)"

definition normalize_host :: "rust_str \<Rightarrow> rust_str" where
  "normalize_host h =
     (let h = trim h
      in if prefix ''['' h \<and> CHR '']'' \<in> set h
         then normalize_dns_host_or_ip_literal (tl (takeWhile (\<lambda>c. c \<noteq> CHR '']'') h))
         else if length (filter (\<lambda>c. c = CHR '':'') h) = 1
         then normalize_dns_host_or_ip_literal (hd (split_on CHR '':'' h))
         else normalize_dns_host_or_ip_literal h)"

definition host_parse :: "rust_str \<Rightarrow> (net_error, rust_str) result" where
  "host_parse input =
     (let normalized = normalize_host input in if normalized = [] then Err HostIsEmpty else Ok normalized)"

definition is_loopback_host :: "rust_str \<Rightarrow> bool" where
  "is_loopback_host h =
     (let h = (case unscoped_ip_literal h of Some ip \<Rightarrow> ip | None \<Rightarrow> h)
      in h = ''localhost'' \<or> (case parse_ip h of Some ip \<Rightarrow> is_loopback ip | None \<Rightarrow> False))"

section \<open>Domain patterns\<close>

datatype domain_pattern = ApexAndSubdomains rust_str | SubdomainsOnly rust_str | Exact rust_str

definition parse_domain :: "rust_str \<Rightarrow> (rust_str \<Rightarrow> domain_pattern) \<Rightarrow> domain_pattern" where
  "parse_domain domain build = (let domain = trim domain in if domain = [] then Exact [] else build domain)"

definition domain_pattern_parse :: "rust_str \<Rightarrow> domain_pattern" where
  "domain_pattern_parse input =
     (let input = trim input
      in if input = [] then Exact []
         else (case strip_prefix ''**.'' input of
                 Some domain \<Rightarrow> parse_domain domain ApexAndSubdomains
               | None \<Rightarrow>
              (case strip_prefix ''*.'' input of
                 Some domain \<Rightarrow> parse_domain domain SubdomainsOnly
               | None \<Rightarrow> Exact input)))"

definition parse_domain_for_constraints :: "('g, 'gs, 'z) proxy_libs_scheme \<Rightarrow> rust_str \<Rightarrow> rust_str" where
  "parse_domain_for_constraints L domain =
     (let domain = trim_end_matches CHR ''.'' (trim domain)
      in if domain = [] then []
         else let h = (if prefix ''['' domain \<and> suffix '']'' domain then butlast (tl domain) else domain)
              in if CHR ''*'' \<in> set h \<or> CHR ''?'' \<in> set h \<or> CHR ''%'' \<in> set h then domain
                 else (case url_host_parse L h of Some h \<Rightarrow> h | None \<Rightarrow> []))"

definition parse_for_constraints :: "('g, 'gs, 'z) proxy_libs_scheme \<Rightarrow> rust_str \<Rightarrow> domain_pattern" where
  "parse_for_constraints L input =
     (let input = trim input
      in if input = [] then Exact []
         else (case strip_prefix ''**.'' input of
                 Some domain \<Rightarrow> ApexAndSubdomains (parse_domain_for_constraints L domain)
               | None \<Rightarrow>
              (case strip_prefix ''*.'' input of
                 Some domain \<Rightarrow> SubdomainsOnly (parse_domain_for_constraints L domain)
               | None \<Rightarrow> Exact (parse_domain_for_constraints L input))))"

definition expand_domain_pattern :: "rust_str \<Rightarrow> rust_str list" where
  "expand_domain_pattern pat =
     (case domain_pattern_parse pat of
        Exact domain \<Rightarrow> [domain]
      | SubdomainsOnly domain \<Rightarrow> [''?*.'' @ domain]
      | ApexAndSubdomains domain \<Rightarrow> [domain, ''?*.'' @ domain])"

definition normalize_domain :: "rust_str \<Rightarrow> rust_str" where
  "normalize_domain domain = to_ascii_lowercase (trim_end_matches CHR ''.'' domain)"

definition domain_eq :: "rust_str \<Rightarrow> rust_str \<Rightarrow> bool" where
  "domain_eq left right \<longleftrightarrow> normalize_domain left = normalize_domain right"

definition is_subdomain_or_equal :: "rust_str \<Rightarrow> rust_str \<Rightarrow> bool" where
  "is_subdomain_or_equal child parent =
     (let child = normalize_domain child; parent = normalize_domain parent
      in child = parent \<or> suffix (''.'' @ parent) child)"

definition is_strict_subdomain :: "rust_str \<Rightarrow> rust_str \<Rightarrow> bool" where
  "is_strict_subdomain child parent =
     (let child = normalize_domain child; parent = normalize_domain parent
      in child \<noteq> parent \<and> suffix (''.'' @ parent) child)"

fun pattern_allows :: "domain_pattern \<Rightarrow> domain_pattern \<Rightarrow> bool" where
  "pattern_allows (Exact domain) (Exact candidate) = domain_eq candidate domain"
| "pattern_allows (Exact domain) _ = False"
| "pattern_allows (SubdomainsOnly domain) (Exact candidate) = is_strict_subdomain candidate domain"
| "pattern_allows (SubdomainsOnly domain) (SubdomainsOnly candidate) = is_subdomain_or_equal candidate domain"
| "pattern_allows (SubdomainsOnly domain) (ApexAndSubdomains candidate) = is_strict_subdomain candidate domain"
| "pattern_allows (ApexAndSubdomains domain) (Exact candidate) = is_subdomain_or_equal candidate domain"
| "pattern_allows (ApexAndSubdomains domain) (SubdomainsOnly candidate) = is_subdomain_or_equal candidate domain"
| "pattern_allows (ApexAndSubdomains domain) (ApexAndSubdomains candidate) = is_subdomain_or_equal candidate domain"

section \<open>Glob sets\<close>

definition normalize_pattern :: "rust_str \<Rightarrow> rust_str" where
  "normalize_pattern pat =
     (let pat = trim pat
      in if pat = ''*'' then ''*''
         else (case strip_prefix ''**.'' pat of
                 Some domain \<Rightarrow> ''**.'' @ normalize_host domain
               | None \<Rightarrow>
              (case strip_prefix ''*.'' pat of
                 Some domain \<Rightarrow> ''*.'' @ normalize_host domain
               | None \<Rightarrow> normalize_host pat)))"

definition is_global_wildcard_domain_pattern :: "rust_str \<Rightarrow> bool" where
  "is_global_wildcard_domain_pattern pat \<longleftrightarrow>
     list_ex (\<lambda>candidate. candidate = ''*'') (expand_domain_pattern (normalize_pattern pat))"

datatype global_wildcard = AllowGlobal | RejectGlobal

fun add_candidates :: "('g, 'gs, 'z) proxy_libs_scheme \<Rightarrow> rust_str list \<Rightarrow> rust_str list \<times> 'g list \<Rightarrow>
    (net_error, rust_str list \<times> 'g list) result" where
  "add_candidates L [] st = Ok st"
| "add_candidates L (candidate # cs) (seen, globs) =
     (if candidate \<in> set seen then add_candidates L cs (seen, globs)
      else (case glob_build L True False candidate of
              None \<Rightarrow> Err (InvalidGlob candidate)
            | Some glob \<Rightarrow> add_candidates L cs (candidate # seen, globs @ [glob])))"

fun add_patterns :: "('g, 'gs, 'z) proxy_libs_scheme \<Rightarrow> global_wildcard \<Rightarrow> rust_str list \<Rightarrow> rust_str list \<times> 'g list \<Rightarrow>
    (net_error, rust_str list \<times> 'g list) result" where
  "add_patterns L w [] st = Ok st"
| "add_patterns L w (pat # ps) st =
     (if w = RejectGlobal \<and> is_global_wildcard_domain_pattern pat then Err GlobalWildcardUnsupported
      else bind_result (add_candidates L (expand_domain_pattern (normalize_pattern pat)) st) (add_patterns L w ps))"

definition compile_globset_with_policy :: "('g, 'gs, 'z) proxy_libs_scheme \<Rightarrow> rust_str list \<Rightarrow> global_wildcard \<Rightarrow>
    (net_error, 'gs) result" where
  "compile_globset_with_policy L patterns w =
     bind_result (add_patterns L w patterns ([], [])) (\<lambda>(_, globs).
       case globset_build L globs of Some s \<Rightarrow> Ok s | None \<Rightarrow> Err GlobSetFailed)"

definition compile_allowlist_globset :: "('g, 'gs, 'z) proxy_libs_scheme \<Rightarrow> rust_str list \<Rightarrow> (net_error, 'gs) result" where
  "compile_allowlist_globset L patterns = compile_globset_with_policy L patterns AllowGlobal"

definition compile_denylist_globset :: "('g, 'gs, 'z) proxy_libs_scheme \<Rightarrow> rust_str list \<Rightarrow> (net_error, 'gs) result" where
  "compile_denylist_globset L patterns = compile_globset_with_policy L patterns RejectGlobal"

section \<open>Meaning of domain patterns\<close>

text \<open>The hosts a pattern stands for, in the normal form of \<open>normalize_domain\<close>: the domain, names below it, or both.\<close>

definition below :: "rust_str \<Rightarrow> rust_str set" where
  "below domain = {label @ ''.'' @ normalize_domain domain | label. label \<noteq> []}"

fun hosts_of :: "domain_pattern \<Rightarrow> rust_str set" where
  "hosts_of (Exact domain) = {normalize_domain domain}"
| "hosts_of (SubdomainsOnly domain) = below domain"
| "hosts_of (ApexAndSubdomains domain) = insert (normalize_domain domain) (below domain)"

lemma in_below: "h \<in> below d \<longleftrightarrow> (\<exists>label. label \<noteq> [] \<and> h = label @ CHR ''.'' # normalize_domain d)"
  by (auto simp: below_def)

lemma below_label: "label \<noteq> [] \<Longrightarrow> label @ CHR ''.'' # normalize_domain d \<in> below d"
  by (auto simp: in_below)

lemma below_trans: "suffix (''.'' @ normalize_domain d) (normalize_domain c) \<Longrightarrow> below c \<subseteq> below d"
  by (fastforce simp: in_below suffix_def)

text \<open>All names below one domain are below another exactly when the domain is, or is the same.\<close>

lemma below_subset_iff: "below c \<subseteq> below d \<longleftrightarrow> is_subdomain_or_equal c d"
proof
  assume sub: "below c \<subseteq> below d"
  let ?c = "normalize_domain c" and ?d = "normalize_domain d"
  have "''a'' @ CHR ''.'' # ?c \<in> below d" using sub below_label[of "''a''" c] by auto
  then obtain label where label: "label \<noteq> []" "CHR ''a'' # CHR ''.'' # ?c = label @ CHR ''.'' # ?d"
    by (auto simp: in_below)
  then obtain x xs where x: "label = x # xs" "CHR ''.'' # ?c = xs @ CHR ''.'' # ?d" by (cases label) auto
  then show "is_subdomain_or_equal c d"
    by (cases xs) (auto simp: is_subdomain_or_equal_def suffix_def)
next
  assume "is_subdomain_or_equal c d"
  then consider "normalize_domain c = normalize_domain d" | "suffix (''.'' @ normalize_domain d) (normalize_domain c)"
    by (auto simp: is_subdomain_or_equal_def Let_def)
  then show "below c \<subseteq> below d"
  proof cases
    case 1
    then show ?thesis by (simp add: below_def)
  qed (rule below_trans)
qed

lemma strict_subdomain_iff:
  assumes "\<not> prefix ''.'' (normalize_domain c)"
  shows "is_strict_subdomain c d \<longleftrightarrow> normalize_domain c \<in> below d"
proof -
  have "suffix (''.'' @ normalize_domain d) (normalize_domain c) \<longleftrightarrow> normalize_domain c \<in> below d"
    using assms by (fastforce simp: in_below suffix_def prefix_def)
  moreover have "normalize_domain c \<noteq> normalize_domain d" if "normalize_domain c \<in> below d"
    using that by (auto simp: in_below)
  ultimately show ?thesis by (auto simp: is_strict_subdomain_def Let_def)
qed

lemma subdomain_or_equal_iff:
  assumes "\<not> prefix ''.'' (normalize_domain c)"
  shows "is_subdomain_or_equal c d \<longleftrightarrow> normalize_domain c = normalize_domain d \<or> normalize_domain c \<in> below d"
  using strict_subdomain_iff[OF assms] by (auto simp: is_subdomain_or_equal_def is_strict_subdomain_def Let_def)

lemma below_not_singleton: "\<not> below c \<subseteq> {h}"
  using below_label[of "''a''" c] below_label[of "''b''" c] by auto

fun pattern_domain :: "domain_pattern \<Rightarrow> rust_str" where
  "pattern_domain (Exact domain) = domain"
| "pattern_domain (SubdomainsOnly domain) = domain"
| "pattern_domain (ApexAndSubdomains domain) = domain"

lemma below_insert_iff: "below c \<subseteq> insert (normalize_domain d) (below d) \<longleftrightarrow> below c \<subseteq> below d"
proof
  assume sub: "below c \<subseteq> insert (normalize_domain d) (below d)"
  show "below c \<subseteq> below d"
  proof (rule ccontr)
    assume "\<not> below c \<subseteq> below d"
    then have "normalize_domain d \<in> below c" using sub by blast
    then obtain label where l: "label \<noteq> []" "label @ CHR ''.'' # normalize_domain c = normalize_domain d"
      by (auto simp: in_below)
    have "(CHR ''a'' # label) @ CHR ''.'' # normalize_domain c \<in> insert (normalize_domain d) (below d)"
      using sub below_label[of "CHR ''a'' # label" c] by auto
    then have "CHR ''a'' # normalize_domain d \<in> insert (normalize_domain d) (below d)" using l(2) by simp
    then obtain k where "k \<noteq> []" "CHR ''a'' # normalize_domain d = k @ CHR ''.'' # normalize_domain d"
      by (auto simp: in_below)
    then show False by (cases k) (auto dest: arg_cong[where f = length])
  qed
qed auto

text \<open>
  C26. Comparing two patterns by text is comparing what they match: a managed pattern allows a candidate
  exactly when every host the candidate stands for is one the managed pattern stands for. The candidate's
  domain must not start with a dot, which the text comparison does not look at.
\<close>

theorem pattern_allows_iff_subset:
  assumes "\<not> prefix ''.'' (normalize_domain (pattern_domain candidate))"
  shows "pattern_allows managed candidate \<longleftrightarrow> hosts_of candidate \<subseteq> hosts_of managed"
proof -
  have "\<not> insert h (below c) \<subseteq> {h'}" for h c h' using below_not_singleton[of c h'] by auto
  moreover have "below c \<subseteq> below d" if "normalize_domain c \<in> below d" for c d
    using that below_trans[of d c] by (auto simp: in_below suffix_def)
  ultimately show ?thesis
    using assms
    by (cases managed; cases candidate)
       (auto simp: domain_eq_def strict_subdomain_iff subdomain_or_equal_iff below_insert_iff below_subset_iff below_not_singleton)
qed

theorem pattern_allows_iff_subset_witness:
  "pattern_allows (ApexAndSubdomains ''Example.com'') (SubdomainsOnly ''api.example.com.'') \<and>
   hosts_of (SubdomainsOnly ''api.example.com.'') \<subseteq> hosts_of (ApexAndSubdomains ''Example.com'')"
proof -
  have 1: "\<not> prefix ''.'' (normalize_domain (pattern_domain (SubdomainsOnly ''api.example.com.'')))" by code_simp
  have "pattern_allows (ApexAndSubdomains ''Example.com'') (SubdomainsOnly ''api.example.com.'')" by code_simp
  with pattern_allows_iff_subset[OF 1, of "ApexAndSubdomains ''Example.com''"] show ?thesis by blast
qed

end
