(* ===== verification/Network_Config.thy ===== *)
theory Network_Config
  imports Network_Host
begin

text \<open>
  The settings of the network proxy (\<open>network-proxy/src/config.rs\<close>): domain and unix socket permissions,
  the addresses the proxy listens on, and the settings a remote executor receives
  (\<open>network-proxy/src/remote_config.rs\<close>). A \<open>BTreeMap\<close> is an association list sorted by its keys. The
  serialisation of the settings is generated by \<open>serde\<close> and not modelled.
\<close>

section \<open>Domain permissions\<close>

datatype network_domain_permission = PermNone | PermAllow | PermDeny

text \<open>The derived order is the order of the variants, in which a denial is the greatest.\<close>

fun permission_rank :: "network_domain_permission \<Rightarrow> nat" where
  "permission_rank PermNone = 0"
| "permission_rank PermAllow = 1"
| "permission_rank PermDeny = 2"

lemma permission_rank_inj: "permission_rank a = permission_rank b \<longleftrightarrow> a = b"
  by (cases a; cases b) simp_all

instantiation network_domain_permission :: linorder
begin

definition less_eq_network_domain_permission :: "network_domain_permission \<Rightarrow> network_domain_permission \<Rightarrow> bool" where
  "less_eq_network_domain_permission a b \<longleftrightarrow> permission_rank a \<le> permission_rank b"

definition less_network_domain_permission :: "network_domain_permission \<Rightarrow> network_domain_permission \<Rightarrow> bool" where
  "less_network_domain_permission a b \<longleftrightarrow> permission_rank a < permission_rank b"

instance
  by standard (auto simp: less_eq_network_domain_permission_def less_network_domain_permission_def permission_rank_inj)

end

record network_domain_permission_entry =
  entry_pattern :: rust_str
  entry_permission :: network_domain_permission

type_synonym network_domain_permissions = "network_domain_permission_entry list"

definition note_permission :: "network_domain_permission_entry \<Rightarrow>
    rust_str list \<times> (rust_str \<times> network_domain_permission) list \<Rightarrow>
    rust_str list \<times> (rust_str \<times> network_domain_permission) list" where
  "note_permission entry st =
     (case st of (order, effective) \<Rightarrow>
        (case map_of effective (entry_pattern entry) of
           None \<Rightarrow> (order @ [entry_pattern entry], AList.update (entry_pattern entry) (entry_permission entry) effective)
         | Some permission \<Rightarrow>
             (order, if entry_permission entry > permission
                     then AList.update (entry_pattern entry) (entry_permission entry) effective else effective)))"

fun take_effective :: "rust_str list \<Rightarrow> (rust_str \<times> network_domain_permission) list \<Rightarrow> network_domain_permissions" where
  "take_effective [] effective = []"
| "take_effective (p # ps) effective =
     (case map_of effective p of
        Some permission \<Rightarrow> \<lparr>entry_pattern = p, entry_permission = permission\<rparr> # take_effective ps (AList.delete p effective)
      | None \<Rightarrow> take_effective ps effective)"

definition effective_entries :: "network_domain_permissions \<Rightarrow> network_domain_permissions" where
  "effective_entries entries =
     (case fold note_permission entries ([], []) of (order, effective) \<Rightarrow> take_effective order effective)"

section \<open>Settings\<close>

datatype network_unix_socket_permission = SocketAllow | SocketDeny

type_synonym network_unix_socket_permissions = "(rust_str \<times> network_unix_socket_permission) list"

datatype network_mode = Limited | Full

text \<open>The MITM hooks as they are configured (\<open>network-proxy/src/mitm_hook.rs\<close>).\<close>

record mitm_hook_match_config =
  cfg_methods :: "rust_str list"
  cfg_path_prefixes :: "rust_str list"
  cfg_query :: "(rust_str \<times> rust_str list) list"
  cfg_headers :: "(rust_str \<times> rust_str list) list"
  cfg_body :: "rust_str option"  \<comment> \<open>JSON\<close>

record injected_header_config =
  inj_name :: rust_str
  secret_env_var :: "rust_str option"
  secret_file :: "rust_str option"
  inj_prefix :: "rust_str option"

record mitm_hook_actions_config =
  cfg_strip_request_headers :: "rust_str list"
  cfg_inject_request_headers :: "injected_header_config list"

record mitm_hook_config =
  cfg_host :: rust_str
  cfg_matcher :: mitm_hook_match_config
  cfg_actions :: mitm_hook_actions_config

record network_proxy_config =
  enabled :: bool
  proxy_url :: rust_str
  enable_socks5 :: bool
  socks_url :: rust_str
  enable_socks5_udp :: bool
  allow_upstream_proxy :: bool
  dangerously_allow_non_loopback_proxy :: bool
  dangerously_allow_all_unix_sockets :: bool
  network_mode_of :: network_mode
  domains :: "network_domain_permissions option"
  unix_sockets :: "network_unix_socket_permissions option"
  allow_local_binding :: bool
  mitm :: bool
  credential_broker :: bool
  credential_broker_openai_host :: "rust_str option"
  dangerously_allow_plaintext_credential_injection :: bool
  mitm_hooks :: "mitm_hook_config list"

definition default_proxy_url :: rust_str where "default_proxy_url = ''http://127.0.0.1:3128''"
definition default_socks_url :: rust_str where "default_socks_url = ''http://127.0.0.1:8081''"

definition default_config :: network_proxy_config where
  "default_config = \<lparr>enabled = False, proxy_url = default_proxy_url, enable_socks5 = True, socks_url = default_socks_url,
     enable_socks5_udp = True, allow_upstream_proxy = True, dangerously_allow_non_loopback_proxy = False,
     dangerously_allow_all_unix_sockets = False, network_mode_of = Full, domains = None, unix_sockets = None,
     allow_local_binding = False, mitm = False, credential_broker = False, credential_broker_openai_host = None,
     dangerously_allow_plaintext_credential_injection = False, mitm_hooks = []\<rparr>"

definition set_credential_broker_enabled :: "bool \<Rightarrow> network_proxy_config \<Rightarrow> network_proxy_config" where
  "set_credential_broker_enabled on cfg = cfg\<lparr>credential_broker := on, mitm := mitm cfg \<or> on\<rparr>"

definition trusted_credential_broker_host :: "('g, 'gs, 'z) proxy_libs_scheme \<Rightarrow> rust_str \<Rightarrow> rust_str option" where
  "trusted_credential_broker_host L base_url =
     (case url_parse L base_url of
        Some url \<Rightarrow>
          if url_scheme url = ''https'' \<and> url_username url = [] \<and> url_password url = None
          then map_option normalize_host (url_host_str url) else None
      | None \<Rightarrow> None)"

definition set_credential_broker_openai_base_url :: "('g, 'gs, 'z) proxy_libs_scheme \<Rightarrow> rust_str option \<Rightarrow>
    network_proxy_config \<Rightarrow> network_proxy_config" where
  "set_credential_broker_openai_base_url L base_url cfg =
     cfg\<lparr>credential_broker_openai_host := Option.bind base_url (trusted_credential_broker_host L)\<rparr>"

definition domain_entries :: "network_domain_permission \<Rightarrow> network_proxy_config \<Rightarrow> rust_str list option" where
  "domain_entries permission cfg =
     (case map_option (\<lambda>ds. map entry_pattern (filter (\<lambda>e. entry_permission e = permission) (effective_entries ds))) (domains cfg) of
        Some entries \<Rightarrow> if entries = [] then None else Some entries
      | None \<Rightarrow> None)"

definition allowed_domains :: "network_proxy_config \<Rightarrow> rust_str list option" where
  "allowed_domains cfg = domain_entries PermAllow cfg"

definition denied_domains :: "network_proxy_config \<Rightarrow> rust_str list option" where
  "denied_domains cfg = domain_entries PermDeny cfg"

abbreviation unwrap_or_default :: "'a list option \<Rightarrow> 'a list" where
  "unwrap_or_default x \<equiv> (case x of Some xs \<Rightarrow> xs | None \<Rightarrow> [])"

definition allow_unix_sockets :: "network_proxy_config \<Rightarrow> rust_str list" where
  "allow_unix_sockets cfg =
     unwrap_or_default (map_option (\<lambda>ss. map fst (filter (\<lambda>(_, p). p = SocketAllow) ss)) (unix_sockets cfg))"

definition some_unless_empty :: "'a list \<Rightarrow> 'a list option" where
  "some_unless_empty xs = (if xs = [] then None else Some xs)"

definition push_domain_entry :: "network_domain_permission \<Rightarrow> rust_str \<Rightarrow> network_domain_permissions \<Rightarrow> network_domain_permissions" where
  "push_domain_entry permission p entries =
     (if list_ex (\<lambda>e. entry_pattern e = p \<and> entry_permission e = permission) entries then entries
      else entries @ [\<lparr>entry_pattern = p, entry_permission = permission\<rparr>])"

definition set_domain_entries :: "rust_str list \<Rightarrow> network_domain_permission \<Rightarrow> network_proxy_config \<Rightarrow> network_proxy_config" where
  "set_domain_entries entries permission cfg =
     cfg\<lparr>domains := some_unless_empty
       (fold (push_domain_entry permission) entries
         (filter (\<lambda>e. entry_permission e \<noteq> permission) (unwrap_or_default (domains cfg))))\<rparr>"

definition set_allowed_domains :: "rust_str list \<Rightarrow> network_proxy_config \<Rightarrow> network_proxy_config" where
  "set_allowed_domains entries cfg = set_domain_entries entries PermAllow cfg"

definition set_denied_domains :: "rust_str list \<Rightarrow> network_proxy_config \<Rightarrow> network_proxy_config" where
  "set_denied_domains entries cfg = set_domain_entries entries PermDeny cfg"

definition upsert_domain_permission :: "rust_str \<Rightarrow> network_domain_permission \<Rightarrow> (rust_str \<Rightarrow> rust_str) \<Rightarrow>
    network_proxy_config \<Rightarrow> network_proxy_config" where
  "upsert_domain_permission h permission norm cfg =
     cfg\<lparr>domains := some_unless_empty
       (filter (\<lambda>e. norm (entry_pattern e) \<noteq> norm h) (unwrap_or_default (domains cfg)) @
        [\<lparr>entry_pattern = h, entry_permission = permission\<rparr>])\<rparr>"

definition btree_insert :: "'k::linorder \<Rightarrow> 'v \<Rightarrow> ('k \<times> 'v) list \<Rightarrow> ('k \<times> 'v) list" where
  "btree_insert k v m = insort_key fst (k, v) (filter (\<lambda>(k', _). k' \<noteq> k) m)"

definition set_unix_socket_entries :: "rust_str list \<Rightarrow> network_unix_socket_permission \<Rightarrow> network_proxy_config \<Rightarrow> network_proxy_config" where
  "set_unix_socket_entries entries permission cfg =
     cfg\<lparr>unix_sockets := some_unless_empty
       (fold (\<lambda>e m. btree_insert e permission m) entries
         (filter (\<lambda>(_, existing). existing \<noteq> permission) (unwrap_or_default (unix_sockets cfg))))\<rparr>"

definition set_allow_unix_sockets :: "rust_str list \<Rightarrow> network_proxy_config \<Rightarrow> network_proxy_config" where
  "set_allow_unix_sockets entries cfg = set_unix_socket_entries entries SocketAllow cfg"

fun allows_method :: "network_mode \<Rightarrow> rust_str \<Rightarrow> bool" where
  "allows_method Full method = True"
| "allows_method Limited method = (method = ''GET'' \<or> method = ''HEAD'' \<or> method = ''OPTIONS'')"

section \<open>Listening addresses\<close>

type_synonym socket_addr = "ip_addr \<times> nat"

abbreviation localhost_v4 :: ip_addr where "localhost_v4 \<equiv> V4 (ipv4_of [127, 0, 0, 1])"

definition clamp_non_loopback :: "socket_addr \<Rightarrow> bool \<Rightarrow> socket_addr" where
  "clamp_non_loopback addr allow_non_loopback =
     (if is_loopback (fst addr) then addr
      else if allow_non_loopback then addr
      else (localhost_v4, snd addr))"

definition clamp_bind_addrs :: "socket_addr \<Rightarrow> socket_addr \<Rightarrow> network_proxy_config \<Rightarrow> socket_addr \<times> socket_addr" where
  "clamp_bind_addrs http_addr socks_addr cfg =
     (let http_addr = clamp_non_loopback http_addr (dangerously_allow_non_loopback_proxy cfg);
          socks_addr = clamp_non_loopback socks_addr (dangerously_allow_non_loopback_proxy cfg)
      in if allow_unix_sockets cfg = [] \<and> \<not> dangerously_allow_all_unix_sockets cfg then (http_addr, socks_addr)
         else ((localhost_v4, snd http_addr), (localhost_v4, snd socks_addr)))"

text \<open>In the Unix build a path that starts with a slash is absolute, so the second variant is never reached.\<close>

datatype validated_unix_socket_path = Native path | UnixStyleAbsolute rust_str

definition unix_style_absolute_path :: "rust_str \<Rightarrow> rust_str option" where
  "unix_style_absolute_path v = (if prefix ''/'' v then Some v else None)"

definition unix_socket_path_parse :: "rust_str option \<Rightarrow> rust_str option \<Rightarrow> rust_str \<Rightarrow> validated_unix_socket_path option" where
  "unix_socket_path_parse home cwd socket_path =
     (if is_absolute (path_components socket_path) then map_option Native (from_absolute_path home cwd socket_path)
      else map_option UnixStyleAbsolute (unix_style_absolute_path socket_path))"

fun validate_socket_paths :: "rust_str option \<Rightarrow> rust_str option \<Rightarrow> nat \<Rightarrow> rust_str list \<Rightarrow> (net_error, unit) result" where
  "validate_socket_paths home cwd index [] = Ok ()"
| "validate_socket_paths home cwd index (p # ps) =
     (case unix_socket_path_parse home cwd p of
        None \<Rightarrow> Err (InvalidSocketPath index)
      | Some _ \<Rightarrow> validate_socket_paths home cwd (Suc index) ps)"

definition validate_unix_socket_allowlist_paths :: "rust_str option \<Rightarrow> rust_str option \<Rightarrow> network_proxy_config \<Rightarrow> (net_error, unit) result" where
  "validate_unix_socket_allowlist_paths home cwd cfg = validate_socket_paths home cwd 0 (allow_unix_sockets cfg)"

text \<open>\<open>str::parse::<u16>\<close>: an optional plus sign and decimal digits, at most 65535.\<close>

definition parse_u16 :: "rust_str \<Rightarrow> nat option" where
  "parse_u16 s =
     (let digits = (case strip_prefix ''+'' s of Some r \<Rightarrow> r | None \<Rightarrow> s);
          n = foldl (\<lambda>n c. n * 10 + (byte_of c - 48)) 0 digits
      in if digits \<noteq> [] \<and> list_all is_ascii_digit digits \<and> n \<le> 65535 then Some n else None)"

definition port_or_default :: "nat \<Rightarrow> rust_str option \<Rightarrow> nat" where
  "port_or_default default_port s = (case Option.bind s parse_u16 of Some p \<Rightarrow> p | None \<Rightarrow> default_port)"

definition parse_host_port_fallback :: "rust_str \<Rightarrow> nat \<Rightarrow> (net_error, rust_str \<times> nat) result" where
  "parse_host_port_fallback input default_port =
     (let without_scheme = (case split_once_str ''://'' input of Some (_, rest) \<Rightarrow> rest | None \<Rightarrow> input);
          host_port = hd (split_on CHR ''/'' without_scheme);
          host_port = (case rsplit_once CHR ''@'' host_port of Some (_, rest) \<Rightarrow> rest | None \<Rightarrow> host_port)
      in if prefix ''['' host_port \<and> CHR '']'' \<in> set host_port
         then let h = tl (takeWhile (\<lambda>c. c \<noteq> CHR '']'') host_port);
                  port = port_or_default default_port
                    (strip_prefix '':'' (tl (dropWhile (\<lambda>c. c \<noteq> CHR '']'') host_port)))
              in if h = [] then Err MissingProxyHost else Ok (h, port)
         else case (if length (filter (\<lambda>c. c = CHR '':'') host_port) = 1 then rsplit_once CHR '':'' host_port else None) of
                Some (h, port) \<Rightarrow>
                  if h = [] then Err MissingProxyHost else Ok (h, port_or_default default_port (Some port))
              | None \<Rightarrow>
                  if host_port = [] then Err MissingProxyHost else Ok (host_port, default_port))"

definition trim_brackets :: "rust_str \<Rightarrow> rust_str" where
  "trim_brackets s =
     (let bracket = (\<lambda>c. c = CHR ''['' \<or> c = CHR '']'') in rev (dropWhile bracket (rev (dropWhile bracket s))))"

definition parse_host_port :: "('g, 'gs, 'z) proxy_libs_scheme \<Rightarrow> rust_str \<Rightarrow> nat \<Rightarrow> (net_error, rust_str \<times> nat) result" where
  "parse_host_port L url default_port =
     (let trimmed = trim url
      in if trimmed = [] then Err MissingProxyHost
         else if (case parse_ip trimmed of Some (V6 _) \<Rightarrow> True | _ \<Rightarrow> False) \<and> \<not> prefix ''['' trimmed
         then Ok (trimmed, default_port)
         else let candidate = (if sublist ''://'' trimmed then trimmed else ''http://'' @ trimmed)
              in case Option.bind (url_parse L candidate) (\<lambda>parsed. map_option (\<lambda>h. (parsed, h)) (url_host_str parsed)) of
                   Some (parsed, h) \<Rightarrow>
                     let h = trim_brackets h
                     in if h = [] then Err MissingProxyHost
                        else Ok (h, case url_port parsed of Some p \<Rightarrow> p | None \<Rightarrow> default_port)
                 | None \<Rightarrow> parse_host_port_fallback trimmed default_port)"

definition resolve_addr :: "('g, 'gs, 'z) proxy_libs_scheme \<Rightarrow> rust_str \<Rightarrow> nat \<Rightarrow> (net_error, socket_addr) result" where
  "resolve_addr L url default_port =
     bind_result (parse_host_port L url default_port) (\<lambda>(h, port).
       let h = (if eq_ignore_ascii_case h ''localhost'' then ''127.0.0.1'' else h)
       in Ok (case parse_ip h of Some ip \<Rightarrow> (ip, port) | None \<Rightarrow> (localhost_v4, port)))"

record runtime_config =
  http_addr :: socket_addr
  socks_addr :: socket_addr

definition resolve_runtime :: "('g, 'gs, 'z) proxy_libs_scheme \<Rightarrow> rust_str option \<Rightarrow> rust_str option \<Rightarrow>
    network_proxy_config \<Rightarrow> (net_error, runtime_config) result" where
  "resolve_runtime L home cwd cfg =
     bind_result (validate_unix_socket_allowlist_paths home cwd cfg) (\<lambda>_.
     bind_result (resolve_addr L (proxy_url cfg) 3128) (\<lambda>http.
     bind_result (resolve_addr L (socks_url cfg) 8081) (\<lambda>socks.
       case clamp_bind_addrs http socks cfg of (http, socks) \<Rightarrow> Ok \<lparr>http_addr = http, socks_addr = socks\<rparr>)))"

definition managed_proxy_ports :: "('g, 'gs, 'z) proxy_libs_scheme \<Rightarrow> rust_str option \<Rightarrow> rust_str option \<Rightarrow>
    network_proxy_config \<Rightarrow> (net_error, nat list) result" where
  "managed_proxy_ports L home cwd cfg =
     bind_result (resolve_runtime L home cwd cfg) (\<lambda>rt.
       if snd (http_addr rt) = 0 then Err (PortNotFixed ''network.proxy_url'')
       else if enable_socks5 cfg
       then if snd (socks_addr rt) = 0 then Err (PortNotFixed ''network.socks_url'')
            else Ok (remdups_adj (sort [snd (http_addr rt), snd (socks_addr rt)]))
       else Ok [snd (http_addr rt)])"

definition format_host_and_port :: "rust_str \<Rightarrow> nat \<Rightarrow> rust_str" where
  "format_host_and_port h port =
     (if CHR '':'' \<in> set h then ''['' @ h @ '']:'' @ show_usize port else h @ '':'' @ show_usize port)"

definition host_and_port_from_network_addr :: "('g, 'gs, 'z) proxy_libs_scheme \<Rightarrow> rust_str \<Rightarrow> nat \<Rightarrow> rust_str" where
  "host_and_port_from_network_addr L v default_port =
     (let trimmed = trim v
      in if trimmed = [] then ''<missing>''
         else (case parse_host_port L trimmed default_port of
                 Ok (h, port) \<Rightarrow> format_host_and_port h port
               | Err _ \<Rightarrow> format_host_and_port trimmed default_port))"

section \<open>Settings for a remote executor\<close>

record remote_network_proxy_config =
  r_enabled :: bool
  r_enable_socks5 :: bool
  r_enable_socks5_udp :: bool
  r_allow_upstream_proxy :: bool
  r_dangerously_allow_all_unix_sockets :: bool
  r_mode :: network_mode
  r_domains :: "network_domain_permissions option"
  r_unix_sockets :: "network_unix_socket_permissions option"
  r_allow_local_binding :: bool

definition from_effective_config :: "network_proxy_config \<Rightarrow> remote_network_proxy_config option" where
  "from_effective_config cfg =
     (if \<not> enabled cfg \<or> (\<not> mitm cfg \<and> \<not> credential_broker cfg \<and>
         \<not> dangerously_allow_plaintext_credential_injection cfg \<and> mitm_hooks cfg = [])
      then Some \<lparr>r_enabled = enabled cfg, r_enable_socks5 = enable_socks5 cfg, r_enable_socks5_udp = enable_socks5_udp cfg,
        r_allow_upstream_proxy = allow_upstream_proxy cfg,
        r_dangerously_allow_all_unix_sockets = dangerously_allow_all_unix_sockets cfg, r_mode = network_mode_of cfg,
        r_domains = domains cfg, r_unix_sockets = unix_sockets cfg, r_allow_local_binding = allow_local_binding cfg\<rparr>
      else None)"

definition into_network_proxy_config :: "remote_network_proxy_config \<Rightarrow> network_proxy_config" where
  "into_network_proxy_config r = default_config\<lparr>enabled := r_enabled r, enable_socks5 := r_enable_socks5 r,
     enable_socks5_udp := r_enable_socks5_udp r, allow_upstream_proxy := r_allow_upstream_proxy r,
     dangerously_allow_all_unix_sockets := r_dangerously_allow_all_unix_sockets r, network_mode_of := r_mode r,
     domains := r_domains r, unix_sockets := r_unix_sockets r, allow_local_binding := r_allow_local_binding r\<rparr>"

section \<open>Lemmas\<close>

subsection \<open>Effective permissions\<close>

definition strengthen :: "rust_str \<Rightarrow> network_domain_permission_entry \<Rightarrow> network_domain_permission option \<Rightarrow> network_domain_permission option" where
  "strengthen p e acc =
     (if entry_pattern e = p then Some (case acc of None \<Rightarrow> entry_permission e | Some q \<Rightarrow> max q (entry_permission e)) else acc)"

definition order_ok :: "rust_str list \<times> (rust_str \<times> network_domain_permission) list \<Rightarrow> bool" where
  "order_ok st \<longleftrightarrow> distinct (fst st) \<and> set (fst st) = dom (map_of (snd st))"

lemma note_permission_effect:
  assumes "order_ok st"
  shows "order_ok (note_permission e st)" "map_of (snd (note_permission e st)) p = strengthen p e (map_of (snd st) p)"
  using assms
  by (auto simp: order_ok_def note_permission_def strengthen_def update_conv' max_def split: prod.splits option.splits)

lemma fold_note_effect:
  "order_ok st \<Longrightarrow> order_ok (fold note_permission es st) \<and>
     map_of (snd (fold note_permission es st)) p = fold (strengthen p) es (map_of (snd st) p)"
  by (induction es arbitrary: st) (simp_all add: note_permission_effect)

lemma take_effective_eq:
  "distinct ps \<Longrightarrow> set ps \<subseteq> dom (map_of eff) \<Longrightarrow>
     take_effective ps eff = map (\<lambda>p. \<lparr>entry_pattern = p, entry_permission = the (map_of eff p)\<rparr>) ps"
proof (induction ps arbitrary: eff)
  case (Cons p ps)
  have "map_of (AList.delete p eff) q = map_of eff q" if "q \<in> set ps" for q
    using that Cons.prems(1) by (auto simp: delete_conv')
  then have "take_effective ps (AList.delete p eff) = map (\<lambda>q. \<lparr>entry_pattern = q, entry_permission = the (map_of eff q)\<rparr>) ps"
    using Cons by (subst Cons.IH) (auto simp: dom_def)
  then show ?case using Cons.prems by auto
qed simp

text \<open>The effective entries hold each pattern once, with the strongest of its permissions.\<close>

lemma effective_entries_iff:
  "\<lparr>entry_pattern = p, entry_permission = m\<rparr> \<in> set (effective_entries es) \<longleftrightarrow> fold (strengthen p) es None = Some m"
proof -
  obtain order eff where f: "fold note_permission es ([], []) = (order, eff)" by fastforce
  have "order_ok ([], [])" by (simp add: order_ok_def)
  from fold_note_effect[OF this, of es] f have "order_ok (order, eff)" "map_of eff q = fold (strengthen q) es None" for q
    by simp_all
  moreover from this(1) have "effective_entries es = map (\<lambda>p. \<lparr>entry_pattern = p, entry_permission = the (map_of eff p)\<rparr>) order"
    by (simp add: effective_entries_def f order_ok_def take_effective_eq)
  ultimately show ?thesis by (auto simp: order_ok_def)
qed

definition permissions_of :: "rust_str \<Rightarrow> network_domain_permissions \<Rightarrow> network_domain_permission list" where
  "permissions_of p es = map entry_permission (filter (\<lambda>e. entry_pattern e = p) es)"

lemma fold_strengthen_Some: "fold (strengthen p) es (Some q) = Some (fold max (permissions_of p es) q)"
  by (induction es arbitrary: q) (simp_all add: strengthen_def permissions_of_def max.commute)

lemma fold_strengthen:
  "fold (strengthen p) es None = (case permissions_of p es of [] \<Rightarrow> None | m # ms \<Rightarrow> Some (Max (set (m # ms))))"
proof (induction es)
  case (Cons e es)
  show ?case
  proof (cases "entry_pattern e = p")
    case True
    then have "fold (strengthen p) (e # es) None = Some (fold max (permissions_of p es) (entry_permission e))"
      by (simp add: strengthen_def fold_strengthen_Some)
    then show ?thesis using True by (simp add: permissions_of_def flip: Max.set_eq_fold)
  qed (use Cons in \<open>simp add: strengthen_def permissions_of_def\<close>)
qed (simp add: permissions_of_def)

lemma permission_order [simp]: "PermNone \<le> m" "m \<le> PermDeny" "PermAllow \<le> m \<longleftrightarrow> m \<noteq> PermNone"
  by (cases m; simp add: less_eq_network_domain_permission_def)+

lemma Max_permission_Deny: "finite M \<Longrightarrow> M \<noteq> {} \<Longrightarrow> Max M = PermDeny \<longleftrightarrow> PermDeny \<in> M"
  by (metis Max_eqI Max_in permission_order(2))

lemma Max_permission_Allow: "finite M \<Longrightarrow> M \<noteq> {} \<Longrightarrow> Max M = PermAllow \<longleftrightarrow> PermAllow \<in> M \<and> PermDeny \<notin> M"
  by (metis Max_eqI Max_in Max_ge network_domain_permission.distinct(5) network_domain_permission.exhaust order_antisym permission_order)

definition entries_of :: "network_proxy_config \<Rightarrow> network_domain_permissions" where
  "entries_of cfg = unwrap_or_default (domains cfg)"

lemma set_domain_list:
  "set (unwrap_or_default (domain_entries permission cfg)) =
     {p. \<lparr>entry_pattern = p, entry_permission = permission\<rparr> \<in> set (effective_entries (entries_of cfg))}"
proof (cases "domains cfg")
  case None
  then show ?thesis by (simp add: domain_entries_def entries_of_def effective_entries_def)
next
  case (Some ds)
  have "p \<in> entry_pattern ` {e \<in> set (effective_entries ds). entry_permission e = permission} \<longleftrightarrow>
      \<lparr>entry_pattern = p, entry_permission = permission\<rparr> \<in> set (effective_entries ds)" for p
  proof
    assume "p \<in> entry_pattern ` {e \<in> set (effective_entries ds). entry_permission e = permission}"
    then obtain e where e: "e \<in> set (effective_entries ds)" "entry_permission e = permission" "p = entry_pattern e" by auto
    have "\<lparr>entry_pattern = p, entry_permission = permission\<rparr> = e" using e(2,3) by (cases e) simp
    with e(1) show "\<lparr>entry_pattern = p, entry_permission = permission\<rparr> \<in> set (effective_entries ds)" by (simp only:)
  qed (auto intro: rev_image_eqI)
  moreover have "set (unwrap_or_default (domain_entries permission cfg)) =
      entry_pattern ` {e \<in> set (effective_entries ds). entry_permission e = permission}"
    by (auto simp: domain_entries_def Some filter_empty_conv)
  ultimately show ?thesis by (simp only: entries_of_def Some option.case set_eq_iff mem_Collect_eq simp_thms)
qed

text \<open>A pattern is denied as soon as one of its entries denies it, and allowed when one allows and none denies it.\<close>

lemma denied_domains_iff:
  "p \<in> set (unwrap_or_default (denied_domains cfg)) \<longleftrightarrow> PermDeny \<in> set (permissions_of p (entries_of cfg))"
  unfolding denied_domains_def set_domain_list mem_Collect_eq effective_entries_iff fold_strengthen
  by (cases "permissions_of p (entries_of cfg)") (simp_all only: list.case option.inject list.set Max_permission_Deny finite_set finite.intros insert_not_empty simp_thms, simp_all)

lemma allowed_domains_iff:
  "p \<in> set (unwrap_or_default (allowed_domains cfg)) \<longleftrightarrow>
     PermAllow \<in> set (permissions_of p (entries_of cfg)) \<and> PermDeny \<notin> set (permissions_of p (entries_of cfg))"
  unfolding allowed_domains_def set_domain_list mem_Collect_eq effective_entries_iff fold_strengthen
  by (cases "permissions_of p (entries_of cfg)") (simp_all only: list.case option.inject list.set Max_permission_Allow finite_set finite.intros insert_not_empty simp_thms, simp_all)

subsection \<open>Listening addresses\<close>

lemma localhost_loopback: "is_loopback localhost_v4"
  by (simp add: v4_is_loopback_def octet_div ipv4_of_def)

lemma clamp_ports: "snd (fst (clamp_bind_addrs http socks cfg)) = snd http" "snd (snd (clamp_bind_addrs http socks cfg)) = snd socks"
  by (simp_all add: clamp_bind_addrs_def clamp_non_loopback_def Let_def)

lemma clamp_local:
  assumes "\<not> dangerously_allow_non_loopback_proxy cfg \<or> allow_unix_sockets cfg \<noteq> [] \<or> dangerously_allow_all_unix_sockets cfg"
  shows "is_loopback (fst (fst (clamp_bind_addrs http socks cfg))) \<and> is_loopback (fst (snd (clamp_bind_addrs http socks cfg)))"
  using assms localhost_loopback
  by (cases "allow_unix_sockets cfg = [] \<and> \<not> dangerously_allow_all_unix_sockets cfg")
     (simp_all add: clamp_bind_addrs_def clamp_non_loopback_def Let_def del: is_loopback.simps)

text \<open>
  The proxy never listens beyond the local machine unless the settings ask for it, and not even then
  once unix sockets are proxied: whatever the configured URLs resolve to, both listeners are bound to a loopback
  address when the dangerous setting is off or any unix socket is allowed. The configured ports are kept.
\<close>

theorem listeners_stay_local:
  assumes "resolve_runtime L home cwd cfg = Ok rt"
    and "\<not> dangerously_allow_non_loopback_proxy cfg \<or> allow_unix_sockets cfg \<noteq> [] \<or> dangerously_allow_all_unix_sockets cfg"
  shows "is_loopback (fst (http_addr rt)) \<and> is_loopback (fst (socks_addr rt)) \<and>
    (\<exists>http socks. resolve_addr L (proxy_url cfg) 3128 = Ok http \<and> snd (http_addr rt) = snd http \<and>
      resolve_addr L (socks_url cfg) 8081 = Ok socks \<and> snd (socks_addr rt) = snd socks)"
proof -
  obtain http socks where a: "resolve_addr L (proxy_url cfg) 3128 = Ok http" "resolve_addr L (socks_url cfg) 8081 = Ok socks"
    "(case clamp_bind_addrs http socks cfg of (h, s) \<Rightarrow> Ok \<lparr>http_addr = h, socks_addr = s\<rparr>) = (Ok rt :: (net_error, _) result)"
    using assms(1) unfolding resolve_runtime_def bind_result_eq_Inr by blast
  then have "http_addr rt = fst (clamp_bind_addrs http socks cfg)" "socks_addr rt = snd (clamp_bind_addrs http socks cfg)"
    by (auto split: prod.splits)
  with a(1,2) clamp_local[OF assms(2), of http socks] clamp_ports[of http socks cfg] show ?thesis by simp
qed

end
