(* ===== verification/Mitm_Hook.thy ===== *)
theory Mitm_Hook
  imports Network_Config
begin

text \<open>
  The hooks a request to an intercepted host has to match (\<open>network-proxy/src/mitm_hook.rs\<close> and
  \<open>authorization_path.rs\<close>): validation and compilation of the configured hooks, and the evaluation of a
  request. The crates \<open>http\<close> (header names and values) and \<open>form_urlencoded\<close>, the process environment and
  the secret files are further functions of the library record; a request is what the hooks read of it.
\<close>

record ('g, 'gs) hook_libs = "('g, 'gs) proxy_libs" +
  header_name_from :: "rust_str \<Rightarrow> rust_str option"   \<comment> \<open>\<open>HeaderName::from_bytes\<close>\<close>
  header_value_from :: "rust_str \<Rightarrow> rust_str option"  \<comment> \<open>\<open>HeaderValue::from_str\<close>\<close>
  form_parse :: "rust_str \<Rightarrow> (rust_str \<times> rust_str) list"
  env_var :: "rust_str \<Rightarrow> rust_str option"
  read_to_string :: "path \<Rightarrow> rust_str option"
  home_dir :: "rust_str option"
  cwd_dir :: "rust_str option"

section \<open>Paths that are safe to authorise\<close>

fun decode_hex_digit :: "char \<Rightarrow> nat option" where
  "decode_hex_digit c =
     (let b = byte_of c
      in if 48 \<le> b \<and> b \<le> 57 then Some (b - 48)
         else if 97 \<le> b \<and> b \<le> 102 then Some (b - 97 + 10)
         else if 65 \<le> b \<and> b \<le> 70 then Some (b - 65 + 10) else None)"

text \<open>The loop over the bytes of a segment: \<open>None\<close> is the early \<open>return false\<close>.\<close>

fun scan_segment :: "rust_str \<Rightarrow> nat \<times> bool \<Rightarrow> (nat \<times> bool) option" where
  "scan_segment [] st = Some st"
| "scan_segment (c # cs) (decoded_dots, has_non_dot) =
     (if c = CHR ''.'' then scan_segment cs (decoded_dots + 1, has_non_dot)
      else if c = CHR 0x5C then None
      else if c = CHR ''%'' then
        (case cs of
           a # b # rest \<Rightarrow>
             (case (decode_hex_digit a, decode_hex_digit b) of
                (Some high, Some low) \<Rightarrow>
                  let decoded = high * 16 + low
                  in if decoded = 37 \<or> decoded = 47 \<or> decoded = 92 then None
                     else if decoded = 46 then scan_segment rest (decoded_dots + 1, has_non_dot)
                     else scan_segment rest (decoded_dots, True)
              | _ \<Rightarrow> None)
         | _ \<Rightarrow> None)
      else scan_segment cs (decoded_dots, True))"

definition is_safe_segment_for_authorization :: "rust_str \<Rightarrow> bool" where
  "is_safe_segment_for_authorization segment =
     (case scan_segment segment (0, False) of
        None \<Rightarrow> False
      | Some (decoded_dots, has_non_dot) \<Rightarrow> has_non_dot \<or> \<not> (decoded_dots = 1 \<or> decoded_dots = 2))"

definition is_safe_for_authorization :: "rust_str \<Rightarrow> bool" where
  "is_safe_for_authorization p \<longleftrightarrow> list_all is_safe_segment_for_authorization (split_on CHR ''/'' p)"

section \<open>Compiled hooks\<close>

datatype 'g path_matcher = PathPrefix rust_str | PathGlob rust_str 'g
datatype 'g value_matcher = ValueExact rust_str | ValueGlob rust_str 'g
datatype matcher_pattern = LiteralPattern rust_str | GlobPattern rust_str

datatype secret_source = SecretEnvVar rust_str | SecretFile path

record resolved_injected_header =
  res_name :: rust_str
  res_value :: rust_str
  res_source :: secret_source

record mitm_hook_actions =
  strip_request_headers :: "rust_str list"
  inject_request_headers :: "resolved_injected_header list"

record 'g mitm_hook_matcher =
  hook_methods :: "rust_str list"
  hook_path_prefixes :: "'g path_matcher list"
  hook_query :: "(rust_str \<times> 'g value_matcher list) list"
  hook_headers :: "(rust_str \<times> 'g value_matcher list) list"

record 'g mitm_hook =
  hook_host :: rust_str
  hook_matcher :: "'g mitm_hook_matcher"
  hook_actions :: mitm_hook_actions

type_synonym 'g mitm_hooks_by_host = "(rust_str \<times> 'g mitm_hook list) list"

datatype hook_evaluation = NoHooksForHost | Matched mitm_hook_actions | HookedHostNoMatch

text \<open>\<open>collect::<Result<Vec<_>>>\<close>: the first error, or all values.\<close>

fun collect_results :: "('a \<Rightarrow> 'b option) \<Rightarrow> 'a list \<Rightarrow> 'b list option" where
  "collect_results f [] = Some []"
| "collect_results f (x # xs) =
     (case f x of None \<Rightarrow> None | Some y \<Rightarrow> map_option ((#) y) (collect_results f xs))"

definition parse_matcher_pattern :: "rust_str \<Rightarrow> matcher_pattern option" where
  "parse_matcher_pattern p =
     (case strip_prefix ''literal:'' p of
        Some literal \<Rightarrow> Some (LiteralPattern literal)
      | None \<Rightarrow>
          (case strip_prefix ''pattern:'' p of
             None \<Rightarrow> Some (LiteralPattern p)
           | Some glob_pattern \<Rightarrow> if glob_pattern = [] then None else Some (GlobPattern glob_pattern)))"

definition compile_glob_matcher :: "('g, 'gs, 'z) proxy_libs_scheme \<Rightarrow> rust_str \<Rightarrow> bool \<Rightarrow> 'g option" where
  "compile_glob_matcher L p literal_separator = glob_build L False literal_separator p"

definition compile_path_matcher :: "('g, 'gs, 'z) proxy_libs_scheme \<Rightarrow> rust_str \<Rightarrow> 'g path_matcher option" where
  "compile_path_matcher L p =
     (case parse_matcher_pattern p of
        None \<Rightarrow> None
      | Some (LiteralPattern q) \<Rightarrow> if q = [] then None else Some (PathPrefix q)
      | Some (GlobPattern q) \<Rightarrow> map_option (PathGlob q) (compile_glob_matcher L q True))"

definition compile_path_matchers :: "('g, 'gs, 'z) proxy_libs_scheme \<Rightarrow> rust_str list \<Rightarrow> 'g path_matcher list option" where
  "compile_path_matchers L ps = collect_results (compile_path_matcher L) ps"

definition compile_value_matcher :: "('g, 'gs, 'z) proxy_libs_scheme \<Rightarrow> rust_str \<Rightarrow> 'g value_matcher option" where
  "compile_value_matcher L v =
     (case parse_matcher_pattern v of
        None \<Rightarrow> None
      | Some (LiteralPattern q) \<Rightarrow> Some (ValueExact q)
      | Some (GlobPattern q) \<Rightarrow> map_option (ValueGlob q) (compile_glob_matcher L q False))"

definition compile_value_matchers :: "('g, 'gs, 'z) proxy_libs_scheme \<Rightarrow> rust_str list \<Rightarrow> 'g value_matcher list option" where
  "compile_value_matchers L vs = collect_results (compile_value_matcher L) vs"

definition normalize_hook_host :: "rust_str \<Rightarrow> rust_str option" where
  "normalize_hook_host h =
     (let normalized = normalize_host h
      in if normalized = [] \<or> CHR ''*'' \<in> set normalized then None else Some normalized)"

definition ascii_upper :: "char \<Rightarrow> char" where
  "ascii_upper c = (if 97 \<le> byte_of c \<and> byte_of c \<le> 122 then char_of (byte_of c - 32) else c)"

definition normalize_methods :: "rust_str list \<Rightarrow> rust_str list option" where
  "normalize_methods ms =
     collect_results (\<lambda>m. let normalized = map ascii_upper (trim m) in if normalized = [] then None else Some normalized) ms"

definition normalize_query_name :: "rust_str \<Rightarrow> rust_str option" where
  "normalize_query_name n = (if n = [] then None else Some n)"

definition parse_secret_file :: "('g, 'gs, 'z) hook_libs_scheme \<Rightarrow> rust_str \<Rightarrow> path option" where
  "parse_secret_file L p =
     (if trim p = [] \<or> \<not> is_absolute (path_components p) then None
      else from_absolute_path (home_dir L) (cwd_dir L) p)"

section \<open>Validation\<close>

definition validate_query_constraints :: "('g, 'gs, 'z) hook_libs_scheme \<Rightarrow> (rust_str \<times> rust_str list) list \<Rightarrow> bool" where
  "validate_query_constraints L query \<longleftrightarrow>
     list_all (\<lambda>(name, vs). normalize_query_name name \<noteq> None \<and> vs \<noteq> [] \<and> compile_value_matchers L vs \<noteq> None) query"

definition validate_header_constraints :: "('g, 'gs, 'z) hook_libs_scheme \<Rightarrow> (rust_str \<times> rust_str list) list \<Rightarrow> bool" where
  "validate_header_constraints L headers \<longleftrightarrow>
     list_all (\<lambda>(name, vs). header_name_from L name \<noteq> None \<and> compile_value_matchers L vs \<noteq> None) headers"

definition validate_strip_request_headers :: "('g, 'gs, 'z) hook_libs_scheme \<Rightarrow> rust_str list \<Rightarrow> bool" where
  "validate_strip_request_headers L names \<longleftrightarrow> list_all (\<lambda>name. header_name_from L name \<noteq> None) names"

definition validate_injected_headers :: "('g, 'gs, 'z) hook_libs_scheme \<Rightarrow> injected_header_config list \<Rightarrow> bool" where
  "validate_injected_headers L headers \<longleftrightarrow>
     list_all (\<lambda>header. header_name_from L (inj_name header) \<noteq> None \<and>
       (case (secret_env_var header, secret_file header) of
          (Some v, None) \<Rightarrow> trim v \<noteq> []
        | (None, Some f) \<Rightarrow> parse_secret_file L f \<noteq> None
        | _ \<Rightarrow> False)) headers"

text \<open>The checks of one hook, in their order; the error names the field that failed.\<close>

definition validate_hook :: "('g, 'gs, 'z) hook_libs_scheme \<Rightarrow> nat \<Rightarrow> mitm_hook_config \<Rightarrow> (net_error, unit) result" where
  "validate_hook L i hook =
     (let m = cfg_matcher hook; a = cfg_actions hook
      in if normalize_hook_host (cfg_host hook) = None then Err (InvalidHook i ''host'')
         else if (case normalize_methods (cfg_methods m) of Some ms \<Rightarrow> ms = [] | None \<Rightarrow> True) then Err (InvalidHook i ''match.methods'')
         else if (case compile_path_matchers L (cfg_path_prefixes m) of Some ps \<Rightarrow> ps = [] | None \<Rightarrow> True)
         then Err (InvalidHook i ''match.path_prefixes'')
         else if cfg_body m \<noteq> None then Err (InvalidHook i ''match.body'')
         else if \<not> validate_query_constraints L (cfg_query m) then Err (InvalidHook i ''match.query'')
         else if \<not> validate_header_constraints L (cfg_headers m) then Err (InvalidHook i ''match.headers'')
         else if \<not> validate_strip_request_headers L (cfg_strip_request_headers a) then Err (InvalidHook i ''actions.strip_request_headers'')
         else if \<not> validate_injected_headers L (cfg_inject_request_headers a) then Err (InvalidHook i ''actions.inject_request_headers'')
         else Ok ())"

fun validate_hooks :: "('g, 'gs, 'z) hook_libs_scheme \<Rightarrow> nat \<Rightarrow> mitm_hook_config list \<Rightarrow> (net_error, unit) result" where
  "validate_hooks L i [] = Ok ()"
| "validate_hooks L i (hook # hooks) = bind_result (validate_hook L i hook) (\<lambda>_. validate_hooks L (Suc i) hooks)"

definition validate_mitm_hook_config :: "('g, 'gs, 'z) hook_libs_scheme \<Rightarrow> network_proxy_config \<Rightarrow> (net_error, unit) result" where
  "validate_mitm_hook_config L cfg =
     (if mitm_hooks cfg = [] then Ok ()
      else if \<not> mitm cfg then Err HooksNeedMitm
      else validate_hooks L 0 (mitm_hooks cfg))"

section \<open>Compilation\<close>

definition or_error :: "net_error \<Rightarrow> 'a option \<Rightarrow> (net_error, 'a) result" where
  "or_error e x = (case x of Some a \<Rightarrow> Ok a | None \<Rightarrow> Err e)"

definition compile_injected_header :: "('g, 'gs, 'z) hook_libs_scheme \<Rightarrow> injected_header_config \<Rightarrow> (net_error, resolved_injected_header) result" where
  "compile_injected_header L header =
     bind_result (or_error (HookCompile ''header name'') (header_name_from L (inj_name header))) (\<lambda>name.
     bind_result
       (case (secret_env_var header, secret_file header) of
          (Some v, None) \<Rightarrow> map_sum id (\<lambda>secret. (secret, SecretEnvVar v)) (or_error (MissingEnvVar v) (env_var L v))
        | (None, Some f) \<Rightarrow>
            bind_result (or_error (HookCompile ''secret_file'') (parse_secret_file L f)) (\<lambda>p.
              map_sum id (\<lambda>contents. (trim contents, SecretFile p)) (or_error SecretFileUnreadable (read_to_string L p)))
        | _ \<Rightarrow> Err (HookCompile ''secret'')) (\<lambda>(secret, source).
     bind_result
       (or_error (InvalidHeaderValue (inj_name header))
          (header_value_from L ((case inj_prefix header of Some p \<Rightarrow> p | None \<Rightarrow> []) @ secret))) (\<lambda>v.
       Ok \<lparr>res_name = name, res_value = v, res_source = source\<rparr>)))"

fun compile_injected_headers :: "('g, 'gs, 'z) hook_libs_scheme \<Rightarrow> injected_header_config list \<Rightarrow>
    (net_error, resolved_injected_header list) result" where
  "compile_injected_headers L [] = Ok []"
| "compile_injected_headers L (h # hs) =
     bind_result (compile_injected_header L h) (\<lambda>r. map_sum id ((#) r) (compile_injected_headers L hs))"

definition compile_constraint :: "(rust_str \<Rightarrow> rust_str option) \<Rightarrow> ('g, 'gs, 'z) hook_libs_scheme \<Rightarrow>
    rust_str \<times> rust_str list \<Rightarrow> (rust_str \<times> 'g value_matcher list) option" where
  "compile_constraint name_from L c =
     (case (name_from (fst c), compile_value_matchers L (snd c)) of
        (Some name, Some vs) \<Rightarrow> Some (name, vs)
      | _ \<Rightarrow> None)"

definition compile_hook :: "('g, 'gs, 'z) hook_libs_scheme \<Rightarrow> mitm_hook_config \<Rightarrow> (net_error, 'g mitm_hook) result" where
  "compile_hook L hook =
     (let m = cfg_matcher hook; a = cfg_actions hook
      in bind_result (or_error (HookCompile ''host'') (normalize_hook_host (cfg_host hook))) (\<lambda>h.
         bind_result (or_error (HookCompile ''methods'') (normalize_methods (cfg_methods m))) (\<lambda>methods.
         bind_result (or_error (HookCompile ''path_prefixes'') (compile_path_matchers L (cfg_path_prefixes m))) (\<lambda>paths.
         bind_result (or_error (HookCompile ''query'') (collect_results (compile_constraint normalize_query_name L) (cfg_query m))) (\<lambda>query.
         bind_result (or_error (HookCompile ''headers'') (collect_results (compile_constraint (header_name_from L) L) (cfg_headers m))) (\<lambda>headers.
         bind_result (or_error (HookCompile ''strip_request_headers'')
             (collect_results (header_name_from L) (cfg_strip_request_headers a))) (\<lambda>strip.
         bind_result (compile_injected_headers L (cfg_inject_request_headers a)) (\<lambda>inject.
           Ok \<lparr>hook_host = h,
               hook_matcher = \<lparr>hook_methods = methods, hook_path_prefixes = paths, hook_query = query, hook_headers = headers\<rparr>,
               hook_actions = \<lparr>strip_request_headers = strip, inject_request_headers = inject\<rparr>\<rparr>))))))))"

fun compile_hooks :: "('g, 'gs, 'z) hook_libs_scheme \<Rightarrow> mitm_hook_config list \<Rightarrow> 'g mitm_hooks_by_host \<Rightarrow>
    (net_error, 'g mitm_hooks_by_host) result" where
  "compile_hooks L [] by_host = Ok by_host"
| "compile_hooks L (hook # hooks) by_host =
     bind_result (compile_hook L hook) (\<lambda>h.
       compile_hooks L hooks
         (btree_insert (hook_host h) ((case map_of by_host (hook_host h) of Some hs \<Rightarrow> hs | None \<Rightarrow> []) @ [h]) by_host))"

definition compile_mitm_hooks :: "('g, 'gs, 'z) hook_libs_scheme \<Rightarrow> network_proxy_config \<Rightarrow> (net_error, 'g mitm_hooks_by_host) result" where
  "compile_mitm_hooks L cfg = bind_result (validate_mitm_hook_config L cfg) (\<lambda>_. compile_hooks L (mitm_hooks cfg) [])"

section \<open>Evaluation\<close>

text \<open>A header value is \<open>None\<close> when it is not text (\<open>HeaderValue::to_str\<close>).\<close>

record http_request =
  req_method :: rust_str
  req_path :: rust_str
  req_query :: "rust_str option"
  req_headers :: "(rust_str \<times> rust_str option) list"

fun path_matcher_matches :: "('g, 'gs, 'z) proxy_libs_scheme \<Rightarrow> 'g path_matcher \<Rightarrow> rust_str \<Rightarrow> bool" where
  "path_matcher_matches L (PathPrefix p) candidate = prefix p candidate"
| "path_matcher_matches L (PathGlob _ glob) candidate = glob_is_match L glob candidate"

fun value_matcher_matches :: "('g, 'gs, 'z) proxy_libs_scheme \<Rightarrow> 'g value_matcher \<Rightarrow> rust_str \<Rightarrow> bool" where
  "value_matcher_matches L (ValueExact v) candidate = (v = candidate)"
| "value_matcher_matches L (ValueGlob _ glob) candidate = glob_is_match L glob candidate"

definition path_matches :: "('g, 'gs, 'z) proxy_libs_scheme \<Rightarrow> 'g path_matcher list \<Rightarrow> rust_str \<Rightarrow> bool" where
  "path_matches L ps p \<longleftrightarrow> list_ex (\<lambda>m. path_matcher_matches L m p) ps"

text \<open>Grouping the query by name and looking a name up is filtering the parsed pairs.\<close>

definition query_matches :: "('g, 'gs, 'z) hook_libs_scheme \<Rightarrow> (rust_str \<times> 'g value_matcher list) list \<Rightarrow> http_request \<Rightarrow> bool" where
  "query_matches L constraints req \<longleftrightarrow>
     constraints = [] \<or>
     (let actual = form_parse L (case req_query req of Some q \<Rightarrow> q | None \<Rightarrow> [])
      in list_all (\<lambda>(name, allowed). list_ex (\<lambda>(n, v). n = name \<and> list_ex (\<lambda>m. value_matcher_matches L m v) allowed) actual) constraints)"

definition headers_match :: "('g, 'gs, 'z) hook_libs_scheme \<Rightarrow> (rust_str \<times> 'g value_matcher list) list \<Rightarrow> http_request \<Rightarrow> bool" where
  "headers_match L constraints req \<longleftrightarrow>
     list_all (\<lambda>(name, allowed).
       let actual = filter (\<lambda>(n, _). n = name) (req_headers req)
       in actual \<noteq> [] \<and> (allowed = [] \<or>
          list_ex (\<lambda>(_, v). case v of Some candidate \<Rightarrow> list_ex (\<lambda>m. value_matcher_matches L m candidate) allowed | None \<Rightarrow> False) actual))
       constraints"

definition hook_matches :: "('g, 'gs, 'z) hook_libs_scheme \<Rightarrow> 'g mitm_hook \<Rightarrow> http_request \<Rightarrow> bool" where
  "hook_matches L hook req \<longleftrightarrow>
     (let m = hook_matcher hook
      in map ascii_upper (req_method req) \<in> set (hook_methods m) \<and>
         is_safe_for_authorization (req_path req) \<and> path_matches L (hook_path_prefixes m) (req_path req) \<and>
         query_matches L (hook_query m) req \<and> headers_match L (hook_headers m) req)"

definition evaluate_mitm_hooks :: "('g, 'gs, 'z) hook_libs_scheme \<Rightarrow> 'g mitm_hooks_by_host \<Rightarrow> rust_str \<Rightarrow> http_request \<Rightarrow> hook_evaluation" where
  "evaluate_mitm_hooks L by_host h req =
     (case map_of by_host (normalize_host h) of
        None \<Rightarrow> NoHooksForHost
      | Some hooks \<Rightarrow>
          (case List.find (\<lambda>hook. hook_matches L hook req) hooks of
             Some hook \<Rightarrow> Matched (hook_actions hook)
           | None \<Rightarrow> HookedHostNoMatch))"

section \<open>Safe paths\<close>

text \<open>Percent-decoding as an upstream server may do it.\<close>

fun percent_decode :: "rust_str \<Rightarrow> rust_str" where
  "percent_decode [] = []"
| "percent_decode (c # cs) =
     (if c = CHR ''%'' then
        (case cs of
           a # b # rest \<Rightarrow>
             (case (decode_hex_digit a, decode_hex_digit b) of
                (Some high, Some low) \<Rightarrow> char_of (high * 16 + low) # percent_decode rest
              | _ \<Rightarrow> c # percent_decode cs)
         | _ \<Rightarrow> c # percent_decode cs)
      else c # percent_decode cs)"

lemma decode_hex_digit_less: "decode_hex_digit c = Some d \<Longrightarrow> d < 16"
  by (auto simp: Let_def split: if_splits)

text \<open>What a decoded byte can be once the scan has accepted it.\<close>

lemma char_of_eq: "n < 256 \<Longrightarrow> char_of (n :: nat) = c \<longleftrightarrow> n = byte_of c"
  by (metis char_of_char of_char_of mod_less)

lemma scan_percent:
  assumes "scan_segment (CHR ''%'' # cs) (n, b) = Some st"
  obtains x y rest d where "cs = x # y # rest" "\<forall>t. percent_decode (CHR ''%'' # x # y # t) = d # percent_decode t"
    "d \<notin> {CHR ''%'', CHR ''/'', CHR 0x5C}"
    "scan_segment rest (if d = CHR ''.'' then (n + 1, b) else (n, True)) = Some st"
proof -
  from assms obtain x y rest h l where c: "cs = x # y # rest" "decode_hex_digit x = Some h" "decode_hex_digit y = Some l"
    by (auto simp del: decode_hex_digit.simps split: list.splits option.splits)
  have lt: "h * 16 + l < 256" using decode_hex_digit_less[OF c(2)] decode_hex_digit_less[OF c(3)] by simp
  have ne: "h * 16 + l \<noteq> 37" "h * 16 + l \<noteq> 47" "h * 16 + l \<noteq> 92"
    using assms c by (auto simp del: decode_hex_digit.simps simp: Let_def split: if_splits)
  show ?thesis
  proof (rule that[OF c(1), of "char_of (h * 16 + l)"])
    show "\<forall>t. percent_decode (CHR ''%'' # x # y # t) = char_of (h * 16 + l) # percent_decode t"
      using c by (simp del: decode_hex_digit.simps)
    show "char_of (h * 16 + l) \<notin> {CHR ''%'', CHR ''/'', CHR 0x5C}" using lt ne by (simp add: char_of_eq)
    show "scan_segment rest (if char_of (h * 16 + l) = CHR ''.'' then (n + 1, b) else (n, True)) = Some st"
      using assms c ne lt by (simp del: decode_hex_digit.simps add: Let_def char_of_eq split: if_splits)
  qed
qed

lemma scan_segment_decodes:
  assumes "scan_segment s (n, b) = Some (n', b')" "CHR ''/'' \<notin> set s"
  shows "set (percent_decode s) \<inter> {CHR ''%'', CHR ''/'', CHR 0x5C} = {} \<and>
    (b' \<longleftrightarrow> b \<or> (\<exists>c \<in> set (percent_decode s). c \<noteq> CHR ''.'')) \<and>
    (\<not> b' \<longrightarrow> n' = n + length (percent_decode s))"
  using assms
proof (induction "length s" arbitrary: s n b rule: less_induct)
  case less
  show ?case
  proof (cases s)
    case (Cons c cs)
    consider "c = CHR ''%''" | "c = CHR ''.''" | "c \<notin> {CHR ''%'', CHR ''.'', CHR 0x5C}"
      using less.prems(1) Cons by (cases "c = CHR 0x5C") auto
    then show ?thesis
    proof cases
      case 1
      from less.prems(1) obtain x y rest d where d: "cs = x # y # rest" "\<forall>t. percent_decode (CHR ''%'' # x # y # t) = d # percent_decode t"
        "d \<notin> {CHR ''%'', CHR ''/'', CHR 0x5C}"
        "scan_segment rest (if d = CHR ''.'' then (n + 1, b) else (n, True)) = Some (n', b')"
        unfolding Cons 1 by (rule scan_percent)
      have "length rest < length s" "CHR ''/'' \<notin> set rest" using d(1) Cons less.prems(2) by auto
      with less.hyps[of rest "n + 1" b] less.hyps[of rest n True] d(2)[rule_format, of rest] d(3,4) show ?thesis
        by (cases "d = CHR ''.''") (simp_all only: Cons 1 d(1), auto simp del: percent_decode.simps)
    next
      case 2
      with less.hyps[of cs "n + 1" b] less.prems Cons show ?thesis by auto
    next
      case 3
      with less.hyps[of cs n True] less.prems Cons show ?thesis by auto
    qed
  qed (use less.prems in auto)
qed

lemma percent_decode_append:
  "scan_segment s (n, b) = Some st \<Longrightarrow> percent_decode (s @ t) = percent_decode s @ percent_decode t"
proof (induction "length s" arbitrary: s n b rule: less_induct)
  case less
  show ?case
  proof (cases s)
    case (Cons c cs)
    show ?thesis
    proof (cases "c = CHR ''%''")
      case True
      from less.prems obtain x y rest d where d: "cs = x # y # rest" "\<forall>t. percent_decode (CHR ''%'' # x # y # t) = d # percent_decode t"
        "d \<notin> {CHR ''%'', CHR ''/'', CHR 0x5C}"
        "scan_segment rest (if d = CHR ''.'' then (n + 1, b) else (n, True)) = Some st"
        unfolding Cons True by (rule scan_percent)
      then have "percent_decode (rest @ t) = percent_decode rest @ percent_decode t"
        using less.hyps[of rest "n + 1" b] less.hyps[of rest n True] Cons by (cases "d = CHR ''.''") auto
      with d(2)[rule_format, of rest] d(2)[rule_format, of "rest @ t"] show ?thesis by (simp add: Cons True d(1) del: percent_decode.simps)
    next
      case False
      then show ?thesis
        using less.prems Cons less.hyps[of cs "n + 1" b] less.hyps[of cs n True] by (cases "c = CHR ''.''") (auto split: if_splits)
    qed
  qed simp
qed

lemma percent_decode_plain: "CHR ''%'' \<notin> set s \<Longrightarrow> percent_decode s = s"
  by (induction s) auto

lemma safe_segment:
  assumes "is_safe_segment_for_authorization s" "CHR ''/'' \<notin> set s"
  shows "set (percent_decode s) \<inter> {CHR ''%'', CHR ''/'', CHR 0x5C} = {}" "percent_decode s \<notin> {''.'', ''..''}"
    "percent_decode (s @ t) = percent_decode s @ percent_decode t"
proof -
  obtain n b where nb: "scan_segment s (0, False) = Some (n, b)" "b \<or> \<not> (n = 1 \<or> n = 2)"
    using assms(1) by (auto simp: is_safe_segment_for_authorization_def split: option.splits)
  note d = scan_segment_decodes[OF nb(1) assms(2)]
  then show "set (percent_decode s) \<inter> {CHR ''%'', CHR ''/'', CHR 0x5C} = {}" by blast
  show "percent_decode s \<notin> {''.'', ''..''}"
  proof
    assume dots: "percent_decode s \<in> {''.'', ''..''}"
    then have "\<not> b" using d by fastforce
    moreover from this have "n = length (percent_decode s)" using d by simp
    ultimately show False using nb(2) dots by auto
  qed
  show "percent_decode (s @ t) = percent_decode s @ percent_decode t" using nb(1) by (rule percent_decode_append)
qed

lemma percent_decode_join:
  "\<forall>s \<in> set ss. is_safe_segment_for_authorization s \<and> CHR ''/'' \<notin> set s \<Longrightarrow>
     percent_decode (join_with ''/'' ss) = join_with ''/'' (map percent_decode ss)"
proof (induction "''/''" ss rule: join_with.induct)
  case (3 x y ys)
  then have "percent_decode (x @ ''/'' @ join_with ''/'' (y # ys)) = percent_decode x @ percent_decode (''/'' @ join_with ''/'' (y # ys))"
    by (intro safe_segment(3)) auto
  with 3 show ?case by simp
qed simp_all

text \<open>
  C23. A path that a hook may authorise means one thing: percent-decoding it, once or repeatedly, neither adds
  nor removes a path segment, and no decoded segment is a dot segment or holds a backslash. So an
  upstream server that decodes the path before resolving it reaches the resource the hook matched.
\<close>

theorem safe_path_is_unambiguous:
  assumes "is_safe_for_authorization p"
  shows "split_on CHR ''/'' (percent_decode p) = map percent_decode (split_on CHR ''/'' p) \<and>
    percent_decode (percent_decode p) = percent_decode p \<and>
    (\<forall>segment \<in> set (split_on CHR ''/'' (percent_decode p)). segment \<notin> {''.'', ''..''} \<and> CHR 0x5C \<notin> set segment)"
proof -
  let ?ss = "split_on CHR ''/'' p"
  have ss: "\<forall>s \<in> set ?ss. is_safe_segment_for_authorization s \<and> CHR ''/'' \<notin> set s"
    using assms split_on_no_sep by (auto simp: is_safe_for_authorization_def list_all_iff)
  have decoded: "percent_decode p = join_with ''/'' (map percent_decode ?ss)"
    using percent_decode_join[OF ss] by simp
  have clean: "set (percent_decode s) \<inter> {CHR ''%'', CHR ''/'', CHR 0x5C} = {}" "percent_decode s \<notin> {''.'', ''..''}"
    if "s \<in> set ?ss" for s using safe_segment(1,2) ss that by blast+
  then have split: "split_on CHR ''/'' (percent_decode p) = map percent_decode ?ss"
    unfolding decoded by (intro split_on_join) auto
  have "CHR ''%'' \<notin> set (join_with ''/'' ds)" if "\<forall>d \<in> set ds. CHR ''%'' \<notin> set d" for ds
    using that by (induction "''/''" ds rule: join_with.induct) auto
  then have "CHR ''%'' \<notin> set (percent_decode p)" unfolding decoded using clean(1) by fastforce
  then have "percent_decode (percent_decode p) = percent_decode p" by (rule percent_decode_plain)
  with split clean show ?thesis by auto
qed

theorem safe_path_is_unambiguous_witness:
  "is_safe_for_authorization ''/repos/a%20b/...'' \<and> percent_decode ''/repos/a%20b/...'' = ''/repos/a b/...'' \<and>
   split_on CHR ''/'' ''/repos/a b/...'' = map percent_decode (split_on CHR ''/'' ''/repos/a%20b/...'')"
proof -
  have 1: "is_safe_for_authorization ''/repos/a%20b/...''" by code_simp
  have 2: "percent_decode ''/repos/a%20b/...'' = ''/repos/a b/...''" by code_simp
  from safe_path_is_unambiguous[OF 1] 1 2 show ?thesis by simp
qed

end
