(* ===== verification/Network_State.thy ===== *)
theory Network_State
  imports Mitm_Hook
begin

text \<open>
  The policy state of the network proxy and the managed constraints on it
  (\<open>network-proxy/src/state.rs\<close>). A constraint error keeps the name of the setting it is about; the rest of
  its message prints hash sets, whose order is not specified. \<open>MitmState::new\<close>, which reads or creates
  certificates, is the function \<open>mitm_state_new\<close> of the library record.
\<close>

record ('g, 'gs, 'm) state_libs = "('g, 'gs) hook_libs" +
  mitm_state_new :: "bool \<Rightarrow> 'm option"

record network_proxy_constraints =
  c_enabled :: "bool option"
  c_mode :: "network_mode option"
  c_allow_upstream_proxy :: "bool option"
  c_dangerously_allow_non_loopback_proxy :: "bool option"
  c_dangerously_allow_all_unix_sockets :: "bool option"
  c_allowed_domains :: "rust_str list option"
  c_allowlist_expansion_enabled :: "bool option"
  c_denied_domains :: "rust_str list option"
  c_denylist_expansion_enabled :: "bool option"
  c_allow_unix_sockets :: "rust_str list option"
  c_allow_local_binding :: "bool option"

definition no_constraints :: network_proxy_constraints where
  "no_constraints = \<lparr>c_enabled = None, c_mode = None, c_allow_upstream_proxy = None,
     c_dangerously_allow_non_loopback_proxy = None, c_dangerously_allow_all_unix_sockets = None,
     c_allowed_domains = None, c_allowlist_expansion_enabled = None, c_denied_domains = None,
     c_denylist_expansion_enabled = None, c_allow_unix_sockets = None, c_allow_local_binding = None\<rparr>"

record blocked_request =
  blk_host :: rust_str
  blk_reason :: rust_str
  blk_client :: "rust_str option"
  blk_method :: "rust_str option"
  blk_mode :: "network_mode option"
  blk_protocol :: rust_str
  blk_execution_id :: "rust_str option"
  blk_decision :: "rust_str option"
  blk_source :: "rust_str option"
  blk_port :: "nat option"
  blk_timestamp :: int

record ('g, 'gs, 'm) config_state =
  config :: network_proxy_config
  brokerage_created_default_allowlist :: bool
  allow_set :: 'gs
  deny_set :: 'gs
  mitm_state :: "'m option"
  hooks_by_host :: "'g mitm_hooks_by_host"
  constraints :: network_proxy_constraints
  blocked :: "blocked_request list"
  blocked_total :: nat

section \<open>Building the state\<close>

definition validate_non_global_wildcard_domain_patterns :: "rust_str \<Rightarrow> rust_str list \<Rightarrow> (net_error, unit) result" where
  "validate_non_global_wildcard_domain_patterns field_name patterns =
     (case List.find is_global_wildcard_domain_pattern patterns of
        Some _ \<Rightarrow> Err (InvalidValue field_name)
      | None \<Rightarrow> Ok ())"

text \<open>The settings after the credential broker has had its say: it may switch the proxy on, for every host.\<close>

definition brokered_config :: "network_proxy_config \<Rightarrow> network_proxy_constraints \<Rightarrow> network_proxy_config \<times> bool" where
  "brokered_config cfg cs =
     (let cfg = (if c_enabled cs = Some False then cfg\<lparr>credential_broker := False\<rparr> else cfg);
          created_proxy = (credential_broker cfg \<and> \<not> enabled cfg);
          created_allowlist = (created_proxy \<and> allowed_domains cfg = None \<and> c_allowed_domains cs = None);
          cfg = (if created_proxy then cfg\<lparr>enabled := True\<rparr> else cfg);
          cfg = (if created_allowlist then set_allowed_domains [''*''] cfg else cfg)
      in (cfg, created_allowlist))"

definition build_config_state :: "('g, 'gs, 'm, 'z) state_libs_scheme \<Rightarrow> network_proxy_config \<Rightarrow> network_proxy_constraints \<Rightarrow>
    (net_error, ('g, 'gs, 'm) config_state) result" where
  "build_config_state L cfg cs =
     (case brokered_config cfg cs of (cfg, created_allowlist) \<Rightarrow>
        bind_result (validate_unix_socket_allowlist_paths (home_dir L) (cwd_dir L) cfg) (\<lambda>_.
        if credential_broker cfg \<and> \<not> mitm cfg then Err BrokerNeedsMitm
        else let allowed = unwrap_or_default (allowed_domains cfg); denied = unwrap_or_default (denied_domains cfg) in
        bind_result (validate_non_global_wildcard_domain_patterns ''network.denied_domains'' denied) (\<lambda>_.
        bind_result (compile_denylist_globset L denied) (\<lambda>deny.
        bind_result (compile_allowlist_globset L allowed) (\<lambda>allow.
        bind_result (compile_mitm_hooks L cfg) (\<lambda>hooks.
        bind_result (if mitm cfg then map_sum id Some (or_error MitmStateFailed (mitm_state_new L (allow_upstream_proxy cfg))) else Ok None) (\<lambda>ms.
          Ok \<lparr>config = cfg, brokerage_created_default_allowlist = created_allowlist, allow_set = allow, deny_set = deny,
              mitm_state = ms, hooks_by_host = hooks, constraints = cs, blocked = [], blocked_total = 0\<rparr>)))))))"

section \<open>Managed constraints\<close>

fun network_mode_rank :: "network_mode \<Rightarrow> nat" where
  "network_mode_rank Limited = 0"
| "network_mode_rank Full = 1"

abbreviation ensure :: "rust_str \<Rightarrow> bool \<Rightarrow> (net_error, unit) result" where
  "ensure field_name ok \<equiv> (if ok then Ok () else Err (InvalidValue field_name))"

definition lowered :: "rust_str list \<Rightarrow> rust_str set" where
  "lowered entries = set (map to_ascii_lowercase entries)"

definition check_allowed_domains :: "('g, 'gs, 'z) proxy_libs_scheme \<Rightarrow> network_proxy_constraints \<Rightarrow>
    rust_str list \<Rightarrow> rust_str list \<Rightarrow> (net_error, unit) result" where
  "check_allowed_domains L cs candidate denied =
     (case c_allowed_domains cs of
        None \<Rightarrow> Ok ()
      | Some managed \<Rightarrow>
          bind_result (validate_non_global_wildcard_domain_patterns ''network.allowed_domains'' managed) (\<lambda>_.
            ensure ''network.allowed_domains''
              (case c_allowlist_expansion_enabled cs of
                 Some True \<Rightarrow> lowered managed \<subseteq> lowered candidate \<union> lowered denied
               | Some False \<Rightarrow> lowered candidate = lowered managed - lowered denied
               | None \<Rightarrow>
                   list_all (\<lambda>entry. list_ex (\<lambda>m. pattern_allows m (parse_for_constraints L entry))
                     (map (parse_for_constraints L) managed)) candidate)))"

definition check_denied_domains :: "network_proxy_constraints \<Rightarrow> rust_str list \<Rightarrow> (net_error, unit) result" where
  "check_denied_domains cs candidate =
     (case c_denied_domains cs of
        None \<Rightarrow> Ok ()
      | Some managed \<Rightarrow>
          bind_result (validate_non_global_wildcard_domain_patterns ''network.denied_domains'' managed) (\<lambda>_.
            ensure ''network.denied_domains''
              (if c_denylist_expansion_enabled cs = Some False then lowered candidate = lowered managed
               else lowered managed \<subseteq> lowered candidate)))"

definition check_unix_sockets :: "network_proxy_constraints \<Rightarrow> rust_str list \<Rightarrow> (net_error, unit) result" where
  "check_unix_sockets cs candidate =
     (case c_allow_unix_sockets cs of
        None \<Rightarrow> Ok ()
      | Some managed \<Rightarrow>
          ensure ''network.allow_unix_sockets'' (list_all (\<lambda>entry. to_ascii_lowercase entry \<in> lowered managed) candidate))"

text \<open>The checks in their order; the first that fails is the result.\<close>

definition policy_checks :: "('g, 'gs, 'z) hook_libs_scheme \<Rightarrow> network_proxy_config \<Rightarrow> network_proxy_constraints \<Rightarrow>
    (net_error, unit) result list" where
  "policy_checks L cfg cs =
     (let allowed = unwrap_or_default (allowed_domains cfg);
          denied = unwrap_or_default (denied_domains cfg);
          allow_all_unix_sockets =
            (case c_dangerously_allow_all_unix_sockets cs of Some b \<Rightarrow> b | None \<Rightarrow> c_allow_unix_sockets cs = None)
      in [(case validate_mitm_hook_config L cfg of Ok u \<Rightarrow> Ok u | Err _ \<Rightarrow> Err (InvalidValue ''network.mitm_hooks'')),
          validate_non_global_wildcard_domain_patterns ''network.denied_domains'' denied,
          ensure ''network.enabled'' (\<not> (enabled cfg \<and> c_enabled cs = Some False)),
          (case c_mode cs of
             Some max_mode \<Rightarrow> ensure ''network.mode'' (network_mode_rank (network_mode_of cfg) \<le> network_mode_rank max_mode)
           | None \<Rightarrow> Ok ()),
          ensure ''network.allow_upstream_proxy'' (\<not> (allow_upstream_proxy cfg \<and> c_allow_upstream_proxy cs = Some False)),
          ensure ''network.dangerously_allow_non_loopback_proxy''
            (\<not> (dangerously_allow_non_loopback_proxy cfg \<and> c_dangerously_allow_non_loopback_proxy cs = Some False)),
          ensure ''network.dangerously_allow_all_unix_sockets''
            (\<not> (dangerously_allow_all_unix_sockets cfg \<and> \<not> allow_all_unix_sockets)),
          ensure ''network.allow_local_binding'' (\<not> (allow_local_binding cfg \<and> c_allow_local_binding cs = Some False)),
          check_allowed_domains L cs allowed denied,
          check_denied_domains cs denied,
          check_unix_sockets cs (allow_unix_sockets cfg)])"

fun first_error :: "('e, unit) result list \<Rightarrow> ('e, unit) result" where
  "first_error [] = Ok ()"
| "first_error (r # rs) = bind_result r (\<lambda>_. first_error rs)"

definition validate_policy_against_constraints :: "('g, 'gs, 'z) hook_libs_scheme \<Rightarrow> network_proxy_config \<Rightarrow>
    network_proxy_constraints \<Rightarrow> (net_error, unit) result" where
  "validate_policy_against_constraints L cfg cs = first_error (policy_checks L cfg cs)"

section \<open>Lemmas\<close>

lemma first_error_Ok: "first_error rs = Ok () \<longleftrightarrow> (\<forall>r \<in> set rs. r = Ok ())"
  by (induction rs) (auto simp: bind_result_eq_Inr)

end
