(* ===== verification/Network_Runtime.thy ===== *)
theory Network_Runtime
  imports Network_State
begin

text \<open>
  The running network proxy (\<open>network-proxy/src/runtime.rs\<close>, the host policy of \<open>network_policy.rs\<close> and the
  connector of \<open>connect_policy.rs\<close>). The state behind the lock is a \<open>config_state\<close>; a handle on it carries the
  environment and execution it acts for. Each call receives what it gets from outside: the answer of the config
  reloader, the answer of the resolver, the decision of the decider. Where a call releases the lock between
  reading and writing, the model receives what other tasks did in between. Log lines, audit events, the
  observer call and the credential broker are not modelled.
\<close>

section \<open>Handles\<close>

record proxy_handle =
  environment_id :: "rust_str option"
  execution_id :: "rust_str option"

type_synonym attributions = "(rust_str \<times> (rust_str \<times> rust_str)) list"

definition register_execution :: "rust_str \<Rightarrow> rust_str \<Rightarrow> rust_str \<Rightarrow> attributions \<Rightarrow> attributions" where
  "register_execution token env exec m = AList.update token (env, exec) m"

definition unregister_execution :: "rust_str \<Rightarrow> attributions \<Rightarrow> attributions" where
  "unregister_execution token m = AList.delete token m"

definition for_execution_token :: "rust_str \<Rightarrow> attributions \<Rightarrow> proxy_handle option" where
  "for_execution_token token m =
     map_option (\<lambda>(env, exec). \<lparr>environment_id = Some env, execution_id = Some exec\<rparr>) (map_of m token)"

section \<open>Reloading\<close>

type_synonym ('g, 'gs, 'm) reload_answer = "(net_error, ('g, 'gs, 'm) config_state option) result"

definition reload_if_needed :: "('g, 'gs, 'm) reload_answer \<Rightarrow> ('g, 'gs, 'm) config_state \<Rightarrow>
    (net_error, ('g, 'gs, 'm) config_state) result" where
  "reload_if_needed answer st =
     (case answer of
        Err e \<Rightarrow> Err e
      | Ok None \<Rightarrow> Ok st
      | Ok (Some new_state) \<Rightarrow> Ok (new_state\<lparr>blocked := blocked st, blocked_total := blocked_total st\<rparr>))"

definition force_reload :: "(net_error, ('g, 'gs, 'm) config_state) result \<Rightarrow> ('g, 'gs, 'm) config_state \<Rightarrow>
    (net_error, unit) result \<times> ('g, 'gs, 'm) config_state" where
  "force_reload answer st =
     (case answer of
        Ok new_state \<Rightarrow> (Ok (), new_state\<lparr>blocked := blocked st\<rparr>)
      | Err e \<Rightarrow> (Err e, st))"

text \<open>A call that first reloads and then works on the state.\<close>

definition after_reload :: "('g, 'gs, 'm) reload_answer \<Rightarrow> ('g, 'gs, 'm) config_state \<Rightarrow>
    (('g, 'gs, 'm) config_state \<Rightarrow> (net_error, 'a) result \<times> ('g, 'gs, 'm) config_state) \<Rightarrow>
    (net_error, 'a) result \<times> ('g, 'gs, 'm) config_state" where
  "after_reload answer st f = (case reload_if_needed answer st of Err e \<Rightarrow> (Err e, st) | Ok st \<Rightarrow> f st)"

definition replace_config_state :: "('g, 'gs, 'm) reload_answer \<Rightarrow> ('g, 'gs, 'm) config_state \<Rightarrow> ('g, 'gs, 'm) config_state \<Rightarrow>
    (net_error, unit) result \<times> ('g, 'gs, 'm) config_state" where
  "replace_config_state answer new_state st =
     after_reload answer st (\<lambda>st. (Ok (), new_state\<lparr>blocked := blocked st, blocked_total := blocked_total st\<rparr>))"

section \<open>Hosts\<close>

datatype host_block_reason = Denied | NotAllowed | NotAllowedLocal

fun reason_str :: "host_block_reason \<Rightarrow> rust_str" where
  "reason_str Denied = ''denied''"
| "reason_str NotAllowed = ''not_allowed''"
| "reason_str NotAllowedLocal = ''not_allowed_local''"

datatype host_block_decision = Allowed | Blocked host_block_reason

text \<open>The answer of a DNS lookup with a time limit.\<close>

datatype lookup_answer = Addresses "ip_addr list" | LookupFailed | LookupTimedOut

definition host_resolves_to_non_public_ip :: "(rust_str \<Rightarrow> nat \<Rightarrow> lookup_answer) \<Rightarrow> rust_str \<Rightarrow> nat \<Rightarrow> bool" where
  "host_resolves_to_non_public_ip lookup h port =
     (case parse_ip h of
        Some ip \<Rightarrow> is_non_public_ip ip
      | None \<Rightarrow>
          (case lookup h port of
             Addresses addrs \<Rightarrow> list_ex is_non_public_ip addrs
           | LookupFailed \<Rightarrow> True
           | LookupTimedOut \<Rightarrow> True))"

definition globset_matches_host_or_unscoped :: "('g, 'gs, 'z) proxy_libs_scheme \<Rightarrow> 'gs \<Rightarrow> rust_str \<Rightarrow> bool" where
  "globset_matches_host_or_unscoped L s h \<longleftrightarrow>
     globset_is_match L s h \<or> (case unscoped_ip_literal h of Some ip \<Rightarrow> globset_is_match L s ip | None \<Rightarrow> False)"

definition is_explicit_local_allowlisted :: "rust_str list \<Rightarrow> rust_str \<Rightarrow> bool" where
  "is_explicit_local_allowlisted allowed normalized_host \<longleftrightarrow>
     list_ex (\<lambda>p. let p = trim p
       in if p = ''*'' \<or> prefix ''*.'' p \<or> prefix ''**.'' p then False
          else if CHR ''*'' \<in> set p \<or> CHR ''?'' \<in> set p then False
          else normalize_host p = normalized_host \<or>
               (case unscoped_ip_literal normalized_host of Some ip \<Rightarrow> normalize_host p = ip | None \<Rightarrow> False)) allowed"

definition local_literal :: "rust_str \<Rightarrow> bool" where
  "local_literal h =
     (let host_no_scope = (case unscoped_ip_literal h of Some ip \<Rightarrow> ip | None \<Rightarrow> h)
      in if is_loopback_host h then True
         else (case parse_ip host_no_scope of Some ip \<Rightarrow> is_non_public_ip ip | None \<Rightarrow> False))"

definition decide_host :: "('g, 'gs, 'z) proxy_libs_scheme \<Rightarrow> (rust_str \<Rightarrow> nat \<Rightarrow> lookup_answer) \<Rightarrow>
    ('g, 'gs, 'm) config_state \<Rightarrow> rust_str \<Rightarrow> nat \<Rightarrow> host_block_decision" where
  "decide_host L lookup st raw port =
     (case host_parse raw of
        Err _ \<Rightarrow> Blocked NotAllowed
      | Ok h \<Rightarrow>
          let allowed = allowed_domains (config st)
          in if globset_matches_host_or_unscoped L (deny_set st) h then Blocked Denied
             else let is_allowlisted = globset_matches_host_or_unscoped L (allow_set st) h
             in if \<not> allow_local_binding (config st) \<and>
                   (if local_literal h then \<not> is_explicit_local_allowlisted (unwrap_or_default allowed) h
                    else host_resolves_to_non_public_ip lookup h port)
                then Blocked NotAllowedLocal
                else if allowed = None \<or> \<not> is_allowlisted then Blocked NotAllowed else Allowed)"

definition host_blocked :: "('g, 'gs, 'z) proxy_libs_scheme \<Rightarrow> (rust_str \<Rightarrow> nat \<Rightarrow> lookup_answer) \<Rightarrow>
    ('g, 'gs, 'm) reload_answer \<Rightarrow> rust_str \<Rightarrow> nat \<Rightarrow> ('g, 'gs, 'm) config_state \<Rightarrow>
    (net_error, host_block_decision) result \<times> ('g, 'gs, 'm) config_state" where
  "host_blocked L lookup answer h port st = after_reload answer st (\<lambda>st. (Ok (decide_host L lookup st h port), st))"

section \<open>Blocked requests\<close>

definition MAX_BLOCKED_EVENTS :: nat where "MAX_BLOCKED_EVENTS = 200"

text \<open>\<open>while blocked.len() > MAX_BLOCKED_EVENTS { pop_front() }\<close>\<close>

fun trim_blocked :: "'a list \<Rightarrow> 'a list" where
  "trim_blocked [] = []"
| "trim_blocked (r # rs) = (if length (r # rs) > MAX_BLOCKED_EVENTS then trim_blocked rs else r # rs)"

definition push_blocked :: "blocked_request \<Rightarrow> ('g, 'gs, 'm) config_state \<Rightarrow> ('g, 'gs, 'm) config_state" where
  "push_blocked r st = st\<lparr>blocked := trim_blocked (blocked st @ [r]), blocked_total := sat_add (blocked_total st) 1\<rparr>"

definition record_blocked :: "proxy_handle \<Rightarrow> ('g, 'gs, 'm) reload_answer \<Rightarrow> blocked_request \<Rightarrow> ('g, 'gs, 'm) config_state \<Rightarrow>
    (net_error, unit) result \<times> ('g, 'gs, 'm) config_state" where
  "record_blocked hdl answer r st =
     after_reload answer st (\<lambda>st. (Ok (), push_blocked (r\<lparr>blk_execution_id := execution_id hdl\<rparr>) st))"

definition blocked_snapshot :: "('g, 'gs, 'm) reload_answer \<Rightarrow> ('g, 'gs, 'm) config_state \<Rightarrow>
    (net_error, blocked_request list) result \<times> ('g, 'gs, 'm) config_state" where
  "blocked_snapshot answer st = after_reload answer st (\<lambda>st. (Ok (blocked st), st))"

definition drain_blocked :: "('g, 'gs, 'm) reload_answer \<Rightarrow> ('g, 'gs, 'm) config_state \<Rightarrow>
    (net_error, blocked_request list) result \<times> ('g, 'gs, 'm) config_state" where
  "drain_blocked answer st = after_reload answer st (\<lambda>st. (Ok (blocked st), st\<lparr>blocked := []\<rparr>))"

section \<open>Unix sockets\<close>

text \<open>\<open>supported\<close> is the build for macOS; \<open>canonicalize\<close> asks the file system.\<close>

definition is_unix_socket_allowed :: "bool \<Rightarrow> rust_str option \<Rightarrow> rust_str option \<Rightarrow> (path \<Rightarrow> path option) \<Rightarrow>
    ('g, 'gs, 'm) reload_answer \<Rightarrow> rust_str \<Rightarrow> ('g, 'gs, 'm) config_state \<Rightarrow>
    (net_error, bool) result \<times> ('g, 'gs, 'm) config_state" where
  "is_unix_socket_allowed supported home cwd canonicalize answer p st =
     after_reload answer st (\<lambda>st. (Ok
       (if \<not> supported then False
        else if \<not> is_absolute (path_components p) then False
        else if dangerously_allow_all_unix_sockets (config st) then True
        else (case from_absolute_path home cwd p of
                None \<Rightarrow> False
              | Some requested \<Rightarrow>
                  list_ex (\<lambda>allowed.
                    case unix_socket_path_parse home cwd allowed of
                      Some (Native allowed_path) \<Rightarrow>
                        allowed_path = requested \<or>
                        (case (canonicalize requested, canonicalize allowed_path) of
                           (Some a, Some b) \<Rightarrow> a = b
                         | _ \<Rightarrow> False)
                    | _ \<Rightarrow> False) (allow_unix_sockets (config st)))), st))"

section \<open>Changing the policy\<close>

text \<open>One round of the loops below: the reloader's answer, and what other tasks do before the lock is taken.\<close>

record ('g, 'gs, 'm) attempt =
  att_reload :: "('g, 'gs, 'm) reload_answer"
  att_others :: "('g, 'gs, 'm) config_state \<Rightarrow> ('g, 'gs, 'm) config_state"

datatype domain_list_kind = AllowList | DenyList

fun kind_permission :: "domain_list_kind \<Rightarrow> network_domain_permission" where
  "kind_permission AllowList = PermAllow"
| "kind_permission DenyList = PermDeny"

fun kind_entries :: "domain_list_kind \<Rightarrow> network_proxy_config \<Rightarrow> rust_str list" where
  "kind_entries AllowList cfg = unwrap_or_default (allowed_domains cfg)"
| "kind_entries DenyList cfg = unwrap_or_default (denied_domains cfg)"

fun kind_opposite_entries :: "domain_list_kind \<Rightarrow> network_proxy_config \<Rightarrow> rust_str list" where
  "kind_opposite_entries AllowList cfg = unwrap_or_default (denied_domains cfg)"
| "kind_opposite_entries DenyList cfg = unwrap_or_default (allowed_domains cfg)"

definition contains_host :: "rust_str list \<Rightarrow> rust_str \<Rightarrow> bool" where
  "contains_host entries normalized_host \<longleftrightarrow> list_ex (\<lambda>e. normalize_host e = normalized_host) entries"

text \<open>The loop returns \<open>None\<close> when the given rounds are used up and other tasks kept changing the policy.\<close>

fun update_rounds :: "('g, 'gs, 'm, 'z) state_libs_scheme \<Rightarrow> rust_str \<Rightarrow> domain_list_kind \<Rightarrow> ('g, 'gs, 'm) attempt list \<Rightarrow>
    ('g, 'gs, 'm) config_state \<Rightarrow> (net_error, unit) result option \<times> ('g, 'gs, 'm) config_state" where
  "update_rounds L h target [] st = (None, st)"
| "update_rounds L h target (a # as) st =
     (case reload_if_needed (att_reload a) st of
        Err e \<Rightarrow> (Some (Err e), st)
      | Ok st \<Rightarrow>
          if contains_host (kind_entries target (config st)) h \<and> \<not> contains_host (kind_opposite_entries target (config st)) h
          then (Some (Ok ()), st)
          else
            (let candidate = upsert_domain_permission h (kind_permission target) normalize_host (config st)
             in case bind_result (validate_policy_against_constraints L candidate (constraints st))
                       (\<lambda>_. build_config_state L candidate (constraints st)) of
                  Err e \<Rightarrow> (Some (Err e), st)
                | Ok new_state \<Rightarrow>
                    let found = att_others a st
                    in if constraints found \<noteq> constraints st \<or> config found \<noteq> config st
                       then update_rounds L h target as found
                       else (Some (Ok ()), new_state\<lparr>blocked := blocked st, blocked_total := blocked_total st\<rparr>)))"

definition update_domain_list :: "('g, 'gs, 'm, 'z) state_libs_scheme \<Rightarrow> rust_str \<Rightarrow> domain_list_kind \<Rightarrow> ('g, 'gs, 'm) attempt list \<Rightarrow>
    ('g, 'gs, 'm) config_state \<Rightarrow> (net_error, unit) result option \<times> ('g, 'gs, 'm) config_state" where
  "update_domain_list L raw target attempts st =
     (case host_parse raw of
        Err e \<Rightarrow> (Some (Err e), st)
      | Ok h \<Rightarrow> update_rounds L h target attempts st)"

fun set_mode_rounds :: "('g, 'gs, 'm, 'z) state_libs_scheme \<Rightarrow> network_mode \<Rightarrow> ('g, 'gs, 'm) attempt list \<Rightarrow>
    ('g, 'gs, 'm) config_state \<Rightarrow> (net_error, unit) result option \<times> ('g, 'gs, 'm) config_state" where
  "set_mode_rounds L mode [] st = (None, st)"
| "set_mode_rounds L mode (a # as) st =
     (case reload_if_needed (att_reload a) st of
        Err e \<Rightarrow> (Some (Err e), st)
      | Ok st \<Rightarrow>
          (case validate_policy_against_constraints L ((config st)\<lparr>network_mode_of := mode\<rparr>) (constraints st) of
             Err e \<Rightarrow> (Some (Err e), st)
           | Ok _ \<Rightarrow>
               let found = att_others a st
               in if constraints found \<noteq> constraints st then set_mode_rounds L mode as found
                  else (Some (Ok ()), found\<lparr>config := (config found)\<lparr>network_mode_of := mode\<rparr>\<rparr>)))"

section \<open>Decisions\<close>

datatype network_protocol = ProtoHttp | ProtoHttpsConnect | ProtoSocks5Tcp | ProtoSocks5Udp
datatype network_policy_decision = DecisionDeny | DecisionAsk
datatype network_decision_source = BaselinePolicy | ModeGuard | ProxyState | Decider

datatype network_decision = NetAllow | NetDeny rust_str network_decision_source network_policy_decision

record network_policy_request =
  pol_protocol :: network_protocol
  pol_host :: rust_str
  pol_port :: nat
  pol_environment_id :: "rust_str option"
  pol_client_addr :: "rust_str option"
  pol_method :: "rust_str option"
  pol_command :: "rust_str option"
  pol_exec_policy_hint :: "rust_str option"
  pol_execution_id :: "rust_str option"

definition reason_or_default :: "rust_str \<Rightarrow> rust_str" where
  "reason_or_default r = (if r = [] then ''policy_denied'' else r)"

definition deny_with_source :: "rust_str \<Rightarrow> network_decision_source \<Rightarrow> network_decision" where
  "deny_with_source r src = NetDeny (reason_or_default r) src DecisionDeny"

definition ask_with_source :: "rust_str \<Rightarrow> network_decision_source \<Rightarrow> network_decision" where
  "ask_with_source r src = NetDeny (reason_or_default r) src DecisionAsk"

fun map_decider_decision :: "network_decision \<Rightarrow> network_decision" where
  "map_decider_decision NetAllow = NetAllow"
| "map_decider_decision (NetDeny r _ d) = NetDeny r Decider d"

definition decider_request :: "proxy_handle \<Rightarrow> network_policy_request \<Rightarrow> network_policy_request" where
  "decider_request hdl req =
     (let req = (if pol_environment_id req = None \<and> environment_id hdl \<noteq> None
                 then req\<lparr>pol_environment_id := environment_id hdl\<rparr> else req)
      in req\<lparr>pol_execution_id := execution_id hdl\<rparr>)"

definition evaluate_host_policy :: "('g, 'gs, 'z) proxy_libs_scheme \<Rightarrow> (rust_str \<Rightarrow> nat \<Rightarrow> lookup_answer) \<Rightarrow> proxy_handle \<Rightarrow>
    (network_policy_request \<Rightarrow> network_decision) option \<Rightarrow> ('g, 'gs, 'm) reload_answer \<Rightarrow> network_policy_request \<Rightarrow>
    ('g, 'gs, 'm) config_state \<Rightarrow> (net_error, network_decision) result \<times> ('g, 'gs, 'm) config_state" where
  "evaluate_host_policy L lookup hdl decider answer req st =
     (case host_blocked L lookup answer (pol_host req) (pol_port req) st of
        (Err e, st) \<Rightarrow> (Err e, st)
      | (Ok Allowed, st) \<Rightarrow> (Ok NetAllow, st)
      | (Ok (Blocked NotAllowed), st) \<Rightarrow>
          (Ok (case decider of
                 Some decide \<Rightarrow> map_decider_decision (decide (decider_request hdl req))
               | None \<Rightarrow> deny_with_source (reason_str NotAllowed) BaselinePolicy), st)
      | (Ok (Blocked reason), st) \<Rightarrow> (Ok (deny_with_source (reason_str reason) BaselinePolicy), st))"

section \<open>Connecting\<close>

text \<open>The target of a connection (\<open>rama_net::address::Host\<close>) and how it is displayed.\<close>

datatype target_host = HostAddress ip_addr | HostName rust_str

definition is_localhost_name :: "rust_str \<Rightarrow> bool" where
  "is_localhost_name n = eq_ignore_ascii_case (trim_end_matches CHR ''.'' n) ''localhost''"

fun is_non_public_target :: "target_host \<Rightarrow> bool" where
  "is_non_public_target (HostAddress ip) = is_non_public_ip ip"
| "is_non_public_target (HostName n) = is_localhost_name n"

fun target_matches_non_public_addr :: "target_host \<Rightarrow> ip_addr \<Rightarrow> bool" where
  "target_matches_non_public_addr (HostAddress ip) addr = (ip = addr)"
| "target_matches_non_public_addr (HostName n) addr = (is_localhost_name n \<and> is_loopback addr)"

text \<open>Both reads of the policy reload first, each with an answer of its own.\<close>

definition allows_non_public_target :: "('g, 'gs, 'z) proxy_libs_scheme \<Rightarrow> (rust_str \<Rightarrow> nat \<Rightarrow> lookup_answer) \<Rightarrow>
    (target_host \<Rightarrow> rust_str) \<Rightarrow> ('g, 'gs, 'm) reload_answer \<Rightarrow> ('g, 'gs, 'm) reload_answer \<Rightarrow> target_host \<Rightarrow> nat \<Rightarrow> ip_addr \<Rightarrow>
    ('g, 'gs, 'm) config_state \<Rightarrow> (net_error, bool) result \<times> ('g, 'gs, 'm) config_state" where
  "allows_non_public_target L lookup display answer1 answer2 target port addr st =
     after_reload answer1 st (\<lambda>st.
       if allow_local_binding (config st) then (Ok True, st)
       else if \<not> target_matches_non_public_addr target addr then (Ok False, st)
       else (case host_blocked L lookup answer2 (display target) port st of
               (Ok decision, st) \<Rightarrow> (Ok (decision = Allowed), st)
             | (Err e, st) \<Rightarrow> (Err e, st)))"

text \<open>Whether the connector goes on to open a TCP connection to the address.\<close>

definition connect_permitted :: "('g, 'gs, 'z) proxy_libs_scheme \<Rightarrow> (rust_str \<Rightarrow> nat \<Rightarrow> lookup_answer) \<Rightarrow>
    (target_host \<Rightarrow> rust_str) \<Rightarrow> ('g, 'gs, 'm) reload_answer \<Rightarrow> ('g, 'gs, 'm) reload_answer \<Rightarrow> target_host \<Rightarrow> nat \<Rightarrow> ip_addr \<Rightarrow>
    ('g, 'gs, 'm) config_state \<Rightarrow> (net_error, bool) result \<times> ('g, 'gs, 'm) config_state" where
  "connect_permitted L lookup display answer1 answer2 target port addr st =
     (if is_non_public_ip addr then allows_non_public_target L lookup display answer1 answer2 target port addr st
      else (Ok True, st))"

end
