(* ===== verification/Domain_Globs.thy ===== *)
theory Domain_Globs
  imports Network_State
begin

text \<open>
  What the compiled glob sets match. \<open>globs_ok\<close> states what is relied on of the crate \<open>globset\<close>: a set
  matches what one of its globs matches; a pattern without special characters matches itself, ignoring ASCII
  case; and \<open>?*.\<close> before such a pattern matches a dot-separated, non-empty prefix of it.
  \<open>url_hosts_ok\<close> states that the crate \<open>url\<close> lower-cases a plain domain name. A small matcher for \<open>*\<close> and
  \<open>?\<close> shows that both can hold.
\<close>

section \<open>Assumptions on the crates\<close>

definition literal_pattern :: "rust_str \<Rightarrow> bool" where
  "literal_pattern d \<longleftrightarrow> list_all (\<lambda>c. c \<notin> {CHR ''*'', CHR ''?'', CHR ''['', CHR '']'', CHR ''{'', CHR ''}'', CHR '','', CHR ''!'', CHR 0x5C}) d"

definition globs_ok :: "('g, 'gs, 'z) proxy_libs_scheme \<Rightarrow> bool" where
  "globs_ok L \<longleftrightarrow>
     (\<forall>gs s h. globset_build L gs = Some s \<longrightarrow> globset_is_match L s h = (\<exists>g \<in> set gs. glob_is_match L g h)) \<and>
     (\<forall>d g h. literal_pattern d \<longrightarrow> glob_build L True False d = Some g \<longrightarrow> glob_is_match L g h = eq_ignore_ascii_case h d) \<and>
     (\<forall>d g h. literal_pattern d \<longrightarrow> glob_build L True False (''?*.'' @ d) = Some g \<longrightarrow>
        glob_is_match L g h = (\<exists>p. p \<noteq> [] \<and> eq_ignore_ascii_case h (p @ ''.'' @ d)))"

definition label_char :: "char \<Rightarrow> bool" where
  "label_char c \<longleftrightarrow> is_ascii_alphabetic c \<or> is_ascii_digit c \<or> c = CHR ''-'' \<or> c = CHR ''_''"

text \<open>A domain name of plain labels, the last of which does not look like a number, without punycode.\<close>

definition dns_name :: "rust_str \<Rightarrow> bool" where
  "dns_name d \<longleftrightarrow>
     list_all (\<lambda>l. l \<noteq> [] \<and> list_all label_char l) (split_on CHR ''.'' d) \<and>
     is_ascii_alphabetic (hd (last (split_on CHR ''.'' d))) \<and> \<not> sublist ''xn--'' (to_ascii_lowercase d)"

definition url_hosts_ok :: "('g, 'gs, 'z) proxy_libs_scheme \<Rightarrow> bool" where
  "url_hosts_ok L \<longleftrightarrow> (\<forall>d. dns_name d \<longrightarrow> url_host_parse L d = Some (to_ascii_lowercase d))"

section \<open>Compiled sets\<close>

definition pattern_matches :: "('g, 'gs, 'z) proxy_libs_scheme \<Rightarrow> rust_str \<Rightarrow> rust_str \<Rightarrow> bool" where
  "pattern_matches L p h \<longleftrightarrow>
     (\<exists>c \<in> set (expand_domain_pattern (normalize_pattern p)). \<exists>g. glob_build L True False c = Some g \<and> glob_is_match L g h)"

definition builds :: "('g, 'gs, 'z) proxy_libs_scheme \<Rightarrow> rust_str list \<times> 'g list \<Rightarrow> bool" where
  "builds L st \<longleftrightarrow> map (glob_build L True False) (rev (fst st)) = map Some (snd st)"

lemma add_candidates_effect:
  "add_candidates L cs st = Ok st' \<Longrightarrow> builds L st \<Longrightarrow> builds L st' \<and> set (fst st') = set (fst st) \<union> set cs"
proof (induction L cs st rule: add_candidates.induct)
  case (2 L c cs seen globs)
  then show ?case by (auto simp: builds_def split: if_splits option.splits)
qed auto

lemma add_patterns_effect:
  "add_patterns L w ps st = Ok st' \<Longrightarrow> builds L st \<Longrightarrow>
     builds L st' \<and> set (fst st') = set (fst st) \<union> (\<Union>p \<in> set ps. set (expand_domain_pattern (normalize_pattern p)))"
proof (induction ps arbitrary: st)
  case (Cons p ps)
  from Cons.prems(1) obtain st1 where "add_candidates L (expand_domain_pattern (normalize_pattern p)) st = Ok st1"
    "add_patterns L w ps st1 = Ok st'" by (auto simp: bind_result_eq_Inr split: if_splits)
  with add_candidates_effect[OF this(1) Cons.prems(2)] Cons.IH[of st1] show ?case by auto
qed simp

lemma builds_globs:
  assumes "builds L (seen, globs)"
  shows "g \<in> set globs \<longleftrightarrow> (\<exists>c \<in> set seen. glob_build L True False c = Some g)"
proof -
  have "Some ` set globs = glob_build L True False ` set seen"
    using arg_cong[OF assms[unfolded builds_def], of set] by (simp add: image_set [symmetric] del: image_set)
  then show ?thesis by (auto simp: set_eq_iff image_iff) (metis option.inject)+
qed

text \<open>A compiled set matches a host exactly when one of its patterns does.\<close>

lemma compiled_set_matches:
  assumes "globs_ok L" "compile_globset_with_policy L ps w = Ok s"
  shows "globset_is_match L s h \<longleftrightarrow> (\<exists>p \<in> set ps. pattern_matches L p h)"
proof -
  from assms(2) obtain seen globs where st: "add_patterns L w ps ([], []) = Ok (seen, globs)" "globset_build L globs = Some s"
    by (auto simp: compile_globset_with_policy_def bind_result_eq_Inr split: option.splits)
  have "builds L ([], [])" by (simp add: builds_def)
  from add_patterns_effect[OF st(1) this] have b: "builds L (seen, globs)"
    "set seen = (\<Union>p \<in> set ps. set (expand_domain_pattern (normalize_pattern p)))" by simp_all
  have "globset_is_match L s h \<longleftrightarrow> (\<exists>g \<in> set globs. glob_is_match L g h)"
    using assms(1) st(2) by (simp add: globs_ok_def)
  also have "\<dots> \<longleftrightarrow> (\<exists>c \<in> set seen. \<exists>g. glob_build L True False c = Some g \<and> glob_is_match L g h)"
    using builds_globs[OF b(1)] by blast
  finally show ?thesis unfolding pattern_matches_def b(2) by blast
qed

lemma compiled_set_builds:
  assumes "compile_globset_with_policy L ps w = Ok s" "p \<in> set ps" "c \<in> set (expand_domain_pattern (normalize_pattern p))"
  shows "\<exists>g. glob_build L True False c = Some g"
proof -
  from assms(1) obtain seen globs where st: "add_patterns L w ps ([], []) = Ok (seen, globs)"
    by (auto simp: compile_globset_with_policy_def bind_result_eq_Inr)
  have "builds L ([], [])" by (simp add: builds_def)
  from add_patterns_effect[OF st this] assms(2,3) have "builds L (seen, globs)" "c \<in> set seen" by auto
  then have "glob_build L True False c \<in> Some ` set globs"
    using arg_cong[OF \<open>builds L (seen, globs)\<close>[unfolded builds_def], of set] by (auto simp: set_eq_iff image_iff)
  then show ?thesis by auto
qed

section \<open>Plain patterns\<close>

definition plain_pattern :: "rust_str \<Rightarrow> bool" where
  "plain_pattern p \<longleftrightarrow>
     (case strip_prefix ''**.'' p of Some d \<Rightarrow> dns_name d
      | None \<Rightarrow> (case strip_prefix ''*.'' p of Some d \<Rightarrow> dns_name d | None \<Rightarrow> dns_name p))"

lemma set_join: "set (join_with sep ls) \<subseteq> set sep \<union> (\<Union>l \<in> set ls. set l)"
  by (induction sep ls rule: join_with.induct) auto

lemma join_ends: "\<forall>l \<in> set ls. l \<noteq> [] \<Longrightarrow> ls \<noteq> [] \<Longrightarrow>
    join_with sep ls \<noteq> [] \<and> hd (join_with sep ls) = hd (hd ls) \<and> last (join_with sep ls) = last (last ls)"
  by (induction sep ls rule: join_with.induct) auto

lemma dns_name_chars: "dns_name d \<Longrightarrow> c \<in> set d \<Longrightarrow> label_char c \<or> c = CHR ''.''"
  using set_join[of "''.''" "split_on CHR ''.'' d"] by (fastforce simp: dns_name_def list_all_iff)

lemma dns_name_ne: "dns_name d \<Longrightarrow> d \<noteq> []"
  by (auto simp: dns_name_def)

lemma label_char_dot: "\<not> label_char CHR ''.''"
  by (simp add: label_char_def is_ascii_alphabetic_def is_ascii_digit_def)

lemma dns_name_ends: "dns_name d \<Longrightarrow> last d \<noteq> CHR ''.'' \<and> hd d \<noteq> CHR ''.''"
proof -
  assume d: "dns_name d"
  let ?ls = "split_on CHR ''.'' d"
  have labels: "\<forall>l \<in> set ?ls. l \<noteq> [] \<and> list_all label_char l" using d by (auto simp: dns_name_def list_all_iff)
  then have "hd d = hd (hd ?ls)" "last d = last (last ?ls)" using join_ends[of ?ls "''.''"] by auto
  moreover have "hd ?ls \<in> set ?ls" "last ?ls \<in> set ?ls" by simp_all
  ultimately show ?thesis using labels label_char_dot by (metis hd_in_set last_in_set list_all_iff)
qed

lemma label_char_ascii: "label_char c \<or> c = CHR ''.'' \<Longrightarrow> byte_of c < 128 \<and> \<not> is_whitespace [c]"
  by (auto simp: label_char_def is_ascii_alphabetic_def is_ascii_digit_def is_whitespace_def)

lemma label_char_plain:
  "label_char c \<or> c = CHR ''.'' \<Longrightarrow> c \<notin> {CHR ''*'', CHR ''?'', CHR ''['', CHR '']'', CHR ''{'', CHR ''}'', CHR '','', CHR ''!'', CHR 0x5C, CHR '':'', CHR ''%''}"
  by (auto simp: label_char_def is_ascii_alphabetic_def is_ascii_digit_def)

lemma trim_solid:
  assumes "\<forall>c \<in> set s. byte_of c < 128 \<and> \<not> is_whitespace [c]"
  shows "trim s = s"
proof -
  have "ascii s" using assms by (simp add: ascii_def list_all_iff)
  then have u: "utf8_chars s = map (\<lambda>c. [c]) s" by (rule utf8_chars_ascii)
  have start: "trim_start s = s" using assms by (cases s) (auto simp: trim_start_keep)
  show ?thesis
  proof (cases "s = []")
    case False
    then have "trim_end s = s" using assms by (intro trim_end_keep_last) (simp_all add: u last_map)
    then show ?thesis by (simp add: trim_def start)
  qed simp
qed

lemma trim_dns: "dns_name d \<Longrightarrow> trim d = d" "dns_name d \<Longrightarrow> trim (''*.'' @ d) = ''*.'' @ d" "dns_name d \<Longrightarrow> trim (''**.'' @ d) = ''**.'' @ d"
  using dns_name_chars label_char_ascii by (auto intro!: trim_solid simp: is_whitespace_def)

lemma trim_end_matches_id: "s = [] \<or> last s \<noteq> c \<Longrightarrow> trim_end_matches c s = s"
  by (cases s rule: rev_cases) (auto simp: trim_end_matches_def)

lemma ascii_lower_label: "label_char c \<Longrightarrow> label_char (ascii_lower c)"
  by (auto simp: label_char_def is_ascii_alphabetic_def is_ascii_digit_def ascii_lower_def)

lemma ascii_lower_dot: "ascii_lower c = CHR ''.'' \<longleftrightarrow> c = CHR ''.''"
  by (rule ascii_lower_eq) simp

lemma ascii_lower_of_dot [simp]: "ascii_lower CHR ''.'' = CHR ''.''"
  by (simp add: ascii_lower_def)

lemma ascii_lower_twice [simp]: "map (ascii_lower \<circ> ascii_lower) d = to_ascii_lowercase d"
  by (simp add: comp_def)

lemma normalize_domain_dns: "dns_name d \<Longrightarrow> normalize_domain d = to_ascii_lowercase d"
  using dns_name_ends by (simp add: normalize_domain_def trim_end_matches_id)

lemma dns_name_avoids:
  assumes "dns_name d"
  shows "CHR ''*'' \<notin> set d" "CHR ''?'' \<notin> set d" "CHR ''%'' \<notin> set d" "CHR ''['' \<notin> set d" "CHR '']'' \<notin> set d" "CHR '':'' \<notin> set d"
  using dns_name_chars[OF assms, of "CHR ''*''"] dns_name_chars[OF assms, of "CHR ''?''"] dns_name_chars[OF assms, of "CHR ''%''"]
    dns_name_chars[OF assms, of "CHR ''[''"] dns_name_chars[OF assms, of "CHR '']''"] dns_name_chars[OF assms, of "CHR '':''"]
  by (auto simp: label_char_def is_ascii_alphabetic_def is_ascii_digit_def)

lemma lower_percent: "CHR ''%'' \<notin> set d \<Longrightarrow> CHR ''%'' \<notin> set (to_ascii_lowercase d)"
  using ascii_lower_eq[of "CHR ''%''"] by force

lemma split_once_percent: "CHR ''%'' \<notin> set s \<Longrightarrow> split_once_str ''%25'' s = None \<and> split_once_str ''%'' s = None"
  by (induction s) auto

lemma normalize_host_dns: "dns_name d \<Longrightarrow> normalize_host d = to_ascii_lowercase d"
proof -
  assume d: "dns_name d"
  note chars = dns_name_avoids[OF d]
  have "scoped_literal ''%25'' (to_ascii_lowercase d) = None" "scoped_literal ''%'' (to_ascii_lowercase d) = None"
    using split_once_percent[OF lower_percent[OF chars(3)]] by (simp_all add: scoped_literal_def)
  moreover have "trim_end_matches CHR ''.'' (to_ascii_lowercase d) = to_ascii_lowercase d"
    using dns_name_ends[OF d] dns_name_ne[OF d] by (intro trim_end_matches_id) (simp add: last_map ascii_lower_dot)
  ultimately have "normalize_dns_host_or_ip_literal d = to_ascii_lowercase d"
    by (simp add: normalize_dns_host_or_ip_literal_def normalize_ip_literal_def Let_def)
  moreover have "filter (\<lambda>c. c = CHR '':'') d = []" using chars(6) by (auto simp: filter_empty_conv)
  ultimately show ?thesis using chars(5) by (simp add: normalize_host_def trim_dns[OF d])
qed

lemma dns_name_lower: "dns_name d \<Longrightarrow> dns_name (to_ascii_lowercase d)"
proof -
  assume d: "dns_name d"
  have "split_on CHR ''.'' (to_ascii_lowercase s) = map to_ascii_lowercase (split_on CHR ''.'' s)" for s
    by (induction s) (auto simp: ascii_lower_dot split: list.splits)
  moreover have "is_ascii_alphabetic (ascii_lower c)" if "is_ascii_alphabetic c" for c
    using that by (auto simp: is_ascii_alphabetic_def ascii_lower_def)
  moreover have "hd (map ascii_lower l) = ascii_lower (hd l)" if "l \<noteq> []" for l using that by (simp add: hd_map)
  moreover have "last (split_on CHR ''.'' d) \<noteq> []" using d by (auto simp: dns_name_def list_all_iff)
  ultimately show ?thesis using d by (auto simp: dns_name_def list_all_iff ascii_lower_label last_map o_def)
qed

lemma dns_no_star: "dns_name d \<Longrightarrow> strip_prefix ''*.'' d = None \<and> strip_prefix ''**.'' d = None \<and> d \<noteq> ''*''"
  using dns_name_chars[of d "CHR ''*''"] label_char_plain[of "CHR ''*''"]
  by (auto simp: strip_prefix_def prefix_def)

lemma strip_star_forms [simp]:
  "strip_prefix ''**.'' (''*.'' @ d) = None" "strip_prefix ''*.'' (''*.'' @ d) = Some d" "strip_prefix ''**.'' (''**.'' @ d) = Some d"
  by (simp_all add: strip_prefix_def)

lemma plain_pattern_cases:
  assumes "plain_pattern p"
  obtains d where "dns_name d" "p = d" | d where "dns_name d" "p = ''*.'' @ d" | d where "dns_name d" "p = ''**.'' @ d"
  using assms by (auto simp: plain_pattern_def strip_prefix_Some split: option.splits)

lemma parse_plain:
  assumes "dns_name d"
  shows "domain_pattern_parse d = Exact d" "domain_pattern_parse (''*.'' @ d) = SubdomainsOnly d"
    "domain_pattern_parse (''**.'' @ d) = ApexAndSubdomains d"
  using trim_dns[OF assms] dns_no_star[OF assms] dns_name_ne[OF assms]
  by (simp_all add: domain_pattern_parse_def parse_domain_def Let_def strip_prefix_def)

lemma normalize_plain:
  assumes "dns_name d"
  shows "normalize_pattern d = to_ascii_lowercase d" "normalize_pattern (''*.'' @ d) = ''*.'' @ to_ascii_lowercase d"
    "normalize_pattern (''**.'' @ d) = ''**.'' @ to_ascii_lowercase d"
  using trim_dns[OF assms] dns_no_star[OF assms] normalize_host_dns[OF assms] dns_name_ne[OF assms]
  by (simp_all add: normalize_pattern_def Let_def strip_prefix_def)

lemma parse_constraints_plain:
  assumes "dns_name d" "url_hosts_ok L"
  shows "parse_for_constraints L d = Exact (to_ascii_lowercase d)"
    "parse_for_constraints L (''*.'' @ d) = SubdomainsOnly (to_ascii_lowercase d)"
    "parse_for_constraints L (''**.'' @ d) = ApexAndSubdomains (to_ascii_lowercase d)"
proof -
  note chars = dns_name_avoids[OF assms(1)]
  moreover from this(4) have "\<not> prefix ''['' d" by (auto simp: prefix_def)
  moreover have "url_host_parse L d = Some (to_ascii_lowercase d)" using assms by (simp add: url_hosts_ok_def)
  moreover have "trim_end_matches CHR ''.'' (trim d) = d"
    using trim_dns(1)[OF assms(1)] dns_name_ends[OF assms(1)] by (simp add: trim_end_matches_id)
  ultimately have "parse_domain_for_constraints L d = to_ascii_lowercase d"
    using dns_name_ne[OF assms(1)] by (simp add: parse_domain_for_constraints_def Let_def)
  then show "parse_for_constraints L d = Exact (to_ascii_lowercase d)"
    "parse_for_constraints L (''*.'' @ d) = SubdomainsOnly (to_ascii_lowercase d)"
    "parse_for_constraints L (''**.'' @ d) = ApexAndSubdomains (to_ascii_lowercase d)"
    using trim_dns[OF assms(1)] dns_no_star[OF assms(1)] dns_name_ne[OF assms(1)]
    by (simp_all add: parse_for_constraints_def Let_def strip_prefix_def)
qed

text \<open>A plain pattern matches the hosts it stands for.\<close>

lemma literal_dns: "dns_name d \<Longrightarrow> literal_pattern d"
  using dns_name_chars label_char_plain by (fastforce simp: literal_pattern_def list_all_iff)

lemma lower_prefix_iff:
  "(\<exists>label. label \<noteq> [] \<and> to_ascii_lowercase h = label @ CHR ''.'' # to_ascii_lowercase d) \<longleftrightarrow>
     (\<exists>p. p \<noteq> [] \<and> eq_ignore_ascii_case h (p @ ''.'' @ d))"
proof
  assume "\<exists>label. label \<noteq> [] \<and> to_ascii_lowercase h = label @ CHR ''.'' # to_ascii_lowercase d"
  then obtain label where l: "label \<noteq> []" "to_ascii_lowercase h = label @ CHR ''.'' # to_ascii_lowercase d" by blast
  have "to_ascii_lowercase (to_ascii_lowercase h) = to_ascii_lowercase h" by simp
  then have "to_ascii_lowercase label = label" unfolding l(2) by (simp only: map_append append_eq_append_conv length_map) simp
  then have "eq_ignore_ascii_case h (label @ ''.'' @ d)" using l(2) by (simp add: eq_ignore_ascii_case_def)
  with l(1) show "\<exists>p. p \<noteq> [] \<and> eq_ignore_ascii_case h (p @ ''.'' @ d)" by blast
next
  assume "\<exists>p. p \<noteq> [] \<and> eq_ignore_ascii_case h (p @ ''.'' @ d)"
  then obtain p where "p \<noteq> []" "to_ascii_lowercase h = to_ascii_lowercase p @ CHR ''.'' # to_ascii_lowercase d"
    by (auto simp: eq_ignore_ascii_case_def)
  then show "\<exists>label. label \<noteq> [] \<and> to_ascii_lowercase h = label @ CHR ''.'' # to_ascii_lowercase d"
    by (intro exI[of _ "to_ascii_lowercase p"]) simp
qed

lemma in_below_lower:
  assumes "dns_name d"
  shows "to_ascii_lowercase h \<in> below d \<longleftrightarrow> (\<exists>p. p \<noteq> [] \<and> eq_ignore_ascii_case h (p @ ''.'' @ to_ascii_lowercase d))"
  using lower_prefix_iff[of h "to_ascii_lowercase d"] by (simp add: in_below normalize_domain_dns[OF assms])

lemma globs_ok_literal:
  "globs_ok L \<Longrightarrow> literal_pattern d \<Longrightarrow> glob_build L True False d = Some g \<Longrightarrow> glob_is_match L g h = eq_ignore_ascii_case h d"
  unfolding globs_ok_def by blast

lemma globs_ok_subdomains:
  "globs_ok L \<Longrightarrow> literal_pattern d \<Longrightarrow> glob_build L True False (''?*.'' @ d) = Some g \<Longrightarrow>
     glob_is_match L g h = (\<exists>p. p \<noteq> [] \<and> eq_ignore_ascii_case h (p @ ''.'' @ d))"
  unfolding globs_ok_def by blast

lemma plain_pattern_matches:
  assumes "globs_ok L" "plain_pattern p"
    and builds: "\<And>c. c \<in> set (expand_domain_pattern (normalize_pattern p)) \<Longrightarrow> \<exists>g. glob_build L True False c = Some g"
  shows "pattern_matches L p h \<longleftrightarrow> to_ascii_lowercase h \<in> hosts_of (domain_pattern_parse p)"
proof -
  have exact: "glob_is_match L g h \<longleftrightarrow> to_ascii_lowercase h = normalize_domain d"
    if "dns_name d" "glob_build L True False (to_ascii_lowercase d) = Some g" for d g
    using globs_ok_literal[OF assms(1) literal_dns[OF dns_name_lower[OF that(1)]] that(2), of h] that(1)
    by (simp add: normalize_domain_dns eq_ignore_ascii_case_def)
  have sub: "glob_is_match L g h \<longleftrightarrow> to_ascii_lowercase h \<in> below d"
    if "dns_name d" "glob_build L True False (''?*.'' @ to_ascii_lowercase d) = Some g" for d g
    unfolding in_below_lower[OF that(1)]
    by (rule globs_ok_subdomains[OF assms(1) literal_dns[OF dns_name_lower[OF that(1)]] that(2)])
  from assms(2) show ?thesis
  proof (cases rule: plain_pattern_cases)
    case (1 d)
    have e: "expand_domain_pattern (normalize_pattern p) = [to_ascii_lowercase d]"
      unfolding 1(2) normalize_plain(1)[OF 1(1)] expand_domain_pattern_def parse_plain(1)[OF dns_name_lower[OF 1(1)]] by simp
    then obtain g where "glob_build L True False (to_ascii_lowercase d) = Some g" using builds by auto
    with exact[OF 1(1) this] show ?thesis
      unfolding pattern_matches_def e by (simp add: 1(2) parse_plain(1)[OF 1(1)])
  next
    case (2 d)
    have e: "expand_domain_pattern (normalize_pattern p) = [''?*.'' @ to_ascii_lowercase d]"
      unfolding 2(2) normalize_plain(2)[OF 2(1)] expand_domain_pattern_def parse_plain(2)[OF dns_name_lower[OF 2(1)]] by simp
    then obtain g where g: "glob_build L True False (''?*.'' @ to_ascii_lowercase d) = Some g" using builds by auto
    then have "pattern_matches L p h \<longleftrightarrow> glob_is_match L g h" unfolding pattern_matches_def e by simp
    then show ?thesis unfolding 2(2) parse_plain(2)[OF 2(1)] by (simp add: sub[OF 2(1) g])
  next
    case (3 d)
    have e: "expand_domain_pattern (normalize_pattern p) = [to_ascii_lowercase d, ''?*.'' @ to_ascii_lowercase d]"
      unfolding 3(2) normalize_plain(3)[OF 3(1)] expand_domain_pattern_def parse_plain(3)[OF dns_name_lower[OF 3(1)]] by simp
    then obtain g g' where g: "glob_build L True False (to_ascii_lowercase d) = Some g"
      "glob_build L True False (''?*.'' @ to_ascii_lowercase d) = Some g'" using builds by (metis list.set_intros)
    then have "pattern_matches L p h \<longleftrightarrow> glob_is_match L g h \<or> glob_is_match L g' h" unfolding pattern_matches_def e by simp
    then show ?thesis unfolding 3(2) parse_plain(3)[OF 3(1)] by (simp add: exact[OF 3(1) g(1)] sub[OF 3(1) g(2)])
  qed
qed

section \<open>A matcher for wildcards\<close>

fun wild_match :: "bool \<Rightarrow> rust_str \<Rightarrow> rust_str \<Rightarrow> bool" where
  "wild_match sep [] t = (t = [])"
| "wild_match sep (c # p) [] = (c = CHR ''*'' \<and> wild_match sep p [])"
| "wild_match sep (c # p) (x # t) =
     (if c = CHR ''*'' then wild_match sep p (x # t) \<or> (\<not> (sep \<and> x = CHR ''/'') \<and> wild_match sep (c # p) t)
      else if c = CHR ''?'' then \<not> (sep \<and> x = CHR ''/'') \<and> wild_match sep p t
      else c = x \<and> wild_match sep p t)"

fun sample_glob_match :: "bool \<times> bool \<times> rust_str \<Rightarrow> rust_str \<Rightarrow> bool" where
  "sample_glob_match (ci, sep, p) h =
     (if ci then wild_match sep (to_ascii_lowercase p) (to_ascii_lowercase h) else wild_match sep p h)"

definition sample_libs :: "(bool \<times> bool \<times> rust_str, (bool \<times> bool \<times> rust_str) list, unit) state_libs" where
  "sample_libs = \<lparr>
     glob_build = (\<lambda>ci sep p. if list_ex (\<lambda>c. c \<in> {CHR ''['', CHR '']'', CHR ''{'', CHR ''}'', CHR 0x5C}) p then None else Some (ci, sep, p)),
     glob_is_match = sample_glob_match,
     globset_build = Some,
     globset_is_match = (\<lambda>gs h. list_ex (\<lambda>g. sample_glob_match g h) gs),
     url_host_parse = (\<lambda>d. if d \<noteq> [] \<and> list_all (\<lambda>c. label_char c \<or> c = CHR ''.'') d then Some (to_ascii_lowercase d) else None),
     url_parse = (\<lambda>_. None),
     header_name_from = (\<lambda>n. if n = [] then None else Some (to_ascii_lowercase n)),
     header_value_from = Some,
     form_parse = (\<lambda>q. List.map_filter (split_once CHR ''='') (split_on CHR ''&'' q)),
     env_var = (\<lambda>_. None), read_to_string = (\<lambda>_. None), home_dir = None, cwd_dir = None,
     mitm_state_new = (\<lambda>_. Some ())\<rparr>"

lemma wild_match_literal: "CHR ''*'' \<notin> set p \<Longrightarrow> CHR ''?'' \<notin> set p \<Longrightarrow> wild_match sep p t \<longleftrightarrow> t = p"
  by (induction sep p t rule: wild_match.induct) auto

lemma wild_match_star: "wild_match False (CHR ''*'' # p) t \<longleftrightarrow> (\<exists>a b. t = a @ b \<and> wild_match False p b)"
proof (induction t)
  case (Cons x t)
  have "(\<exists>a b. x # t = a @ b \<and> wild_match False p b) \<longleftrightarrow> wild_match False p (x # t) \<or> (\<exists>a b. t = a @ b \<and> wild_match False p b)"
    by (metis append_Cons append_Nil list.inject neq_Nil_conv)
  with Cons show ?case by simp
qed simp

lemma wild_match_subdomain:
  assumes "CHR ''*'' \<notin> set d" "CHR ''?'' \<notin> set d"
  shows "wild_match False (''?*.'' @ d) t \<longleftrightarrow> (\<exists>p. p \<noteq> [] \<and> t = p @ ''.'' @ d)"
proof (cases t)
  case (Cons x xs)
  have "wild_match False (''?*.'' @ d) t \<longleftrightarrow> (\<exists>a b. xs = a @ b \<and> b = ''.'' @ d)"
    using assms wild_match_literal[of "''.'' @ d" False] by (simp add: Cons wild_match_star)
  also have "\<dots> \<longleftrightarrow> (\<exists>p. p \<noteq> [] \<and> t = p @ ''.'' @ d)" unfolding Cons by (metis append_Cons list.distinct(1) list.exhaust list.inject)
  finally show ?thesis .
qed simp

lemma lower_star: "CHR ''*'' \<in> set (to_ascii_lowercase d) \<longleftrightarrow> CHR ''*'' \<in> set d" "CHR ''?'' \<in> set (to_ascii_lowercase d) \<longleftrightarrow> CHR ''?'' \<in> set d"
proof -
  have "ascii_lower c = CHR ''*'' \<longleftrightarrow> c = CHR ''*''" "ascii_lower c = CHR ''?'' \<longleftrightarrow> c = CHR ''?''" for c
    by (rule ascii_lower_eq, simp)+
  then show "CHR ''*'' \<in> set (to_ascii_lowercase d) \<longleftrightarrow> CHR ''*'' \<in> set d" "CHR ''?'' \<in> set (to_ascii_lowercase d) \<longleftrightarrow> CHR ''?'' \<in> set d"
    by (simp_all add: image_iff) metis+
qed

lemma literal_no_wildcards:
  assumes "literal_pattern d"
  shows "CHR ''*'' \<notin> set (to_ascii_lowercase d)" "CHR ''?'' \<notin> set (to_ascii_lowercase d)"
  unfolding lower_star using assms by (auto simp: literal_pattern_def list_all_iff)

lemma sample_build: "glob_build sample_libs ci sep p = Some g \<Longrightarrow> g = (ci, sep, p)"
  by (simp add: sample_libs_def split: if_splits)

lemma sample_match:
  "glob_is_match sample_libs (True, sep, p) h \<longleftrightarrow> wild_match sep (to_ascii_lowercase p) (to_ascii_lowercase h)"
  by (simp add: sample_libs_def)

lemma lower_wildcards: "to_ascii_lowercase (''?*.'' @ d) = ''?*.'' @ to_ascii_lowercase d"
  by (simp add: ascii_lower_def[of "CHR ''?''"] ascii_lower_def[of "CHR ''*''"])

lemma sample_globs_ok: "globs_ok sample_libs"
proof -
  show ?thesis
    unfolding globs_ok_def
  proof (intro conjI allI impI)
    fix gs s h assume "globset_build sample_libs gs = Some s"
    then show "globset_is_match sample_libs s h = (\<exists>g \<in> set gs. glob_is_match sample_libs g h)"
      by (simp add: sample_libs_def list_ex_iff)
  next
    fix d g h assume d: "literal_pattern d" and "glob_build sample_libs True False d = Some g"
    show "glob_is_match sample_libs g h = eq_ignore_ascii_case h d"
      unfolding sample_build[OF \<open>glob_build sample_libs True False d = Some g\<close>] sample_match eq_ignore_ascii_case_def
      by (rule wild_match_literal[OF literal_no_wildcards[OF d]])
  next
    fix d g h assume d: "literal_pattern d" and g: "glob_build sample_libs True False (''?*.'' @ d) = Some g"
    have "glob_is_match sample_libs g h \<longleftrightarrow> wild_match False (''?*.'' @ to_ascii_lowercase d) (to_ascii_lowercase h)"
      unfolding sample_build[OF g] sample_match lower_wildcards ..
    also have "\<dots> \<longleftrightarrow> (\<exists>p. p \<noteq> [] \<and> to_ascii_lowercase h = p @ ''.'' @ to_ascii_lowercase d)"
      by (rule wild_match_subdomain[OF literal_no_wildcards[OF d]])
    also have "\<dots> \<longleftrightarrow> (\<exists>p. p \<noteq> [] \<and> eq_ignore_ascii_case h (p @ ''.'' @ d))"
      using lower_prefix_iff[of h d] by simp
    finally show "glob_is_match sample_libs g h = (\<exists>p. p \<noteq> [] \<and> eq_ignore_ascii_case h (p @ ''.'' @ d))" .
  qed
qed

lemma sample_url_hosts_ok: "url_hosts_ok sample_libs"
  using dns_name_chars dns_name_ne by (auto simp: url_hosts_ok_def sample_libs_def list_all_iff)

section \<open>The managed allowlist\<close>

lemma hosts_of_lower: "dns_name d \<Longrightarrow> normalize_domain (to_ascii_lowercase d) = normalize_domain d"
  by (simp add: normalize_domain_dns dns_name_lower)

lemma hosts_of_constraints:
  assumes "plain_pattern p" "url_hosts_ok L"
  shows "hosts_of (parse_for_constraints L p) = hosts_of (domain_pattern_parse p)"
    "\<not> prefix ''.'' (normalize_domain (pattern_domain (parse_for_constraints L p)))"
proof -
  have dot: "\<not> prefix ''.'' (normalize_domain d)" if "dns_name d" for d
    unfolding normalize_domain_dns[OF that] using dns_name_ends[OF that] dns_name_ne[OF that]
    by (cases d) (auto simp: ascii_lower_dot eq_commute[of "CHR ''.''"])
  from assms(1) show "hosts_of (parse_for_constraints L p) = hosts_of (domain_pattern_parse p)"
    by (cases rule: plain_pattern_cases)
       (simp_all only: parse_constraints_plain[OF _ assms(2)] parse_plain hosts_of.simps hosts_of_lower below_def)
  from assms(1) show "\<not> prefix ''.'' (normalize_domain (pattern_domain (parse_for_constraints L p)))"
    by (cases rule: plain_pattern_cases)
       (simp_all only: parse_constraints_plain[OF _ assms(2)] pattern_domain.simps hosts_of_lower dot not_False_eq_True)
qed

lemma lower_forms:
  "to_ascii_lowercase (''*.'' @ d) = ''*.'' @ to_ascii_lowercase d" "to_ascii_lowercase (''**.'' @ d) = ''**.'' @ to_ascii_lowercase d"
  by (simp_all add: ascii_lower_def[of "CHR ''*''"])

lemma hosts_of_lower_pattern:
  assumes "plain_pattern p"
  shows "hosts_of (domain_pattern_parse (to_ascii_lowercase p)) = hosts_of (domain_pattern_parse p)"
  using assms
  by (cases rule: plain_pattern_cases)
     (simp_all only: lower_forms parse_plain[OF dns_name_lower] parse_plain hosts_of.simps hosts_of_lower below_def)

lemma managed_entry_covers:
  assumes "plain_pattern e" "\<forall>m \<in> set managed. plain_pattern m" "url_hosts_ok L"
    and "c_allowed_domains cs = Some managed" "c_allowlist_expansion_enabled cs \<noteq> Some True"
    and "check_allowed_domains L cs candidate denied = Ok ()" "e \<in> set candidate"
  shows "\<exists>m \<in> set managed. hosts_of (domain_pattern_parse e) \<subseteq> hosts_of (domain_pattern_parse m)"
proof (cases "c_allowlist_expansion_enabled cs")
  case None
  then obtain m where m: "m \<in> set managed" "pattern_allows (parse_for_constraints L m) (parse_for_constraints L e)"
    using assms by (auto simp: check_allowed_domains_def bind_result_eq_Inr list_all_iff list_ex_iff split: if_splits)
  then have "hosts_of (parse_for_constraints L e) \<subseteq> hosts_of (parse_for_constraints L m)"
    using pattern_allows_iff_subset[OF hosts_of_constraints(2)[OF assms(1,3)]] by simp
  then show ?thesis using m(1) hosts_of_constraints(1)[OF assms(1,3)] hosts_of_constraints(1)[OF _ assms(3), of m] assms(2) by auto
next
  case (Some b)
  then have "to_ascii_lowercase e \<in> lowered managed"
    using assms by (auto simp: check_allowed_domains_def bind_result_eq_Inr lowered_def split: if_splits)
  then obtain m where "m \<in> set managed" "to_ascii_lowercase m = to_ascii_lowercase e" by (auto simp: lowered_def)
  then show ?thesis using hosts_of_lower_pattern assms(1,2) by (metis order_refl)
qed

text \<open>
  C13. Managed constraints bound what the proxy lets through: when a configuration passes
  \<open>validate_policy_against_constraints\<close> against a managed allowlist that users may not extend, every host its
  compiled allowlist matches is matched by the managed allowlist. The entries of both lists are plain domain
  names, optionally after a wildcard prefix.
\<close>

theorem managed_allowlist_not_widened:
  assumes "globs_ok L" "url_hosts_ok L"
    and "validate_policy_against_constraints L cfg cs = Ok ()"
    and "c_allowed_domains cs = Some managed" "c_allowlist_expansion_enabled cs \<noteq> Some True"
    and "\<forall>p \<in> set managed \<union> set (unwrap_or_default (allowed_domains cfg)). plain_pattern p"
    and "compile_allowlist_globset L (unwrap_or_default (allowed_domains cfg)) = Ok allow"
    and "compile_allowlist_globset L managed = Ok managed_allow"
    and "globset_is_match L allow h"
  shows "globset_is_match L managed_allow h"
proof -
  have chk: "check_allowed_domains L cs (unwrap_or_default (allowed_domains cfg)) (unwrap_or_default (denied_domains cfg)) = Ok ()"
    using assms(3) unfolding validate_policy_against_constraints_def first_error_Ok policy_checks_def Let_def by simp
  note c1 = assms(7)[unfolded compile_allowlist_globset_def] and c2 = assms(8)[unfolded compile_allowlist_globset_def]
  obtain e where e: "e \<in> set (unwrap_or_default (allowed_domains cfg))" "pattern_matches L e h"
    using compiled_set_matches[OF assms(1) c1] assms(9) by blast
  then have host: "to_ascii_lowercase h \<in> hosts_of (domain_pattern_parse e)"
    using plain_pattern_matches[OF assms(1)] compiled_set_builds[OF c1 e(1)] assms(6) by blast
  obtain m where m: "m \<in> set managed" "hosts_of (domain_pattern_parse e) \<subseteq> hosts_of (domain_pattern_parse m)"
    using managed_entry_covers[OF _ _ assms(2,4,5) chk e(1)] assms(6) e(1) by blast
  then have "pattern_matches L m h"
    using plain_pattern_matches[OF assms(1)] compiled_set_builds[OF c2 m(1)] assms(6) host by blast
  then show ?thesis using compiled_set_matches[OF assms(1) c2] m(1) by blast
qed

abbreviation entry :: "rust_str \<Rightarrow> network_domain_permission \<Rightarrow> network_domain_permission_entry" where
  "entry p m \<equiv> \<lparr>entry_pattern = p, entry_permission = m\<rparr>"

definition sample_constraints :: network_proxy_constraints where
  "sample_constraints = no_constraints\<lparr>c_allowed_domains := Some [''*.example.com'']\<rparr>"

theorem managed_allowlist_not_widened_witness:
  "(let cfg = default_config\<lparr>domains := Some [entry ''Api.example.com'' PermAllow]\<rparr>
    in validate_policy_against_constraints sample_libs cfg sample_constraints = Ok () \<and>
       (\<exists>allow managed_allow. compile_allowlist_globset sample_libs [''Api.example.com''] = Ok allow \<and>
          compile_allowlist_globset sample_libs [''*.example.com''] = Ok managed_allow \<and>
          globset_is_match sample_libs allow ''api.example.com'' \<and> globset_is_match sample_libs managed_allow ''api.example.com''))"
proof -
  let ?cfg = "default_config\<lparr>domains := Some [entry ''Api.example.com'' PermAllow]\<rparr>"
  have 1: "validate_policy_against_constraints sample_libs ?cfg sample_constraints = Ok ()" by code_simp
  have 2: "unwrap_or_default (allowed_domains ?cfg) = [''Api.example.com'']" by code_simp
  have 3: "compile_allowlist_globset sample_libs [''Api.example.com''] = Ok [(True, False, ''api.example.com'')]" by code_simp
  have 4: "compile_allowlist_globset sample_libs [''*.example.com''] = Ok [(True, False, ''?*.example.com'')]" by code_simp
  have 5: "globset_is_match sample_libs [(True, False, ''api.example.com'')] ''api.example.com''" by code_simp
  have 6: "\<forall>p \<in> set [''*.example.com''] \<union> set (unwrap_or_default (allowed_domains ?cfg)). plain_pattern p"
    unfolding 2 by code_simp
  have "c_allowed_domains sample_constraints = Some [''*.example.com'']" "c_allowlist_expansion_enabled sample_constraints \<noteq> Some True"
    by (simp_all add: sample_constraints_def no_constraints_def)
  from managed_allowlist_not_widened[OF sample_globs_ok sample_url_hosts_ok 1 this 6 3[folded 2] 4 5]
  show ?thesis unfolding Let_def using 1 3 4 5 by blast
qed


end
