(* ===== verification/Network_Props.thy ===== *)
theory Network_Props
  imports Network_Runtime Domain_Globs
begin

text \<open>
  What the running network proxy guarantees: the policy always stays within the managed constraints and in step
  with its compiled sets, blocked requests are kept up to the limit of the buffer, a host that is denied stays
  denied, and no local address is reached unless it is explicitly allowed.
\<close>

section \<open>Sequences of calls\<close>

text \<open>The calls that change the state, each run on its own.\<close>

datatype ('g, 'gs, 'm) proxy_call =
    CallRecord proxy_handle "('g, 'gs, 'm) reload_answer" blocked_request
  | CallDrain "('g, 'gs, 'm) reload_answer"
  | CallRead "('g, 'gs, 'm) reload_answer"
  | CallForceReload "(net_error, ('g, 'gs, 'm) config_state) result"
  | CallReplace "('g, 'gs, 'm) reload_answer" "('g, 'gs, 'm) config_state"
  | CallUpdate rust_str domain_list_kind "('g, 'gs, 'm) reload_answer"
  | CallSetMode network_mode "('g, 'gs, 'm) reload_answer"

definition undisturbed :: "('g, 'gs, 'm) reload_answer \<Rightarrow> ('g, 'gs, 'm) attempt" where
  "undisturbed answer = \<lparr>att_reload = answer, att_others = (\<lambda>st. st)\<rparr>"

fun proxy_step :: "('g, 'gs, 'm, 'z) state_libs_scheme \<Rightarrow> ('g, 'gs, 'm) proxy_call \<Rightarrow> ('g, 'gs, 'm) config_state \<Rightarrow> ('g, 'gs, 'm) config_state" where
  "proxy_step L (CallRecord hdl answer r) st = snd (record_blocked hdl answer r st)"
| "proxy_step L (CallDrain answer) st = snd (drain_blocked answer st)"
| "proxy_step L (CallRead answer) st = snd (blocked_snapshot answer st)"
| "proxy_step L (CallForceReload answer) st = snd (force_reload answer st)"
| "proxy_step L (CallReplace answer new_state) st = snd (replace_config_state answer new_state st)"
| "proxy_step L (CallUpdate raw which answer) st = snd (update_domain_list L raw which [undisturbed answer] st)"
| "proxy_step L (CallSetMode mode answer) st = snd (set_mode_rounds L mode [undisturbed answer] st)"

definition proxy_run :: "('g, 'gs, 'm, 'z) state_libs_scheme \<Rightarrow> ('g, 'gs, 'm) proxy_call list \<Rightarrow> ('g, 'gs, 'm) config_state \<Rightarrow> ('g, 'gs, 'm) config_state" where
  "proxy_run L calls st = fold (proxy_step L) calls st"

lemma reload_blocked [simp]: "reload_if_needed answer st = Ok st' \<Longrightarrow> blocked st' = blocked st"
  by (auto simp: reload_if_needed_def split: sum.splits option.splits)

section \<open>Blocked requests\<close>

text \<open>A log that keeps its newest entries: what a client may rely on, whatever the state behind it.\<close>

locale bounded_log =
  fixes push :: "'r \<Rightarrow> 's \<Rightarrow> 's" and entries :: "'s \<Rightarrow> 'r list" and capacity :: nat
  assumes push_entries: "length (entries s) \<le> capacity \<Longrightarrow> entries (push r s) = last_n capacity (entries s @ [r])"
begin

lemma push_represents:
  assumes "entries s = last_n capacity xs"
  shows "entries (push r s) = last_n capacity (xs @ [r])"
proof -
  have "length (entries s) \<le> capacity" using assms by (simp add: length_last_n)
  then have "entries (push r s) = last_n capacity (last_n capacity xs @ [r])" using push_entries assms by simp
  then show ?thesis by (simp add: last_n_append)
qed

lemma entries_bounded: "length (entries s) \<le> capacity \<Longrightarrow> length (entries (push r s)) \<le> capacity"
  using push_entries by (simp add: length_last_n)

end

lemma trim_blocked_last_n: "trim_blocked rs = last_n MAX_BLOCKED_EVENTS rs"
  by (induction rs) (auto simp: last_n_def Suc_diff_le)

interpretation proxy_log: bounded_log push_blocked blocked MAX_BLOCKED_EVENTS
  by unfold_locales (simp add: push_blocked_def trim_blocked_last_n)

text \<open>What has been recorded and not drained, without a limit.\<close>

fun log_step :: "('g, 'gs, 'm) proxy_call \<Rightarrow> blocked_request list \<Rightarrow> blocked_request list" where
  "log_step (CallRecord hdl answer r) log =
     (case answer of Ok _ \<Rightarrow> log @ [r\<lparr>blk_execution_id := execution_id hdl\<rparr>] | Err _ \<Rightarrow> log)"
| "log_step (CallDrain answer) log = (case answer of Ok _ \<Rightarrow> [] | Err _ \<Rightarrow> log)"
| "log_step _ log = log"

lemma reload_cases:
  obtains e where "answer = Err e" "reload_if_needed answer st = Err e"
  | v st' where "answer = Ok v" "reload_if_needed answer st = Ok st'"
proof (cases answer)
  case (Inr v)
  then show ?thesis using that(2) by (cases v) (simp_all add: reload_if_needed_def)
qed (use that(1) in \<open>simp add: reload_if_needed_def\<close>)

lemma update_rounds_blocked: "blocked (snd (update_rounds L h which [undisturbed answer] st)) = blocked st"
  by (cases rule: reload_cases[of answer st])
     (auto simp: undisturbed_def Let_def split: sum.splits)

lemma update_blocked: "blocked (snd (update_domain_list L raw which [undisturbed answer] st)) = blocked st"
  by (cases "host_parse raw") (simp_all add: update_domain_list_def update_rounds_blocked del: update_rounds.simps)

lemma set_mode_blocked: "blocked (snd (set_mode_rounds L mode [undisturbed answer] st)) = blocked st"
  by (cases rule: reload_cases[of answer st])
     (auto simp: undisturbed_def Let_def split: sum.splits)

lemma last_n_empty [simp]: "last_n n [] = []"
  by (simp add: last_n_def)

lemma proxy_step_log:
  assumes "blocked st = last_n MAX_BLOCKED_EVENTS log"
  shows "blocked (proxy_step L call st) = last_n MAX_BLOCKED_EVENTS (log_step call log)"
proof (cases call)
  case (CallRecord hdl answer r)
  show ?thesis
  proof (cases rule: reload_cases[of answer st])
    case (2 v st')
    then have "blocked st' = last_n MAX_BLOCKED_EVENTS log" using assms by simp
    from proxy_log.push_represents[OF this] 2 CallRecord show ?thesis by (simp add: record_blocked_def after_reload_def)
  qed (use assms CallRecord in \<open>simp add: record_blocked_def after_reload_def\<close>)
next
  case (CallDrain answer)
  then show ?thesis using assms by (cases rule: reload_cases[of answer st]) (simp_all add: drain_blocked_def after_reload_def)
next
  case (CallRead answer)
  then show ?thesis using assms by (cases rule: reload_cases[of answer st]) (simp_all add: blocked_snapshot_def after_reload_def)
next
  case (CallReplace answer new_state)
  then show ?thesis using assms by (cases rule: reload_cases[of answer st]) (simp_all add: replace_config_state_def after_reload_def)
qed (use assms in \<open>simp_all add: force_reload_def update_blocked set_mode_blocked split: sum.splits del: set_mode_rounds.simps\<close>)


definition sample_request :: blocked_request where
  "sample_request = \<lparr>blk_host = ''evil.org'', blk_reason = ''denied'', blk_client = None, blk_method = None, blk_mode = None,
     blk_protocol = ''http'', blk_execution_id = None, blk_decision = None, blk_source = None, blk_port = Some 80, blk_timestamp = 0\<rparr>"

lemma build_blocked: "build_config_state L cfg cs = Ok st \<Longrightarrow> blocked st = []"
  by (auto simp: build_config_state_def bind_result_eq_Inr Let_def split: prod.splits if_splits)

lemma sample_state: "\<exists>st. build_config_state sample_libs default_config no_constraints = Ok st"
proof -
  have "(case build_config_state sample_libs default_config no_constraints of Ok _ \<Rightarrow> True | Err _ \<Rightarrow> False)" by code_simp
  then show ?thesis by (auto split: sum.splits)
qed


section \<open>The policy stays within its constraints\<close>

text \<open>The settings satisfy the constraints, and the compiled sets are those of the settings.\<close>

definition policy_ok :: "('g, 'gs, 'm, 'z) state_libs_scheme \<Rightarrow> ('g, 'gs, 'm) config_state \<Rightarrow> bool" where
  "policy_ok L st \<longleftrightarrow>
     validate_policy_against_constraints L (config st) (constraints st) = Ok () \<and>
     compile_denylist_globset L (unwrap_or_default (denied_domains (config st))) = Ok (deny_set st) \<and>
     compile_allowlist_globset L (unwrap_or_default (allowed_domains (config st))) = Ok (allow_set st)"

lemma non_global_iff: "validate_non_global_wildcard_domain_patterns f ps = Ok () \<longleftrightarrow> (\<forall>p \<in> set ps. \<not> is_global_wildcard_domain_pattern p)"
  by (auto simp: validate_non_global_wildcard_domain_patterns_def find_None_iff find_Some_iff split: option.splits)

lemma lowered_cong: "set a = set b \<Longrightarrow> lowered a = lowered b"
  by (simp add: lowered_def)

lemma check_denied_cong:
  "set a = set b \<Longrightarrow> check_denied_domains cs a = check_denied_domains cs b"
  using lowered_cong[of a b] by (simp only: check_denied_domains_def)

lemma check_allowed_cong:
  "set a = set b \<Longrightarrow> check_allowed_domains L cs c a = check_allowed_domains L cs c b"
  using lowered_cong[of a b] by (simp only: check_allowed_domains_def)

lemma set_allowed_keeps_denied:
  "set (unwrap_or_default (denied_domains (set_allowed_domains ps cfg))) = set (unwrap_or_default (denied_domains cfg))"
proof -
  have push: "PermDeny \<in> set (permissions_of p (fold (push_domain_entry PermAllow) ps es)) \<longleftrightarrow> PermDeny \<in> set (permissions_of p es)"
    for p es by (induction ps arbitrary: es) (auto simp: push_domain_entry_def permissions_of_def)
  have "entries_of (set_allowed_domains ps cfg) =
      fold (push_domain_entry PermAllow) ps (filter (\<lambda>e. entry_permission e \<noteq> PermAllow) (entries_of cfg))"
    by (simp add: entries_of_def set_allowed_domains_def set_domain_entries_def some_unless_empty_def)
  then have "PermDeny \<in> set (permissions_of p (entries_of (set_allowed_domains ps cfg))) \<longleftrightarrow>
      PermDeny \<in> set (permissions_of p (entries_of cfg))" for p
    by (auto simp: push) (auto simp: permissions_of_def)
  then show ?thesis unfolding set_eq_iff denied_domains_iff by blast
qed

text \<open>What the credential broker changes.\<close>

lemma brokered_cases:
  obtains b e where "fst (brokered_config cfg cs) = cfg\<lparr>credential_broker := b, enabled := e\<rparr>" "e = enabled cfg \<or> c_enabled cs \<noteq> Some False"
  | b e where "fst (brokered_config cfg cs) = set_allowed_domains [''*''] (cfg\<lparr>credential_broker := b, enabled := e\<rparr>)"
      "e = enabled cfg \<or> c_enabled cs \<noteq> Some False" "c_allowed_domains cs = None"
proof -
  have same: "cfg\<lparr>enabled := True\<rparr> = cfg\<lparr>credential_broker := credential_broker cfg, enabled := True\<rparr>"
    by simp
  consider "c_enabled cs = Some False" | "c_enabled cs \<noteq> Some False" "credential_broker cfg \<and> \<not> enabled cfg"
      "allowed_domains cfg = None \<and> c_allowed_domains cs = None"
    | "c_enabled cs \<noteq> Some False" "credential_broker cfg \<and> \<not> enabled cfg" "\<not> (allowed_domains cfg = None \<and> c_allowed_domains cs = None)"
    | "c_enabled cs \<noteq> Some False" "\<not> (credential_broker cfg \<and> \<not> enabled cfg)" by blast
  then show ?thesis
  proof cases
    case 1
    then have "fst (brokered_config cfg cs) = cfg\<lparr>credential_broker := False, enabled := enabled cfg\<rparr>"
      by (simp add: brokered_config_def)
    then show ?thesis by (rule that(1)) simp
  next
    case 2
    then have "fst (brokered_config cfg cs) = set_allowed_domains [''*''] (cfg\<lparr>enabled := True\<rparr>)" by (simp add: brokered_config_def)
    then show ?thesis using that(2)[of "credential_broker cfg" True] 2 same(1) by simp
  next
    case 3
    then have "fst (brokered_config cfg cs) = cfg\<lparr>enabled := True\<rparr>" by (auto simp: brokered_config_def)
    then show ?thesis using that(1)[of "credential_broker cfg" True] 3 same(1) by simp
  next
    case 4
    then have "fst (brokered_config cfg cs) = cfg\<lparr>credential_broker := credential_broker cfg, enabled := enabled cfg\<rparr>"
      by (auto simp: brokered_config_def Let_def)
    then show ?thesis by (rule that(1)) simp
  qed
qed

lemma broker_fields:
  "denied_domains (cfg\<lparr>credential_broker := b, enabled := e\<rparr>) = denied_domains cfg"
  "allowed_domains (cfg\<lparr>credential_broker := b, enabled := e\<rparr>) = allowed_domains cfg"
  by (simp_all add: denied_domains_def allowed_domains_def domain_entries_def)

lemma policy_ok_iff:
  "validate_policy_against_constraints L cfg cs = Ok () \<longleftrightarrow> (\<forall>r \<in> set (policy_checks L cfg cs). r = Ok ())"
  by (simp only: validate_policy_against_constraints_def first_error_Ok)

lemma brokered_keeps_denied:
  "set (unwrap_or_default (denied_domains (fst (brokered_config cfg cs)))) = set (unwrap_or_default (denied_domains cfg))"
  by (cases rule: brokered_cases[of cfg cs]) (simp_all only: set_allowed_keeps_denied broker_fields)

text \<open>The checks look at a few settings only; the denied domains may be listed in any order.\<close>

lemma valid_transfer:
  assumes "validate_policy_against_constraints L cfg cs = Ok ()"
    and same: "network_mode_of cfg' = network_mode_of cfg" "allow_upstream_proxy cfg' = allow_upstream_proxy cfg"
      "dangerously_allow_non_loopback_proxy cfg' = dangerously_allow_non_loopback_proxy cfg"
      "dangerously_allow_all_unix_sockets cfg' = dangerously_allow_all_unix_sockets cfg"
      "allow_local_binding cfg' = allow_local_binding cfg" "mitm cfg' = mitm cfg" "mitm_hooks cfg' = mitm_hooks cfg"
      "unix_sockets cfg' = unix_sockets cfg"
    and denied: "set (unwrap_or_default (denied_domains cfg')) = set (unwrap_or_default (denied_domains cfg))"
    and on: "enabled cfg' = enabled cfg \<or> c_enabled cs \<noteq> Some False"
    and allowed: "check_allowed_domains L cs (unwrap_or_default (allowed_domains cfg')) (unwrap_or_default (denied_domains cfg')) = Ok ()"
  shows "validate_policy_against_constraints L cfg' cs = Ok ()"
proof -
  have h: "validate_mitm_hook_config L cfg' = validate_mitm_hook_config L cfg" "allow_unix_sockets cfg' = allow_unix_sockets cfg"
    by (simp_all only: validate_mitm_hook_config_def allow_unix_sockets_def same)
  note c = assms(1)[unfolded policy_ok_iff policy_checks_def Let_def list.set ball_simps]
  have "ensure ''network.enabled'' (\<not> (enabled cfg' \<and> c_enabled cs = Some False)) = (Ok () :: (net_error, unit) result)"
    using on c by (auto split: if_splits)
  then show ?thesis
    unfolding policy_ok_iff policy_checks_def Let_def list.set ball_simps h same check_denied_cong[OF denied] non_global_iff denied
    using c allowed unfolding non_global_iff by blast
qed

text \<open>A policy that satisfies the constraints still does after the broker's changes.\<close>

lemma brokered_valid:
  assumes "validate_policy_against_constraints L cfg cs = Ok ()"
  shows "validate_policy_against_constraints L (fst (brokered_config cfg cs)) cs = Ok ()"
proof (cases rule: brokered_cases[of cfg cs])
  case (1 b e)
  have "check_allowed_domains L cs (unwrap_or_default (allowed_domains cfg)) (unwrap_or_default (denied_domains cfg)) = Ok ()"
    using assms unfolding policy_ok_iff policy_checks_def Let_def by simp
  then show ?thesis unfolding 1(1) using 1(2)
    by (intro valid_transfer[OF assms]) (simp_all only: broker_fields, simp_all)
next
  case (2 b e)
  have "check_allowed_domains L cs x y = Ok ()" for x y using 2(3) by (simp add: check_allowed_domains_def)
  then show ?thesis unfolding 2(1) using 2(2)
    by (intro valid_transfer[OF assms])
       (simp_all only: set_allowed_keeps_denied broker_fields, simp_all add: set_allowed_domains_def set_domain_entries_def)
qed

lemma build_policy_ok:
  assumes "validate_policy_against_constraints L cfg cs = Ok ()" "build_config_state L cfg cs = Ok st"
  shows "policy_ok L st" "constraints st = cs" "config st = fst (brokered_config cfg cs)"
proof -
  from assms(2) show c: "config st = fst (brokered_config cfg cs)" "constraints st = cs"
    by (auto simp: build_config_state_def bind_result_eq_Inr Let_def split: prod.splits if_splits)
  have "compile_denylist_globset L (unwrap_or_default (denied_domains (config st))) = Ok (deny_set st)"
    "compile_allowlist_globset L (unwrap_or_default (allowed_domains (config st))) = Ok (allow_set st)"
    using assms(2) by (auto simp: build_config_state_def bind_result_eq_Inr Let_def split: prod.splits if_splits)
  then show "policy_ok L st" using brokered_valid[OF assms(1)] c by (simp add: policy_ok_def)
qed

text \<open>What the calls bring in from outside satisfies the constraints: reloaded and replacing states.\<close>

fun answer_ok :: "('g, 'gs, 'm, 'z) state_libs_scheme \<Rightarrow> ('g, 'gs, 'm) reload_answer \<Rightarrow> bool" where
  "answer_ok L (Ok (Some st)) = policy_ok L st"
| "answer_ok L _ = True"

fun call_ok :: "('g, 'gs, 'm, 'z) state_libs_scheme \<Rightarrow> ('g, 'gs, 'm) proxy_call \<Rightarrow> bool" where
  "call_ok L (CallRecord _ answer _) = answer_ok L answer"
| "call_ok L (CallDrain answer) = answer_ok L answer"
| "call_ok L (CallRead answer) = answer_ok L answer"
| "call_ok L (CallForceReload answer) = (case answer of Ok st \<Rightarrow> policy_ok L st | Err _ \<Rightarrow> True)"
| "call_ok L (CallReplace answer new_state) = (answer_ok L answer \<and> policy_ok L new_state)"
| "call_ok L (CallUpdate _ _ answer) = answer_ok L answer"
| "call_ok L (CallSetMode _ answer) = answer_ok L answer"

lemma policy_ok_cong:
  "config st' = config st \<Longrightarrow> constraints st' = constraints st \<Longrightarrow> deny_set st' = deny_set st \<Longrightarrow> allow_set st' = allow_set st \<Longrightarrow>
     policy_ok L st' = policy_ok L st"
  by (simp add: policy_ok_def)

lemma policy_ok_blocked [simp]: "policy_ok L (st\<lparr>blocked := b\<rparr>) = policy_ok L st" "policy_ok L (st\<lparr>blocked_total := n\<rparr>) = policy_ok L st"
  by (simp_all add: policy_ok_def)

lemma reload_policy_ok:
  "answer_ok L answer \<Longrightarrow> policy_ok L st \<Longrightarrow> reload_if_needed answer st = Ok st' \<Longrightarrow> policy_ok L st'"
  by (cases "(L, answer)" rule: answer_ok.cases) (auto simp: reload_if_needed_def)

lemma after_reload_policy_ok:
  assumes "answer_ok L answer" "policy_ok L st" "\<And>st. policy_ok L st \<Longrightarrow> policy_ok L (snd (f st))"
  shows "policy_ok L (snd (after_reload answer st f))"
proof (cases "reload_if_needed answer st")
  case (Inr st')
  then show ?thesis using assms(3)[OF reload_policy_ok[OF assms(1,2) Inr]] by (simp add: after_reload_def)
qed (use assms(2) in \<open>simp add: after_reload_def\<close>)

lemma update_rounds_policy_ok:
  assumes "answer_ok L answer" "policy_ok L st"
  shows "policy_ok L (snd (update_rounds L h which [undisturbed answer] st))"
proof (cases "reload_if_needed answer st")
  case (Inr st')
  then have ok: "policy_ok L st'" using reload_policy_ok assms by blast
  let ?c = "upsert_domain_permission h (kind_permission which) normalize_host (config st')"
  show ?thesis
  proof (cases "bind_result (validate_policy_against_constraints L ?c (constraints st')) (\<lambda>_. build_config_state L ?c (constraints st'))")
    case (Inr new_state)
    then have "policy_ok L new_state" using build_policy_ok(1) by (auto simp: bind_result_eq_Inr)
    with ok Inr \<open>reload_if_needed answer st = Ok st'\<close> show ?thesis by (simp add: undisturbed_def Let_def)
  qed (use ok \<open>reload_if_needed answer st = Ok st'\<close> in \<open>simp add: undisturbed_def Let_def\<close>)
qed (use assms in \<open>simp add: undisturbed_def\<close>)

lemma set_mode_policy_ok:
  assumes "answer_ok L answer" "policy_ok L st"
  shows "policy_ok L (snd (set_mode_rounds L mode [undisturbed answer] st))"
proof (cases "reload_if_needed answer st")
  case (Inr st')
  then have ok: "policy_ok L st'" using reload_policy_ok assms by blast
  have "denied_domains (c\<lparr>network_mode_of := mode\<rparr>) = denied_domains c" "allowed_domains (c\<lparr>network_mode_of := mode\<rparr>) = allowed_domains c" for c
    by (simp_all add: denied_domains_def allowed_domains_def domain_entries_def)
  then have "policy_ok L (st'\<lparr>config := (config st')\<lparr>network_mode_of := mode\<rparr>\<rparr>)"
    if "validate_policy_against_constraints L ((config st')\<lparr>network_mode_of := mode\<rparr>) (constraints st') = Ok ()"
    using ok that by (simp add: policy_ok_def)
  with ok Inr show ?thesis by (auto simp: undisturbed_def Let_def split: sum.splits)
qed (use assms in \<open>simp add: undisturbed_def\<close>)

lemma proxy_step_policy_ok: "call_ok L call \<Longrightarrow> policy_ok L st \<Longrightarrow> policy_ok L (proxy_step L call st)"
proof (cases call)
  case (CallUpdate raw which answer)
  assume "call_ok L call" "policy_ok L st"
  then show ?thesis using CallUpdate update_rounds_policy_ok
    by (cases "host_parse raw") (simp_all add: update_domain_list_def del: update_rounds.simps)
qed (auto simp: record_blocked_def drain_blocked_def blocked_snapshot_def replace_config_state_def push_blocked_def force_reload_def
       set_mode_policy_ok simp del: set_mode_rounds.simps split: sum.splits intro!: after_reload_policy_ok)

text \<open>
  C10. The running policy never leaves its managed constraints: started from settings that satisfy them, and fed
  only reloads and replacements that do, the proxy's settings satisfy the constraints after any sequence of
  calls, whatever hosts users ask to allow or deny and whatever mode they ask for, and the allow and
  deny sets it decides with are the compiled sets of those settings.
\<close>

theorem policy_stays_within_constraints:
  assumes "validate_policy_against_constraints L cfg cs = Ok ()" "build_config_state L cfg cs = Ok st"
    and "list_all (call_ok L) calls" "proxy_run L calls st = st'"
  shows "validate_policy_against_constraints L (config st') (constraints st') = Ok () \<and>
    compile_denylist_globset L (unwrap_or_default (denied_domains (config st'))) = Ok (deny_set st') \<and>
    compile_allowlist_globset L (unwrap_or_default (allowed_domains (config st'))) = Ok (allow_set st')"
proof -
  have "policy_ok L (fold (proxy_step L) calls st)" if "policy_ok L st" for st
    using that assms(3) by (induction calls arbitrary: st) (simp_all add: proxy_step_policy_ok)
  from this[OF build_policy_ok(1)[OF assms(1,2)]] assms(4) show ?thesis by (simp add: proxy_run_def policy_ok_def)
qed

theorem policy_stays_within_constraints_witness:
  "\<exists>st. build_config_state sample_libs default_config sample_constraints = Ok st \<and>
     (let st' = proxy_run sample_libs [CallUpdate ''api.example.com'' AllowList (Ok None), CallUpdate ''evil.org'' AllowList (Ok None)] st
      in validate_policy_against_constraints sample_libs (config st') (constraints st') = Ok () \<and>
         compile_denylist_globset sample_libs (unwrap_or_default (denied_domains (config st'))) = Ok (deny_set st') \<and>
         compile_allowlist_globset sample_libs (unwrap_or_default (allowed_domains (config st'))) = Ok (allow_set st'))"
proof -
  have 1: "validate_policy_against_constraints sample_libs default_config sample_constraints = Ok ()" by code_simp
  have "(case build_config_state sample_libs default_config sample_constraints of Ok _ \<Rightarrow> True | Err _ \<Rightarrow> False)" by code_simp
  then obtain st where st: "build_config_state sample_libs default_config sample_constraints = Ok st" by (auto split: sum.splits)
  have "list_all (call_ok sample_libs) [CallUpdate ''api.example.com'' AllowList (Ok None), CallUpdate ''evil.org'' AllowList (Ok None)]"
    by simp
  from policy_stays_within_constraints[OF 1 st this refl] st show ?thesis unfolding Let_def by blast
qed

section \<open>Which hosts are let through\<close>

text \<open>The addresses a connection to the host may reach, as the check sees them.\<close>

definition resolves_publicly :: "(rust_str \<Rightarrow> nat \<Rightarrow> lookup_answer) \<Rightarrow> rust_str \<Rightarrow> nat \<Rightarrow> bool" where
  "resolves_publicly lookup h port \<longleftrightarrow>
     (case parse_ip h of
        Some ip \<Rightarrow> \<not> is_non_public_ip ip
      | None \<Rightarrow> (\<exists>addrs. lookup h port = Addresses addrs \<and> (\<forall>ip \<in> set addrs. \<not> is_non_public_ip ip)))"

lemma resolves_iff: "host_resolves_to_non_public_ip lookup h port \<longleftrightarrow> \<not> resolves_publicly lookup h port"
  by (auto simp: host_resolves_to_non_public_ip_def resolves_publicly_def list_ex_iff split: option.splits lookup_answer.splits)

text \<open>
  The host check lets a request through in exactly these cases: the normalised host is not empty, the deny
  set matches neither it nor its address without scope, an allowlist is configured and matches, and, unless
  local binding is allowed, the host is either a local name or address that is allowlisted by its exact
  name, or it is, or resolves to, public addresses only. A lookup that fails or times out lets nothing through.
\<close>

theorem host_allowed_iff:
  "decide_host L lookup st raw port = Allowed \<longleftrightarrow>
     (let h = normalize_host raw
      in h \<noteq> [] \<and> \<not> globset_matches_host_or_unscoped L (deny_set st) h \<and>
         allowed_domains (config st) \<noteq> None \<and> globset_matches_host_or_unscoped L (allow_set st) h \<and>
         (allow_local_binding (config st) \<or>
          (if local_literal h then is_explicit_local_allowlisted (unwrap_or_default (allowed_domains (config st))) h
           else resolves_publicly lookup h port)))"
  by (auto simp: decide_host_def host_parse_def Let_def resolves_iff split: if_splits)

text \<open>
  The interactive decider can only widen what the allowlist leaves open: when a request is let through, either
  the host check allowed it, or the host was merely not on the allowlist and the decider said yes. A denied host
  and a local or private destination are refused without the decider being asked.
\<close>

theorem decider_cannot_override_denials:
  assumes "evaluate_host_policy L lookup hdl decider answer req st = (Ok NetAllow, st')"
  shows "reload_if_needed answer st = Ok st' \<and>
    (decide_host L lookup st' (pol_host req) (pol_port req) = Allowed \<or>
     decide_host L lookup st' (pol_host req) (pol_port req) = Blocked NotAllowed \<and>
     (\<exists>decide. decider = Some decide \<and> decide (decider_request hdl req) = NetAllow))"
proof (cases "reload_if_needed answer st")
  case (Inr st1)
  have "map_decider_decision d = NetAllow \<longleftrightarrow> d = NetAllow" for d by (cases d) simp_all
  then show ?thesis
    using assms Inr
    by (cases "decide_host L lookup st1 (pol_host req) (pol_port req)")
       (auto simp: evaluate_host_policy_def host_blocked_def after_reload_def deny_with_source_def
         split: host_block_reason.splits option.splits)
qed (use assms in \<open>simp add: evaluate_host_policy_def host_blocked_def after_reload_def\<close>)



section \<open>Denied domains\<close>

lemma normalize_host_trim: "normalize_host (trim s) = normalize_host s"
  by (simp add: normalize_host_def)

lemma trim_end_matches_Cons: "c \<noteq> d \<Longrightarrow> trim_end_matches d (c # cs) = c # trim_end_matches d cs"
  by (cases "\<forall>y \<in> set cs. y = d") (auto simp: trim_end_matches_def dropWhile_append)

lemma split_once_star: "split_once_str (CHR ''%'' # d) (CHR ''*'' # ys) = Some (ip, scope) \<Longrightarrow> CHR ''*'' \<in> set ip"
  by auto

lemma scoped_star: "scoped_literal (CHR ''%'' # d) (CHR ''*'' # ys) = Some ip \<Longrightarrow> CHR ''*'' \<in> set ip"
  using split_once_star[of d ys] by (auto simp: scoped_literal_def simp del: split_once_str.simps split: option.splits if_splits)

lemma normalize_dns_star: "CHR ''*'' \<in> set (normalize_dns_host_or_ip_literal (CHR ''*'' # xs))"
proof -
  have "ascii_lower CHR ''*'' = CHR ''*''" by (simp add: ascii_lower_def)
  then obtain ys where low: "trim_end_matches CHR ''.'' (to_ascii_lowercase (CHR ''*'' # xs)) = CHR ''*'' # ys"
    by (simp add: trim_end_matches_Cons)
  show ?thesis unfolding normalize_dns_host_or_ip_literal_def Let_def low
    using scoped_star by (auto simp: normalize_ip_literal_def split: option.splits)
qed

lemma normalize_host_star: "trim s = CHR ''*'' # xs \<Longrightarrow> CHR ''*'' \<in> set (normalize_host s)"
proof -
  assume s: "trim s = CHR ''*'' # xs"
  obtain ys where "hd (split_on CHR '':'' (trim s)) = CHR ''*'' # ys"
    using s by (cases "split_on CHR '':'' xs") auto
  then show ?thesis using s normalize_dns_star by (simp add: normalize_host_def Let_def)
qed

text \<open>An entry that normalises to a host without wildcards is compiled to that host.\<close>

lemma normalize_pattern_host:
  assumes "CHR ''*'' \<notin> set (normalize_host e)"
  shows "normalize_pattern e = normalize_host e"
proof -
  have "\<not> prefix ''*'' (trim e)" using normalize_host_star[of e] assms by (auto simp: prefix_def)
  then have "trim e \<noteq> ''*''" "strip_prefix ''**.'' (trim e) = None" "strip_prefix ''*.'' (trim e) = None"
    by (auto simp: strip_prefix_def prefix_def)
  then show ?thesis by (simp add: normalize_pattern_def Let_def normalize_host_trim)
qed

lemma denied_entry_blocks:
  assumes "globs_ok L" "compile_denylist_globset L ps = Ok s" "e \<in> set ps" "normalize_host e = h" "dns_name h"
    "to_ascii_lowercase h = h"
  shows "globset_is_match L s h"
proof -
  note c = assms(2)[unfolded compile_denylist_globset_def]
  have "normalize_pattern e = h" using normalize_pattern_host[of e] dns_name_avoids(1)[OF assms(5)] assms(4) by simp
  then have x: "expand_domain_pattern (normalize_pattern e) = [h]" by (simp add: expand_domain_pattern_def parse_plain(1)[OF assms(5)])
  then obtain g where "glob_build L True False h = Some g" using compiled_set_builds[OF c assms(3)] by auto
  moreover from this have "glob_is_match L g h" using globs_ok_literal[OF assms(1) literal_dns[OF assms(5)]] by (simp add: eq_ignore_ascii_case_def)
  ultimately have "pattern_matches L e h" by (auto simp: pattern_matches_def x)
  then show ?thesis using compiled_set_matches[OF assms(1) c] assms(3) by blast
qed

lemma decide_denied:
  assumes "globset_is_match L (deny_set st) h" "normalize_host raw = h" "h \<noteq> []"
  shows "decide_host L lookup st raw port = Blocked Denied"
  using assms by (simp add: decide_host_def host_parse_def Let_def globset_matches_host_or_unscoped_def)

lemma denied_pattern_blocks:
  assumes "globs_ok L" "policy_ok L st"
    and "\<lparr>entry_pattern = p, entry_permission = PermDeny\<rparr> \<in> set (entries_of (config st))" "plain_pattern p"
    and "to_ascii_lowercase (normalize_host raw) \<in> hosts_of (domain_pattern_parse p)"
  shows "decide_host L lookup st raw port = Blocked Denied"
proof -
  have p: "p \<in> set (unwrap_or_default (denied_domains (config st)))"
    unfolding denied_domains_iff using assms(3) by (force simp: permissions_of_def)
  have c: "compile_globset_with_policy L (unwrap_or_default (denied_domains (config st))) RejectGlobal = Ok (deny_set st)"
    using assms(2) by (simp add: policy_ok_def compile_denylist_globset_def)
  have "pattern_matches L p (normalize_host raw)"
    using plain_pattern_matches[OF assms(1,4)] compiled_set_builds[OF c p] assms(5) by blast
  then have "globset_is_match L (deny_set st) (normalize_host raw)" using compiled_set_matches[OF assms(1) c] p by blast
  moreover have "normalize_host raw \<noteq> []"
    using assms(4,5) by (cases rule: plain_pattern_cases)
      (auto simp: parse_plain normalize_domain_dns in_below dest: dns_name_ne simp del: append.simps)
  ultimately show ?thesis by (rule decide_denied[OF _ refl])
qed

text \<open>
  C11. A denial always wins: a request to a host that a deny entry names, or that lies below it when the entry has a
  wildcard prefix, is refused with the reason \<open>denied\<close>. The allowlist, local binding and the resolver make
  no difference, and the interactive decider is not asked.
\<close>

theorem denied_domains_are_refused:
  assumes "globs_ok L" "policy_ok L st"
    and "\<lparr>entry_pattern = p, entry_permission = PermDeny\<rparr> \<in> set (entries_of (config st))" "plain_pattern p"
    and "to_ascii_lowercase (normalize_host (pol_host req)) \<in> hosts_of (domain_pattern_parse p)"
  shows "evaluate_host_policy L lookup hdl decider (Ok None) req st = (Ok (NetDeny ''denied'' BaselinePolicy DecisionDeny), st)"
  using denied_pattern_blocks[OF assms]
  by (simp add: evaluate_host_policy_def host_blocked_def after_reload_def reload_if_needed_def deny_with_source_def reason_or_default_def)

definition sample_policy_request :: "rust_str \<Rightarrow> network_policy_request" where
  "sample_policy_request h = \<lparr>pol_protocol = ProtoHttp, pol_host = h, pol_port = 443, pol_environment_id = None, pol_client_addr = None,
     pol_method = None, pol_command = None, pol_exec_policy_hint = None, pol_execution_id = None\<rparr>"

theorem denied_domains_are_refused_witness:
  "\<exists>st. policy_ok sample_libs st \<and> allowed_domains (config st) = Some [''*''] \<and>
     evaluate_host_policy sample_libs (\<lambda>_ _. Addresses []) \<lparr>environment_id = None, execution_id = None\<rparr> (Some (\<lambda>_. NetAllow)) (Ok None)
       (sample_policy_request ''Api.Example.com:443'') st = (Ok (NetDeny ''denied'' BaselinePolicy DecisionDeny), st)"
proof -
  let ?cfg = "default_config\<lparr>domains := Some [entry ''*'' PermAllow, entry ''*.example.com'' PermDeny]\<rparr>"
  have 1: "validate_policy_against_constraints sample_libs ?cfg no_constraints = Ok ()" by code_simp
  have "(case build_config_state sample_libs ?cfg no_constraints of Ok _ \<Rightarrow> True | Err _ \<Rightarrow> False)" by code_simp
  then obtain st where st: "build_config_state sample_libs ?cfg no_constraints = Ok st" by (auto split: sum.splits)
  note ok = build_policy_ok[OF 1 st]
  have cfg: "config st = ?cfg" unfolding ok(3) by (simp add: brokered_config_def no_constraints_def default_config_def)
  have "entry ''*.example.com'' PermDeny \<in> set (entries_of (config st))" unfolding cfg by (simp add: entries_of_def)
  moreover have "allowed_domains (config st) = Some [''*'']" unfolding cfg by code_simp
  moreover have "plain_pattern ''*.example.com''" by code_simp
  moreover have "domain_pattern_parse ''*.example.com'' = SubdomainsOnly ''example.com''"
    "to_ascii_lowercase (normalize_host ''Api.Example.com:443'') = ''api.example.com''" "normalize_domain ''example.com'' = ''example.com''"
    by code_simp+
  moreover from this have "to_ascii_lowercase (normalize_host (pol_host (sample_policy_request ''Api.Example.com:443''))) \<in>
      hosts_of (domain_pattern_parse ''*.example.com'')"
    by (simp add: in_below sample_policy_request_def del: list.map)
  ultimately show ?thesis using denied_domains_are_refused[OF sample_globs_ok ok(1)] ok(1) by blast
qed

section \<open>Adding to the denylist\<close>

lemma upsert_denied:
  "h \<in> set (unwrap_or_default (denied_domains (upsert_domain_permission h PermDeny norm cfg)))"
  unfolding denied_domains_iff by (simp add: upsert_domain_permission_def entries_of_def some_unless_empty_def permissions_of_def)

lemma contains_denied: "contains_host (kind_entries DenyList cfg) h \<Longrightarrow> \<exists>e \<in> set (unwrap_or_default (denied_domains cfg)). normalize_host e = h"
  by (auto simp: contains_host_def list_ex_iff)

definition attempts_ok :: "('g, 'gs, 'm, 'z) state_libs_scheme \<Rightarrow> ('g, 'gs, 'm) attempt list \<Rightarrow> bool" where
  "attempts_ok L as \<longleftrightarrow> (\<forall>a \<in> set as. answer_ok L (att_reload a) \<and> (\<forall>st. policy_ok L st \<longrightarrow> policy_ok L (att_others a st)))"

lemma update_round_cases:
  assumes "update_rounds L h which (a # as) st = (Some (Ok ()), st')" "reload_if_needed (att_reload a) st = Ok st1"
  obtains (present) "st' = st1" "contains_host (kind_entries which (config st1)) h"
  | (retry) "update_rounds L h which as (att_others a st1) = (Some (Ok ()), st')"
  | (committed) new_state where
      "validate_policy_against_constraints L (upsert_domain_permission h (kind_permission which) normalize_host (config st1)) (constraints st1) = Ok ()"
      "build_config_state L (upsert_domain_permission h (kind_permission which) normalize_host (config st1)) (constraints st1) = Ok new_state"
      "st' = new_state\<lparr>blocked := blocked st1, blocked_total := blocked_total st1\<rparr>"
proof (cases "contains_host (kind_entries which (config st1)) h \<and> \<not> contains_host (kind_opposite_entries which (config st1)) h")
  case True
  then have "st' = st1" using assms by simp
  with True show ?thesis using present by blast
next
  case False
  let ?c = "upsert_domain_permission h (kind_permission which) normalize_host (config st1)"
  let ?r = "bind_result (validate_policy_against_constraints L ?c (constraints st1)) (\<lambda>_. build_config_state L ?c (constraints st1))"
  obtain new_state where n: "?r = Ok new_state" using assms False by (cases ?r) (simp_all only: update_rounds.simps sum.case if_False Let_def, simp)
  then have built: "validate_policy_against_constraints L ?c (constraints st1) = Ok ()" "build_config_state L ?c (constraints st1) = Ok new_state"
    by (simp_all add: bind_result_eq_Inr)
  show ?thesis
  proof (cases "constraints (att_others a st1) \<noteq> constraints st1 \<or> config (att_others a st1) \<noteq> config st1")
    case True
    then have "update_rounds L h which as (att_others a st1) = (Some (Ok ()), st')"
      using assms False n by (simp only: update_rounds.simps sum.case if_False if_True Let_def)
    then show ?thesis by (rule retry)
  next
    case same: False
    then have "st' = new_state\<lparr>blocked := blocked st1, blocked_total := blocked_total st1\<rparr>"
      using assms False n by (simp only: update_rounds.simps sum.case if_False Let_def) simp
    with built show ?thesis by (rule committed)
  qed
qed

lemma deny_rounds:
  assumes "update_rounds L h DenyList as st = (Some (Ok ()), st')" "policy_ok L st" "attempts_ok L as"
    and "normalize_host h = h"
  shows "policy_ok L st' \<and> (\<exists>e \<in> set (unwrap_or_default (denied_domains (config st'))). normalize_host e = h)"
  using assms(1-3)
proof (induction as arbitrary: st)
  case (Cons a as)
  from Cons.prems(1) obtain st1 where st1: "reload_if_needed (att_reload a) st = Ok st1" by (auto split: sum.splits)
  then have ok: "policy_ok L st1" using reload_policy_ok Cons.prems(2,3) by (auto simp: attempts_ok_def)
  from Cons.prems(1) st1 show ?case
  proof (cases rule: update_round_cases)
    case present
    then show ?thesis using ok contains_denied by blast
  next
    case retry
    then show ?thesis using Cons.IH ok Cons.prems(3) by (auto simp: attempts_ok_def)
  next
    case (committed new_state)
    note b = build_policy_ok[OF committed(1,2)]
    have "set (unwrap_or_default (denied_domains (config new_state))) =
        set (unwrap_or_default (denied_domains (upsert_domain_permission h PermDeny normalize_host (config st1))))"
      using brokered_keeps_denied b(3) by (simp only: kind_permission.simps)
    then have "h \<in> set (unwrap_or_default (denied_domains (config new_state)))"
      using upsert_denied[of h normalize_host "config st1"] by (simp only:)
    then show ?thesis using b(1) committed(3) assms(4) by auto
  qed
qed simp

text \<open>
  C12. Denying a host takes effect: when \<open>add_denied_domain\<close> returns successfully for a domain name, that name is
  refused as denied in every spelling that normalises to it, even if the allowlist names it. This holds
  however many rounds the update needs while other tasks change the policy.
\<close>

theorem added_denial_takes_effect:
  assumes "globs_ok L" "policy_ok L st" "attempts_ok L attempts" "dns_name raw"
    and "update_domain_list L raw DenyList attempts st = (Some (Ok ()), st')"
    and "normalize_host other = normalize_host raw"
  shows "decide_host L lookup st' other port = Blocked Denied"
proof -
  let ?h = "to_ascii_lowercase raw"
  have h: "normalize_host raw = ?h" "dns_name ?h" "normalize_host ?h = ?h" "?h \<noteq> []"
    using assms(4) dns_name_lower[OF assms(4)] normalize_host_dns dns_name_ne by auto
  then have "update_rounds L ?h DenyList attempts st = (Some (Ok ()), st')"
    using assms(5) by (simp add: update_domain_list_def host_parse_def Let_def del: update_rounds.simps)
  from deny_rounds[OF this assms(2,3) h(3)] obtain e where
    e: "policy_ok L st'" "e \<in> set (unwrap_or_default (denied_domains (config st')))" "normalize_host e = ?h" by blast
  have "compile_denylist_globset L (unwrap_or_default (denied_domains (config st'))) = Ok (deny_set st')"
    using e(1) by (simp only: policy_ok_def)
  from denied_entry_blocks[OF assms(1) this e(2,3) h(2)] have "globset_is_match L (deny_set st') ?h" by simp
  then show ?thesis using decide_denied h(1,4) assms(6) by metis
qed

definition sample_built :: "network_proxy_config \<Rightarrow> (bool \<times> bool \<times> rust_str) list \<Rightarrow>
    (bool \<times> bool \<times> rust_str, (bool \<times> bool \<times> rust_str) list, unit) config_state" where
  "sample_built cfg deny = \<lparr>config = cfg, brokerage_created_default_allowlist = False, allow_set = [], deny_set = deny,
     mitm_state = None, hooks_by_host = [], constraints = no_constraints, blocked = [], blocked_total = 0\<rparr>"

definition sample_denying :: network_proxy_config where
  "sample_denying = default_config\<lparr>domains := Some [entry ''evil.org'' PermDeny]\<rparr>"

lemma sample_update:
  "validate_policy_against_constraints sample_libs default_config no_constraints = Ok ()"
  "validate_policy_against_constraints sample_libs sample_denying no_constraints = Ok ()"
  "build_config_state sample_libs default_config no_constraints = Ok (sample_built default_config [])"
  "build_config_state sample_libs sample_denying no_constraints = Ok (sample_built sample_denying [(True, False, ''evil.org'')])"
  "host_parse ''evil.org'' = Ok ''evil.org''"
  "contains_host (kind_entries DenyList default_config) ''evil.org'' = False"
  "upsert_domain_permission ''evil.org'' PermDeny normalize_host default_config = sample_denying"
  by code_simp+

theorem added_denial_takes_effect_witness:
  "\<exists>st'. update_domain_list sample_libs ''evil.org'' DenyList [undisturbed (Ok None)] (sample_built default_config []) = (Some (Ok ()), st') \<and>
     decide_host sample_libs (\<lambda>_ _. LookupFailed) st' ''EVIL.org.'' 80 = Blocked Denied"
proof -
  note ok = build_policy_ok(1)[OF sample_update(1,3)]
  obtain st' where u: "update_domain_list sample_libs ''evil.org'' DenyList [undisturbed (Ok None)] (sample_built default_config []) = (Some (Ok ()), st')"
    using sample_update by (simp add: update_domain_list_def undisturbed_def reload_if_needed_def sample_built_def Let_def)
  have "attempts_ok sample_libs [undisturbed (Ok None)]" by (simp add: attempts_ok_def undisturbed_def)
  moreover have "dns_name ''evil.org''" "normalize_host ''EVIL.org.'' = normalize_host ''evil.org''" by code_simp+
  ultimately show ?thesis using added_denial_takes_effect[OF sample_globs_ok ok _ _ u] u by blast
qed

text \<open>
  The update commits the list of blocked requests it read before it compiled the new policy, and
  compares only the settings and constraints when it takes the lock again: a request that another task
  records in between is dropped.
\<close>

theorem update_drops_concurrent_record:
  assumes "update_domain_list L raw which [\<lparr>att_reload = Ok None, att_others = push_blocked r\<rparr>] st = (Some (Ok ()), st')"
    and "\<not> contains_host (kind_entries which (config st)) (normalize_host raw)"
  shows "blocked st' = blocked st \<and> blocked_total st' = blocked_total st"
proof -
  have "update_rounds L (normalize_host raw) which [\<lparr>att_reload = Ok None, att_others = push_blocked r\<rparr>] st = (Some (Ok ()), st')"
    using assms(1) by (auto simp: update_domain_list_def host_parse_def Let_def simp del: update_rounds.simps split: if_splits)
  then show ?thesis
  proof (rule update_round_cases)
    show "reload_if_needed (att_reload \<lparr>att_reload = Ok None, att_others = push_blocked r\<rparr>) st = Ok st" by (simp add: reload_if_needed_def)
  qed (use assms(2) in auto)
qed

end
