(* ===== verification/Spec2Isabelle.thy ===== *)
theory Spec2Isabelle
  imports Patch_Roundtrip Turn_Diff_Props Exec_Policy_Props Policy_Parser Policy_Amend Assistant_Text Utf8_Stream
    Head_Tail_Buffer Truncation Agent_Registry Context_Manager Command_Approval_Props
    Network_Props
begin

text \<open>
  Codex is a coding agent: a model proposes commands and patches, the program decides which
  commands may run, applies the patches to a workspace, reports the net diff of a turn, and
  streams the model's text to its clients. The Rust workspace under \<open>src/codex-rs\<close> holds some
  two thousand files. This development models the self-contained logic that the rest of the
  program relies on; file names below are relative to \<open>src/codex-rs\<close>.

  \<^bold>\<open>How the parts interact.\<close> The text of a patch is parsed into hunks (\<open>Patch_Parser\<close>); each
  hunk is turned into line replacements of the file it names (\<open>Seek_Sequence\<close>, \<open>Text_File\<close>,
  \<open>File_Update\<close>); the hunks are applied through the file-system interface (\<open>Executor_Fs\<close>,
  \<open>Apply_Hunks\<close>), which yields a delta of committed changes; the deltas of a turn go to the diff
  tracker (\<open>Turn_Diff\<close>). This theory composes them in \<open>run_turn\<close>. A command that the model
  asks for is split into the commands of its script (\<open>Shell_Script\<close>), classified as safe or dangerous
  (\<open>Command_Safety\<close>) and checked against the policy (\<open>Exec_Policy\<close>), which is read from policy files
  (\<open>Policy_Parser\<close>) and extended when a user accepts a rule (\<open>Policy_Amend\<close>); \<open>Command_Approval\<close> puts
  these together into the decision to run, to ask or to refuse. What was said and done is recorded
  in the history (\<open>Response_Items\<close>, \<open>Context_Manager\<close>) and normalised for the next request to the model
  (\<open>History_Normalize\<close>). The text of the model passes through stream parsers that
  hide citations and plans (\<open>Stream_Text\<close> to \<open>Utf8_Stream\<close>). The output of a command is collected in
  a bounded buffer (\<open>Head_Tail_Buffer\<close>) and truncated before the model sees it (\<open>Truncation\<close>).
  Agents spawn agents, named by paths (\<open>Agent_Path\<close>) and limited by a shared registry
  (\<open>Agent_Registry\<close>). The network traffic of commands goes through a proxy, which decides by
  domain lists and address classes (\<open>Ip_Address\<close>, \<open>Network_Host\<close>), under settings that managed
  constraints bound (\<open>Network_Config\<close>, \<open>Network_State\<close>), and may authorise requests with hooks
  (\<open>Mitm_Hook\<close>); \<open>Network_Runtime\<close> is its running state.

  \<^bold>\<open>Conventions.\<close> A Rust \<open>str\<close> and a byte vector are lists of bytes (type \<open>rust_str\<close>); where the
  code looks at characters, \<open>utf8_chars\<close> (\<open>Prelude\<close>, \<open>Utf8\<close>) cuts the bytes, and \<open>utf8_valid\<close> is
  the invariant of a Rust string. \<open>Result\<close> is a sum with the error on the left. \<open>usize\<close> is a
  natural number; saturating operations are \<open>sat_add\<close> and \<open>sat_mul\<close> at \<open>usize_max\<close>, and
  subtractions that would underflow, slices out of range and assertions are panics of the model
  (\<open>Panicked\<close>, \<open>None\<close>). Hash maps are association lists. Mutable receivers are passed and returned.

  \<^bold>\<open>Theories and what they show.\<close>

  \<^item> \<open>Prelude\<close>: Rust string operations (\<open>trim\<close>, \<open>lines\<close>, \<open>split\<close>, \<open>strip_prefix\<close>), printing of
    numbers, saturating arithmetic, and the simplification collections of the development.

  \<^item> \<open>Patch_Parser\<close> (\<open>apply-patch/src/parser.rs\<close>, \<open>streaming_parser.rs\<close>): the line parser with its
    modes, the strict and lenient boundary checks, \<open>parse_patch\<close>. \<open>Patch_Parser_Props\<close>: the
    invariant of the parser state, well-formed hunks, independence of chunking.
    \<open>Patch_Roundtrip\<close>: a printer for hunks, and parsing what it prints.

  \<^item> \<open>Seek_Sequence\<close> (\<open>seek_sequence.rs\<close>): the four passes of the fuzzy line search, which return
    the first position of the strictest pass that matches. \<open>Text_File\<close> (\<open>text_file.rs\<close>): lines
    with their endings, splicing, printing. \<open>File_Update\<close>, \<open>File_Update_Props\<close>
    (\<open>file_update.rs\<close>): replacements computed from chunks are disjoint, ordered and inside the
    file; applying them in place is a splice; context lines keep their bytes.

  \<^item> \<open>Executor_Fs\<close> (\<open>file-system/src/lib.rs\<close>, \<open>exec-server/src/local_file_system.rs\<close>): the trait as
    a record of operations, its contract as the locale \<open>executor_fs_contract\<close>, and the direct file
    system over a model of the POSIX calls, which interprets the contract on worlds without
    symbolic links. \<open>Apply_Hunks\<close>, \<open>Apply_Hunks_Props\<close> (\<open>apply-patch/src/lib.rs\<close>): every hunk kind
    with every error path, and the delta: one that is marked exact replays the changes and undoes
    them, also after a failure.

  \<^item> \<open>Turn_Diff\<close>, \<open>Turn_Diff_Props\<close> (\<open>core/src/turn_diff_tracker.rs\<close>): tracking, rename pairing,
    the revision cache and rendering. The tracker's view is the workspace, the published diff is
    the diff of the net change, and the cache never serves a stale diff.

  \<^item> \<open>Exec_Policy\<close>, \<open>Exec_Policy_Props\<close> (\<open>execpolicy/src/decision.rs\<close>, \<open>rule.rs\<close>, \<open>policy.rs\<close>,
    \<open>executable_name.rs\<close>): rules and their evaluation; the strictest matching rule decides, an
    overlay never weakens a decision. \<open>Policy_Parser\<close> (\<open>parser.rs\<close>): the builtins of a policy file
    and the validation of its examples. \<open>Policy_Amend\<close> (\<open>amend.rs\<close>, \<open>sandbox_migration.rs\<close>).

  \<^item> \<open>Absolute_Path\<close> (\<open>utils/absolute-path/src\<close>): every absolute path is normal; it implements the path
    interface of the policy engine, and the locale \<open>name_keeping_paths\<close> states what the engine relies on.

  \<^item> \<open>Shell_Script\<close> (\<open>shell-command/src/bash.rs\<close>, \<open>shell_detect.rs\<close>): the commands of a script, read
    from its syntax tree in three ways of different strictness; detecting the shell terminates.
    \<open>Command_Safety\<close> (\<open>shell-command/src/command_safety\<close>): the list of safe commands and the search for
    dangerous ones never contradict each other; what a safe git command may contain; the depth
    to which wrappers are followed.

  \<^item> \<open>Command_Approval\<close>, \<open>Command_Approval_Props\<close> (\<open>core/src/exec_policy.rs\<close>, \<open>model_policy.rs\<close>): the
    decision for a request, its reasons and proposed amendments, updates and loading of the policy.
    Required rules cannot be overridden, dangerous commands are not run unasked, the sandbox is
    only bypassed for commands that rules allow, accepted amendments take effect.

  \<^item> \<open>Response_Items\<close> (\<open>protocol/src/models.rs\<close>), \<open>History_Normalize\<close>
    (\<open>core/src/context_manager/normalize.rs\<close>), \<open>Context_Manager\<close> (\<open>history.rs\<close>), \<open>Context_Fragments\<close>
    (\<open>context-fragments/src\<close>, \<open>core/src/context\<close>): a prompt pairs calls and outputs and holds only
    supported media, the passes of the normalisation equal one pass, dropping the oldest item keeps
    the pairs, a rollback removes exactly the turns asked for, injected context is no turn.

  \<^item> \<open>Stream_Text\<close> (the trait as the locale \<open>stream_parser\<close>), \<open>Inline_Tags\<close>, \<open>Citation\<close>,
    \<open>Tagged_Lines\<close>, \<open>Proposed_Plan\<close>, \<open>Assistant_Text\<close>, \<open>Utf8_Stream\<close>
    (\<open>utils/stream-parser/src\<close>): each parser equals a reference function of the whole text, so the
    way the text is cut into chunks does not show; what hidden tags enclose is extracted and the
    rest is visible; bytes that are not UTF-8 are reported and rolled back.

  \<^item> \<open>Head_Tail_Buffer\<close> (\<open>core/src/unified_exec/head_tail_buffer.rs\<close>), \<open>Truncation\<close>
    (\<open>utils/string/src/truncate.rs\<close>, \<open>utils/output-truncation/src/lib.rs\<close>): what is kept of a long
    output, and bounds on it.

  \<^item> \<open>Agent_Path\<close> (\<open>protocol/src/agent_path.rs\<close>), \<open>Agent_Registry\<close> (\<open>core/src/agent/registry.rs\<close>):
    the registry with the reservations in flight. Each region under the lock and each atomic
    operation is one step; the limit holds in every sequence of steps.

  \<^item> \<open>Ip_Address\<close>, \<open>Network_Host\<close> (\<open>network-proxy/src/policy.rs\<close>): parsing and classes of addresses, which
    are exactly given numeric blocks; normalised hosts; domain patterns, whose textual comparison is
    inclusion of the hosts they stand for. \<open>Network_Config\<close> (\<open>config.rs\<close>, \<open>remote_config.rs\<close>): the
    settings, in which a denial overrides an allowance of the same pattern, and the listener
    addresses, which stay local unless asked otherwise. \<open>Mitm_Hook\<close> (\<open>mitm_hook.rs\<close>, \<open>authorization_path.rs\<close>):
    hooks, and paths that decoding cannot turn into others. \<open>Network_State\<close> (\<open>state.rs\<close>): the compiled
    state and the check against managed constraints. \<open>Domain_Globs\<close>: what the compiled sets match, and that
    accepted settings do not widen a managed allowlist, with the gap that a port suffix leaves.
    \<open>Network_Runtime\<close> (\<open>runtime.rs\<close>, \<open>network_policy.rs\<close>, \<open>connect_policy.rs\<close>): the host check, the
    interactive decider, the connector, the buffer of blocked requests, reloads and changes of the policy.
    \<open>Network_Props\<close>: the running policy stays within its constraints, denials win and take effect,
    a name cannot be rebound to a local address, and the buffer holds the newest requests (locale
    \<open>bounded_log\<close>, interpreted on the proxy's state).

  \<^bold>\<open>Parameters.\<close> Code outside the repository is an argument: the Starlark evaluator, \<open>shlex\<close> and
  JSON printing in the policy theories, SHA-1 and the text diff in \<open>Turn_Diff\<close>, the bash grammar of
  tree-sitter in \<open>Shell_Script\<close>, the home and the working directory in \<open>Absolute_Path\<close>, name-based
  UUIDs, JSON and XML parsing and audio token counts in \<open>Context_Manager\<close>, random choice and thread ids in \<open>Agent_Registry\<close>; in the
  network theories globs, URL and form parsing, header names, the resolver, the environment, the
  configuration reloader, the decider and the TLS state (records \<open>proxy_libs\<close>, \<open>hook_libs\<close>,
  \<open>state_libs\<close>). What the network properties need of globs and URL hosts is named \<open>globs_ok\<close> and
  \<open>url_hosts_ok\<close>; the concrete matcher \<open>sample_libs\<close> satisfies both. Operations of the operating
  system follow POSIX; nobody else writes to the workspace between two calls. Two definitions
  count down: \<open>show_digits\<close> prints at most twenty digits, as many as a \<open>usize\<close> has, and \<open>os_follow\<close>
  follows as many symbolic links as the kernel does. \<open>detect_shell_type\<close> is a partial function that
  is proved to return. The retry loops of the proxy (\<open>update_rounds\<close>, \<open>set_mode_rounds\<close>) take a list of
  rounds, each with what the reloader answers and what other tasks do before the lock is taken; a round
  in which no other task changes the policy is the last, so one such round is enough.

  \<^bold>\<open>Not modelled.\<close> Asynchronous orchestration (the agent loop, sessions, the app server), the
  terminal and command-line interfaces, network and model clients, persistence in SQLite and
  rollout files, sandbox enforcement by the operating system, telemetry. Of the modelled files:
  the unified diff of a single update, sandboxed and remote file systems, Windows paths, source
  locations of policy errors, file locks, the depth of a spawned session, token estimates and usage
  of the history, the listing of rule files, everything that is compiled for Windows only, and
  the network proxy's servers, TLS interception, certificates, credential broker and audit events.
  Candidates for further theories are the token estimates of \<open>core/src/context_manager/history.rs\<close>, the
  file-system permissions (\<open>protocol/src/permissions.rs\<close>) and the recognition of patches in shell
  commands (\<open>apply-patch/src/invocation.rs\<close>).
\<close>

section \<open>A turn: patches applied and tracked\<close>

text \<open>
  The patches of one environment in a turn, applied one after the other; the delta of each, of a
  failed one too, goes to the tracker.
\<close>

fun run_turn ::
    "abs_path diff_env \<Rightarrow> rust_str \<Rightarrow> abs_path \<Rightarrow> update_file_mode \<Rightarrow> hunk list list \<Rightarrow>
     os_world \<times> abs_path turn_diff_tracker \<Rightarrow> os_world \<times> abs_path turn_diff_tracker" where
  "run_turn E env cwd m [] (w, t) = (w, t)"
| "run_turn E env cwd m (hs # hss) (w, t) =
     (case apply_hunks_to_files direct_fs (component_paths cwd) m hs w of
        (_, st) \<Rightarrow> run_turn E env cwd m hss (world st, track_delta E env (delta st) t))"

lemma track_delta_valid: "valid (track_delta E env d t) \<Longrightarrow> valid t \<and> exact d"
  by (auto simp: track_delta_def invalidate_def split: if_splits)

lemma run_turn_valid: "valid (snd (run_turn E env cwd m hss wt)) \<Longrightarrow> valid (snd wt)"
  by (induction E env cwd m hss wt rule: run_turn.induct) (auto split: prod.splits dest: track_delta_valid)

lemma run_turn_view:
  assumes "link_free w" "\<forall>hs \<in> set hss. list_all (no_self_move (component_paths cwd)) hs"
    "tracker_inv base t" "env_view base t env = os_files w"
    "run_turn E env cwd m hss (w, t) = (w', t')" "valid t'"
  shows "env_view base t' env = os_files w'"
  using assms
proof (induction hss arbitrary: w t)
  case (Cons hs hss)
  obtain r st where run: "apply_hunks_to_files direct_fs (component_paths cwd) m hs w = (r, st)" by fastforce
  let ?t = "track_delta E env (delta st) t"
  have rest: "run_turn E env cwd m hss (world st, ?t) = (w', t')" using Cons.prems(5) run by simp
  have ns: "list_all (no_self_move (component_paths cwd)) hs" using Cons.prems(2) by simp
  have v: "valid t" "exact (delta st)"
    using run_turn_valid[of E env cwd m hss "(world st, ?t)"] rest Cons.prems(6) track_delta_valid by auto
  have "delta_run (changes (delta st)) (env_view base t env) (os_files (world st))"
    using direct.delta_describes_files[OF Cons.prems(1) ns run v(2)] Cons.prems(4) by simp
  note view = track_delta_view(1,2)[OF v Cons.prems(3) this, of E]
  show ?case
    using Cons.IH[OF direct.run_good[OF Cons.prems(1) ns run] _ view(1) view(2) rest Cons.prems(6)] Cons.prems(2)
    by simp
qed simp




text \<open>
  C16. From patch text to file contents nothing panics: every update hunk of a patch that parses
  can be applied to any file contents in both modes, and the outcome is new contents or the
  reported mismatch.
\<close>

theorem parsed_patch_never_panics:
  assumes "parse_patch text = Inr args" "UpdateFile path mv chunks \<in> set (arg_hunks args)"
  shows "derive_new_contents contents name chunks m \<noteq> Inl Panicked"
proof -
  have "\<forall>c \<in> set chunks. chunk_wf c" using parsed_chunks_wf[OF assms] .
  then show ?thesis using derive_no_panic by blast
qed

theorem parsed_patch_never_panics_witness:
  "derive_new_contents (''x'' @ [newline]) ''f'' (hunk_chunks (hd (arg_hunks sample_args))) NormalizeToLf
     \<noteq> Inl Panicked"
proof -
  have "UpdateFile ''a'' None (hunk_chunks (hd (arg_hunks sample_args))) \<in> set (arg_hunks sample_args)"
    by (simp add: sample_args_def)
  from parsed_patch_never_panics[OF parse_sample_patch this] show ?thesis .
qed

end
